(* ===== verification/Kernel_Prelude.thy ===== *)
theory Kernel_Prelude
  imports Main "HOL-Library.Word"
begin

unbundle bit_operations_syntax

text \<open>
  Shared ground of the development: the C integer types of
  \<^verbatim>\<open>src/src/include/klibc/types.h\<close> as machine words, the ways in which kernel code stops
  instead of returning, page and power-of-two alignment on words, singly linked lists threaded
  through a store, and the interface of a state machine with an invariant.

  \<^item> \<open>result\<close> and \<open>rbind\<close>: a run that halts the machine (NULL dereference, panic, divide fault, a loop without end) is \<open>Inl\<close>.
  \<^item> \<open>chain nxt p xs\<close>: following \<open>nxt\<close> from \<open>p\<close> visits exactly \<open>xs\<close> and then NULL.
  \<^item> \<open>word_align\<close>: the collection of facts that reads masks as division with remainder.
  \<^item> locale \<open>invariant_system\<close>: reachability and inductive invariants, proved once for all
    components that are state machines.
\<close>

section \<open>Integer types\<close>

type_synonym u8 = "8 word"
type_synonym u16 = "16 word"
type_synonym u32 = "32 word"
type_synonym u64 = "64 word"

text \<open>The registers that the \<^verbatim>\<open>cpuid\<close> instruction leaves.\<close>

record cpuid_regs =
  r_eax :: u32
  r_ebx :: u32
  r_ecx :: u32
  r_edx :: u32

named_theorems word_align \<open>masks and alignment read as division with remainder\<close>

section \<open>Runs that halt the machine\<close>

datatype halt = Null_Deref | Panic | Divide_Error | Diverges

type_synonym 'a result = "halt + 'a"

definition rbind :: "'a result \<Rightarrow> ('a \<Rightarrow> 'b result) \<Rightarrow> 'b result" where
  "rbind r f = (case r of Inl h \<Rightarrow> Inl h | Inr x \<Rightarrow> f x)"

lemma rbind_simps [simp]:
  "rbind (Inl h) f = Inl h"
  "rbind (Inr x) f = f x"
  by (simp_all add: rbind_def)

lemma rbind_eq_Inr: "rbind r f = Inr y \<longleftrightarrow> (\<exists>x. r = Inr x \<and> f x = Inr y)"
  by (cases r) simp_all

lemma rbind_eq_Inl: "rbind r f = Inl h \<longleftrightarrow> r = Inl h \<or> (\<exists>x. r = Inr x \<and> f x = Inl h)"
  by (cases r) auto

text \<open>A loop is a partial function into \<open>option\<close>; as part of a run, not returning is a way to halt.\<close>

definition returns :: "'a option \<Rightarrow> 'a result" where
  "returns r = (case r of None \<Rightarrow> Inl Diverges | Some x \<Rightarrow> Inr x)"

lemma returns_simps [simp]: "returns (Some x) = Inr x" "returns None = Inl Diverges"
  by (simp_all add: returns_def)

lemma rbind_cong [fundef_cong]:
  "r = r' \<Longrightarrow> (\<And>x. r' = Inr x \<Longrightarrow> f x = f' x) \<Longrightarrow> rbind r f = rbind r' f'"
  by (cases r') auto

text \<open>A loop over a list of values whose body may halt the machine.\<close>

fun rfold :: "('a \<Rightarrow> 's \<Rightarrow> 's result) \<Rightarrow> 'a list \<Rightarrow> 's \<Rightarrow> 's result" where
  "rfold f [] s = Inr s"
| "rfold f (x # xs) s = rbind (f x s) (rfold f xs)"

lemma rfold_inv:
  "rfold f xs s = Inr t \<Longrightarrow> P s \<Longrightarrow> (\<And>x s t. x \<in> set xs \<Longrightarrow> P s \<Longrightarrow> f x s = Inr t \<Longrightarrow> P t) \<Longrightarrow> P t"
proof (induction xs arbitrary: s)
  case (Cons x xs)
  then obtain u where u: "f x s = Inr u" "rfold f xs u = Inr t" by (auto simp: rbind_eq_Inr)
  have "P u" using Cons.prems(2,3) u(1) by auto
  then show ?case using Cons.IH [OF u(2)] Cons.prems(3) by auto
qed simp

section \<open>Masks and alignment\<close>

lemma mask_12: "(4095 :: u64) = mask 12"
  by (simp add: mask_eq_exp_minus_1)

lemma unat_and_mask [word_align]: "unat ((a :: 'a::len word) AND mask n) = unat a mod 2 ^ n"
  by (metis take_bit_eq_mask take_bit_eq_mod unsigned_take_bit_eq)

lemma and_not_mask_minus: "(a :: 'a::len word) AND NOT (mask n) = a - (a AND mask n)"
proof -
  have "a = (a AND NOT (mask n)) + (a AND mask n)"
    by (subst disjunctive_add) (auto simp: bit_simps bit_eq_iff)
  then show ?thesis by (metis add_diff_cancel_right')
qed

lemma unat_and_not_mask [word_align]:
  "unat ((a :: 'a::len word) AND NOT (mask n)) = unat a - unat a mod 2 ^ n"
proof -
  have "a AND mask n \<le> a" by (simp add: word_and_le2)
  then show ?thesis by (simp add: and_not_mask_minus unat_sub unat_and_mask)
qed

lemma and_mask_eq_0_iff [word_align]:
  "(a :: 'a::len word) AND mask n = 0 \<longleftrightarrow> 2 ^ n dvd unat a"
  by (metis dvd_eq_mod_eq_0 unat_and_mask unat_eq_zero)

lemma dvd_unat_iff_uint: "2 ^ n dvd unat (a :: 'a::len word) \<longleftrightarrow> 2 ^ n dvd uint a"
  by (simp flip: int_dvd_int_iff)

lemma dvd_unat_diff:
  assumes "n \<le> LENGTH('a)" and "2 ^ n dvd unat (a :: 'a::len word)" and "2 ^ n dvd unat b"
  shows "2 ^ n dvd unat (a - b)"
proof -
  have "(2 :: int) ^ n dvd 2 ^ LENGTH('a)" using assms(1) by (rule le_imp_power_dvd)
  then show ?thesis
    using assms(2,3) by (simp only: dvd_unat_iff_uint uint_word_ariths dvd_mod_iff dvd_diff)
qed

lemma dvd_unat_add:
  assumes "n \<le> LENGTH('a)" and "2 ^ n dvd unat (a :: 'a::len word)" and "2 ^ n dvd unat b"
  shows "2 ^ n dvd unat (a + b)"
proof -
  have "(2 :: int) ^ n dvd 2 ^ LENGTH('a)" using assms(1) by (rule le_imp_power_dvd)
  then show ?thesis
    using assms(2,3) by (simp only: dvd_unat_iff_uint uint_word_ariths dvd_mod_iff dvd_add)
qed

lemma unat_of_nat_small: "n < 2 ^ LENGTH('a) \<Longrightarrow> unat (of_nat n :: 'a::len word) = n"
  by (simp add: unat_of_nat)

lemma unat_lt2p: "unat (w :: 'a::len word) < 2 ^ LENGTH('a)"
  by (rule unsigned_less)

section \<open>Linked lists in a store\<close>

text \<open>
  \<open>chain nxt p xs\<close> holds when the pointer \<open>p\<close> heads a list whose nodes are \<open>xs\<close>, in order, and
  whose last \<open>next\<close> field is NULL (zero).
\<close>

fun chain :: "('p::zero \<Rightarrow> 'p) \<Rightarrow> 'p \<Rightarrow> 'p list \<Rightarrow> bool" where
  "chain nxt p [] \<longleftrightarrow> p = 0"
| "chain nxt p (x # xs) \<longleftrightarrow> p = x \<and> x \<noteq> 0 \<and> chain nxt (nxt x) xs"

lemma chain_null [simp]: "chain nxt 0 xs \<longleftrightarrow> xs = []"
  by (cases xs) auto

lemma chain_head: "chain nxt p xs \<Longrightarrow> p = (if xs = [] then 0 else hd xs)"
  by (cases xs) auto

lemma chain_nonnull: "chain nxt p xs \<Longrightarrow> 0 \<notin> set xs"
  by (induction xs arbitrary: p) auto

lemma chain_unique: "chain nxt p xs \<Longrightarrow> chain nxt p ys \<Longrightarrow> xs = ys"
proof (induction xs arbitrary: p ys)
  case Nil
  then show ?case by simp
next
  case (Cons x xs)
  then show ?case by (cases ys) auto
qed

lemma chain_cong:
  "(\<And>x. x \<in> set xs \<Longrightarrow> nxt x = nxt' x) \<Longrightarrow> chain nxt p xs = chain nxt' p xs"
  by (induction xs arbitrary: p) auto

lemma chain_update [simp]: "q \<notin> set xs \<Longrightarrow> chain (nxt(q := v)) p xs = chain nxt p xs"
  by (rule chain_cong) auto

lemma chain_append:
  "chain nxt p (xs @ y # ys) \<Longrightarrow> chain nxt y (y # ys)"
  by (induction xs arbitrary: p) auto

lemma chain_distinct: "chain nxt p xs \<Longrightarrow> distinct xs"
proof (induction xs arbitrary: p)
  case Nil
  then show ?case by simp
next
  case (Cons x xs)
  have "x \<notin> set xs"
  proof
    assume "x \<in> set xs"
    then obtain as bs where xs: "xs = as @ x # bs" by (meson split_list)
    then have "chain nxt x (x # bs)" using Cons.prems by (auto dest: chain_append)
    moreover have "chain nxt x (x # xs)" using Cons.prems by simp
    ultimately have "x # bs = x # xs" by (rule chain_unique)
    then show False using xs by simp
  qed
  with Cons show ?case by auto
qed

lemma chain_push:
  "chain nxt p xs \<Longrightarrow> q \<notin> set xs \<Longrightarrow> q \<noteq> 0 \<Longrightarrow> chain (nxt(q := p)) q (q # xs)"
  by simp

lemma last_notin_tail: "distinct (xs @ ys) \<Longrightarrow> xs \<noteq> [] \<Longrightarrow> last xs \<notin> set ys"
  by (meson disjoint_iff distinct_append last_in_set)

lemma chain_relink:
  "chain nxt p (xs @ ys) \<Longrightarrow> xs \<noteq> [] \<Longrightarrow> chain nxt q zs \<Longrightarrow> last xs \<notin> set zs \<Longrightarrow>
   chain (nxt(last xs := q)) p (xs @ zs)"
proof (induction xs arbitrary: p)
  case Nil
  then show ?case by simp
next
  case (Cons x xs)
  show ?case
  proof (cases "xs = []")
    case True
    then show ?thesis using Cons.prems by (simp del: fun_upd_apply add: fun_upd_same)
  next
    case False
    have "distinct (x # xs @ ys)" using chain_distinct [OF Cons.prems(1)] by simp
    then have "x \<noteq> last xs" using False by auto
    then show ?thesis using Cons False by (simp del: fun_upd_apply add: fun_upd_other)
  qed
qed

text \<open>
  The two search loops over such a list.  \<open>find_node\<close> returns the first node with a property, NULL if there is none.
  \<open>find_link\<close> looks for the pointer through which a node is reached: \<open>prev = 0\<close> stands for the address of the variable
  that holds the head \<open>h\<close>, another \<open>prev\<close> for the \<open>next\<close> field of that node.
\<close>

partial_function (option) find_node :: "('p::zero \<Rightarrow> 'p) \<Rightarrow> ('p \<Rightarrow> bool) \<Rightarrow> 'p \<Rightarrow> 'p option" where
  "find_node nxt P p = (if p = 0 \<or> P p then Some p else find_node nxt P (nxt p))"

partial_function (option) find_link :: "('p::zero \<Rightarrow> 'p) \<Rightarrow> 'p \<Rightarrow> 'p \<Rightarrow> 'p \<Rightarrow> 'p option option" where
  "find_link nxt h x prev =
     (let cur = if prev = 0 then h else nxt prev
      in if cur = 0 then Some None else if cur = x then Some (Some prev) else find_link nxt h x cur)"

text \<open>The last node of the run of nodes after \<open>p\<close> that have a property; \<open>p\<close> itself when the next one has it not.\<close>

partial_function (option) find_last :: "('p::zero \<Rightarrow> 'p) \<Rightarrow> ('p \<Rightarrow> bool) \<Rightarrow> 'p \<Rightarrow> 'p option" where
  "find_last nxt P p = (if nxt p \<noteq> 0 \<and> P (nxt p) then find_last nxt P (nxt p) else Some p)"

lemma find_last_eq: "chain nxt (nxt p) xs \<Longrightarrow> find_last nxt P p = Some (last (p # takeWhile P xs))"
proof (induction xs arbitrary: p)
  case Nil
  then show ?case by (subst find_last.simps) simp
next
  case (Cons x xs)
  then have "nxt p = x" "x \<noteq> 0" "chain nxt (nxt x) xs" by auto
  then show ?case using Cons.IH [of x] by (subst find_last.simps) auto
qed

lemma find_mem: "find P xs = Some x \<Longrightarrow> x \<in> set xs \<and> P x"
  by (induction xs) (auto split: if_splits)

lemma find_none: "find P xs = None \<longleftrightarrow> (\<forall>x \<in> set xs. \<not> P x)"
  by (auto simp: find_None_iff)

lemma find_node_eq: "chain nxt p xs \<Longrightarrow> find_node nxt P p = Some (case find P xs of None \<Rightarrow> 0 | Some x \<Rightarrow> x)"
proof (induction xs arbitrary: p)
  case Nil
  then show ?case by (subst find_node.simps) simp
next
  case (Cons x xs)
  then have "p = x" "x \<noteq> 0" "chain nxt (nxt x) xs" by auto
  then show ?case using Cons.IH [of "nxt x"] by (subst find_node.simps) simp
qed

lemma find_link_eq:
  "chain nxt (if prev = 0 then h else nxt prev) (xs @ x # ys) \<Longrightarrow> x \<notin> set xs \<Longrightarrow> find_link nxt h x prev = Some (Some (last (prev # xs)))"
proof (induction xs arbitrary: prev)
  case Nil
  then show ?case by (subst find_link.simps) (simp add: Let_def)
next
  case (Cons y ys')
  define cur where "cur = (if prev = 0 then h else nxt prev)"
  have y: "cur = y" "y \<noteq> 0" "y \<noteq> x" "chain nxt (nxt y) (ys' @ x # ys)"
    using Cons.prems unfolding cur_def [symmetric] by auto
  have "find_link nxt h x prev = find_link nxt h x y"
    using y by (subst find_link.simps) (simp add: Let_def cur_def)
  then show ?case using Cons.IH [of y] Cons.prems(2) y by simp
qed

text \<open>Taking a node out through its link.\<close>

lemma chain_unlink:
  assumes "chain nxt h (xs @ x # ys)"
  shows "chain (if last (0 # xs) = 0 then nxt else nxt(last (0 # xs) := nxt x)) (if last (0 # xs) = 0 then nxt x else h) (xs @ ys)"
    and "last (0 # xs) = 0 \<longleftrightarrow> xs = []"
proof -
  have c: "chain nxt (nxt x) ys" using chain_append [OF assms] by simp
  show z: "last (0 # xs) = 0 \<longleftrightarrow> xs = []"
  proof (cases "xs = []")
    case False
    then have "last xs \<in> set (xs @ x # ys)" by simp
    then show ?thesis using False chain_nonnull [OF assms] by (metis last_ConsR)
  qed simp
  show "chain (if last (0 # xs) = 0 then nxt else nxt(last (0 # xs) := nxt x)) (if last (0 # xs) = 0 then nxt x else h) (xs @ ys)"
  proof (cases "xs = []")
    case True
    then show ?thesis using c by simp
  next
    case False
    then have "last xs \<notin> set ys" using last_notin_tail [OF chain_distinct [OF assms]] by simp
    then show ?thesis using chain_relink [OF assms False c] False z by simp
  qed
qed

section \<open>State machines with an invariant\<close>

text \<open>
  The interface of a component as a state machine: its start states, its steps and an invariant
  that the start states have and every step keeps.  Everything a client may conclude about the
  reachable states follows here, once.
\<close>

inductive reachable :: "('s \<Rightarrow> bool) \<Rightarrow> ('s \<Rightarrow> 's \<Rightarrow> bool) \<Rightarrow> 's \<Rightarrow> bool"
  for init :: "'s \<Rightarrow> bool" and step :: "'s \<Rightarrow> 's \<Rightarrow> bool" where
  reach_init: "init s \<Longrightarrow> reachable init step s"
| reach_step: "reachable init step s \<Longrightarrow> step s t \<Longrightarrow> reachable init step t"

locale invariant_system =
  fixes init :: "'s \<Rightarrow> bool"
    and step :: "'s \<Rightarrow> 's \<Rightarrow> bool"
    and inv :: "'s \<Rightarrow> bool"
  assumes inv_init: "init s \<Longrightarrow> inv s"
    and inv_step: "inv s \<Longrightarrow> step s t \<Longrightarrow> inv t"
begin

lemma reachable_inv: "reachable init step s \<Longrightarrow> inv s"
  by (induction rule: reachable.induct) (auto intro: inv_init inv_step)

lemma steps_inv: "step\<^sup>*\<^sup>* s t \<Longrightarrow> inv s \<Longrightarrow> inv t"
  by (induction rule: rtranclp_induct) (auto intro: inv_step)

lemma reachable_imp: "reachable init step s \<Longrightarrow> (\<And>s. inv s \<Longrightarrow> P s) \<Longrightarrow> P s"
  by (simp add: reachable_inv)

end

end
