(* ===== verification/Klibc_String.thy ===== *)
theory Klibc_String
  imports Kernel_Prelude "HOL-Library.Monad_Syntax" "HOL-Library.Sublist"
begin

text \<open>
  The string and memory routines of \<^verbatim>\<open>src/src/kernel/klibc/string.c\<close> over a byte-addressed store.
  A loop that stops only at a NUL byte is a partial function: \<open>None\<close> is a run that never returns.
  Plain \<^verbatim>\<open>char\<close> is signed on this target, so \<open>strncmp\<close> and \<open>atoll\<close> read bytes with \<open>sint\<close>, while
  \<open>strcmp\<close> and \<open>memcmp\<close> read them unsigned.  The lemmas relate every routine to lists of bytes.
\<close>

section \<open>Definitions\<close>

type_synonym bytes = "u64 \<Rightarrow> u8"

fun rep_movsb :: "nat \<Rightarrow> u64 \<Rightarrow> u64 \<Rightarrow> bytes \<Rightarrow> bytes" where
  "rep_movsb 0 d s m = m"
| "rep_movsb (Suc c) d s m = rep_movsb c (d + 1) (s + 1) (m(d := m s))"

definition memcpy :: "u64 \<Rightarrow> u64 \<Rightarrow> u64 \<Rightarrow> bytes \<Rightarrow> u64 \<times> bytes" where
  "memcpy d s c m = (d, rep_movsb (unat c) d s m)"

fun rep_stosb :: "nat \<Rightarrow> u64 \<Rightarrow> u8 \<Rightarrow> bytes \<Rightarrow> bytes" where
  "rep_stosb 0 d v m = m"
| "rep_stosb (Suc c) d v m = rep_stosb c (d + 1) v (m(d := v))"

definition memset :: "u64 \<Rightarrow> u32 \<Rightarrow> u64 \<Rightarrow> bytes \<Rightarrow> u64 \<times> bytes" where
  "memset ptr v num m = (ptr, rep_stosb (unat num) ptr (ucast v) m)"

partial_function (option) strlen_loop :: "bytes \<Rightarrow> u64 \<Rightarrow> u64 \<Rightarrow> u64 option" where
  "strlen_loop m a s = (if m (a + s) \<noteq> 0 then strlen_loop m a (s + 1) else Some s)"

definition strlen :: "bytes \<Rightarrow> u64 \<Rightarrow> u64 option" where
  "strlen m a = strlen_loop m a 0"

partial_function (option) strcpy_loop :: "u64 \<Rightarrow> u64 \<Rightarrow> bytes \<Rightarrow> bytes option" where
  "strcpy_loop temp2 temp1 m =
     (if m temp1 \<noteq> 0 then strcpy_loop (temp2 + 1) (temp1 + 1) (m(temp2 := m temp1))
      else Some (m(temp2 := 0)))"

definition strcpy :: "u64 \<Rightarrow> u64 \<Rightarrow> bytes \<Rightarrow> (u64 \<times> bytes) option" where
  "strcpy p s m = do { m \<leftarrow> strcpy_loop p s m; Some (p, m) }"

definition strcat :: "u64 \<Rightarrow> u64 \<Rightarrow> bytes \<Rightarrow> (u64 \<times> bytes) option" where
  "strcat dest src m = do {
     n \<leftarrow> strlen m dest;
     (_, m) \<leftarrow> strcpy (dest + n) src m;
     Some (dest + n, m) }"

partial_function (option) strcmp :: "bytes \<Rightarrow> u64 \<Rightarrow> u64 \<Rightarrow> int option" where
  "strcmp m a b =
     (if m a \<noteq> 0 \<and> m a = m b then strcmp m (a + 1) (b + 1)
      else Some (uint (m a) - uint (m b)))"

fun strncpy_copy :: "nat \<Rightarrow> u64 \<Rightarrow> u64 \<Rightarrow> u64 \<Rightarrow> bytes \<Rightarrow> nat \<times> u64 \<times> bytes" where
  "strncpy_copy 0 i dest src m = (0, i, m)"
| "strncpy_copy (Suc r) i dest src m =
     (if m (src + i) \<noteq> 0 then strncpy_copy r (i + 1) dest src (m(dest + i := m (src + i)))
      else (Suc r, i, m))"

fun strncpy_pad :: "nat \<Rightarrow> u64 \<Rightarrow> u64 \<Rightarrow> bytes \<Rightarrow> bytes" where
  "strncpy_pad 0 i dest m = m"
| "strncpy_pad (Suc r) i dest m = strncpy_pad r (i + 1) dest (m(dest + i := 0))"

definition strncpy :: "u64 \<Rightarrow> u64 \<Rightarrow> u64 \<Rightarrow> bytes \<Rightarrow> u64 \<times> bytes" where
  "strncpy dest src n m =
     (let (r, i, m) = strncpy_copy (unat n) 0 dest src m in (dest, strncpy_pad r i dest m))"

definition strdup :: "(u64 \<Rightarrow> bytes \<Rightarrow> u64 \<times> bytes) \<Rightarrow> u64 \<Rightarrow> bytes \<Rightarrow> (u64 \<times> bytes) option" where
  "strdup kmalloc s m =
     (if s = 0 then Some (0, m)
      else do {
        l \<leftarrow> strlen m s;
        let (d, m') = kmalloc (l + 1) m;
        if d = 0 then Some (0, m') else Some (d, snd (memcpy d s (l + 1) m')) })"

partial_function (option) strchr :: "bytes \<Rightarrow> u64 \<Rightarrow> u32 \<Rightarrow> u64 option" where
  "strchr m s c =
     (if m s \<noteq> 0 then (if m s = ucast c then Some s else strchr m (s + 1) c)
      else Some (if c = 0 then s else 0))"

fun strncmp_loop :: "nat \<Rightarrow> int \<Rightarrow> u64 \<Rightarrow> u64 \<Rightarrow> bytes \<Rightarrow> int" where
  "strncmp_loop 0 diff a b m = diff"
| "strncmp_loop (Suc c) diff a b m =
     (if diff = 0 \<and> m a \<noteq> 0 then strncmp_loop c (diff + (sint (m a) - sint (m b))) (a + 1) (b + 1) m
      else diff)"

definition strncmp :: "bytes \<Rightarrow> u64 \<Rightarrow> u64 \<Rightarrow> u64 \<Rightarrow> int" where
  "strncmp m a b c = strncmp_loop (unat c) 0 a b m"

fun memcmp_loop :: "nat \<Rightarrow> int \<Rightarrow> u64 \<Rightarrow> u64 \<Rightarrow> bytes \<Rightarrow> int" where
  "memcmp_loop 0 diff a b m = diff"
| "memcmp_loop (Suc s) diff a b m =
     (if diff = 0 then memcmp_loop s (diff + (uint (m a) - uint (m b))) (a + 1) (b + 1) m else diff)"

definition memcmp :: "bytes \<Rightarrow> u64 \<Rightarrow> u64 \<Rightarrow> u64 \<Rightarrow> int" where
  "memcmp m a b s = memcmp_loop (unat s) 0 a b m"

fun move_down :: "nat \<Rightarrow> u64 \<Rightarrow> u64 \<Rightarrow> bytes \<Rightarrow> bytes" where
  "move_down 0 d s m = m"
| "move_down (Suc c) d s m = move_down c d s (m(d + of_nat (Suc c) := m (s + of_nat (Suc c))))"

definition memmove :: "u64 \<Rightarrow> u64 \<Rightarrow> u64 \<Rightarrow> bytes \<Rightarrow> u64 \<times> bytes" where
  "memmove d s c m = (if s > d then memcpy d s c m else (d, move_down (unat c) d s m))"

partial_function (option) atoll_loop :: "bytes \<Rightarrow> u64 \<Rightarrow> u32 \<Rightarrow> u32 option" where
  "atoll_loop m c v = (if m c \<noteq> 0 then atoll_loop m (c + 1) (v * 10 + scast (m c) - 48) else Some v)"

definition atoll :: "bytes \<Rightarrow> u64 \<Rightarrow> u64 option" where
  "atoll m c =
     (let first = m c
      in do {
        v \<leftarrow> atoll_loop m (if first = 45 then c + 1 else c) 0;
        Some (scast (if first = 45 then - v else v)) })"

definition errno_names :: "(int \<times> string) list" where
  "errno_names = [
    (1, ''EPERM''), (2, ''ENOENT''), (3, ''ESRCH''), (4, ''EINTR''), (5, ''EIO''),
    (6, ''ENXIO''), (7, ''E2BIG''), (8, ''ENOEXEC''), (9, ''EBADF''), (10, ''ECHILD''),
    (11, ''EAGAIN''), (12, ''ENOMEM''), (13, ''EACCES''), (14, ''EFAULT''), (15, ''ENOTBLK''),
    (16, ''EBUSY''), (17, ''EEXIST''), (18, ''EXDEV''), (19, ''ENODEV''), (20, ''ENOTDIR''),
    (21, ''EISDIR''), (22, ''EINVAL''), (23, ''ENFILE''), (24, ''EMFILE''), (25, ''ENOTTY''),
    (26, ''ETXTBSY''), (27, ''EFBIG''), (28, ''ENOSPC''), (29, ''ESPIPE''), (30, ''EROFS''),
    (31, ''EMLINK''), (32, ''EPIPE''), (33, ''EDOM''), (34, ''ERANGE''), (35, ''EDEADLK''),
    (36, ''ENAMETOOLONG''), (37, ''ENOLCK''), (38, ''ENOSYS''), (39, ''ENOTEMPTY''), (40, ''ELOOP''),
    (42, ''ENOMSG''), (43, ''EIDRM''), (44, ''ECHRNG''), (45, ''EL2NSYNC''), (46, ''EL3HLT''),
    (47, ''EL3RST''), (48, ''ELNRNG''), (49, ''EUNATCH''), (50, ''ENOCSI''), (51, ''EL2HLT''),
    (52, ''EBADE''), (53, ''EBADR''), (54, ''EXFULL''), (55, ''ENOANO''), (56, ''EBADRQC''),
    (57, ''EBADSLT''), (59, ''EBFONT''), (60, ''ENOSTR''), (61, ''ENODATA''), (62, ''ETIME''),
    (63, ''ENOSR''), (64, ''ENONET''), (65, ''ENOPKG''), (66, ''EREMOTE''), (67, ''ENOLINK''),
    (68, ''EADV''), (69, ''ESRMNT''), (70, ''ECOMM''), (71, ''EPROTO''), (72, ''EMULTIHOP''),
    (73, ''EDOTDOT''), (74, ''EBADMSG''), (75, ''EOVERFLOW''), (76, ''ENOTUNIQ''), (77, ''EBADFD''),
    (78, ''EREMCHG''), (79, ''ELIBACC''), (80, ''ELIBBAD''), (81, ''ELIBSCN''), (82, ''ELIBMAX''),
    (83, ''ELIBEXEC''), (84, ''EILSEQ''), (85, ''ERESTART''), (86, ''ESTRPIPE''), (87, ''EUSERS''),
    (88, ''ENOTSOCK''), (89, ''EDESTADDRREQ''), (90, ''EMSGSIZE''), (91, ''EPROTOTYPE''), (92, ''ENOPROTOOPT''),
    (93, ''EPROTONOSUPPORT''), (94, ''ESOCKTNOSUPPORT''), (95, ''EOPNOTSUPP''), (96, ''EPFNOSUPPORT''), (97, ''EAFNOSUPPORT''),
    (98, ''EADDRINUSE''), (99, ''EADDRNOTAVAIL''), (100, ''ENETDOWN''), (101, ''ENETUNREACH''), (102, ''ENETRESET''),
    (103, ''ECONNABORTED''), (104, ''ECONNRESET''), (105, ''ENOBUFS''), (106, ''EISCONN''), (107, ''ENOTCONN''),
    (108, ''ESHUTDOWN''), (109, ''ETOOMANYREFS''), (110, ''ETIMEDOUT''), (111, ''ECONNREFUSED''), (112, ''EHOSTDOWN''),
    (113, ''EHOSTUNREACH''), (114, ''EALREADY''), (115, ''EINPROGRESS''), (116, ''ESTALE''), (117, ''EUCLEAN''),
    (118, ''ENOTNAM''), (119, ''ENAVAIL''), (120, ''EISNAM''), (121, ''EREMOTEIO''), (122, ''EDQUOT''),
    (123, ''ENOMEDIUM''), (124, ''EMEDIUMTYPE''), (125, ''ECANCELED''), (126, ''ENOKEY''), (127, ''EKEYEXPIRED''),
    (128, ''EKEYREVOKED''), (129, ''EKEYREJECTED''), (130, ''EOWNERDEAD''), (131, ''ENOTRECOVERABLE''), (132, ''ERFKILL''),
    (133, ''EHWPOISON'')]"

definition strerror :: "int \<Rightarrow> string" where
  "strerror errno =
     (if errno = 0 then ''OK'' else case map_of errno_names errno of Some n \<Rightarrow> n | None \<Rightarrow> ''?'')"

section \<open>Blocks of bytes\<close>

fun poke :: "bytes \<Rightarrow> u64 \<Rightarrow> u8 list \<Rightarrow> bytes" where
  "poke m a [] = m"
| "poke m a (x # xs) = poke (m(a := x)) (a + 1) xs"

definition peek :: "bytes \<Rightarrow> u64 \<Rightarrow> nat \<Rightarrow> u8 list" where
  "peek m a n = map (\<lambda>i. m (a + of_nat i)) [0..<n]"

lemma unat_Suc: "unat (x :: u64) < 2 ^ 64 - 1 \<Longrightarrow> unat (x + 1) = Suc (unat x)"
  by (simp add: unat_word_ariths)

lemma unat_pred: "(x :: u64) \<noteq> 0 \<Longrightarrow> unat (x - 1) = unat x - 1"
  by (simp add: unat_sub word_le_nat_alt unat_gt_0 Suc_leI)

lemma unat_minus_1: "unat (- 1 :: u64) = 2 ^ 64 - 1"
  by (simp add: unsigned_minus_1_eq_mask mask_eq_exp_minus_1)

lemma poke_eq: "length xs \<le> 2 ^ 64 \<Longrightarrow>
  poke m a xs x = (if unat (x - a) < length xs then xs ! unat (x - a) else m x)"
proof (induction xs arbitrary: m a)
  case Nil
  then show ?case by simp
next
  case (Cons y ys)
  have ih: "poke (m(a := y)) (a + 1) ys x = (if unat (x - (a + 1)) < length ys then ys ! unat (x - (a + 1)) else (m(a := y)) x)"
    using Cons by simp
  show ?case
  proof (cases "x = a")
    case True
    have "unat (- 1 :: u64) = 2 ^ 64 - 1" by (rule unat_minus_1)
    then have "\<not> unat (x - (a + 1)) < length ys" using Cons.prems True by simp
    then show ?thesis using ih True by simp
  next
    case False
    then have u: "unat (x - (a + 1)) = unat (x - a) - 1" "unat (x - a) \<noteq> 0"
      using unat_pred [of "x - a"] by (simp_all add: diff_diff_eq unat_eq_zero)
    then have "(unat (x - (a + 1)) < length ys) = (unat (x - a) < length (y # ys))" by auto
    then show ?thesis using ih False u by (cases "unat (x - a)") auto
  qed
qed

lemma poke_append: "poke m a (xs @ ys) = poke (poke m a xs) (a + of_nat (length xs)) ys"
  by (induction xs arbitrary: m a) (simp_all add: ac_simps)

lemma rep_movsb_eq:
  "n \<le> 2 ^ 64 \<Longrightarrow> d = s \<or> n \<le> unat (d - s) \<Longrightarrow>
   rep_movsb n d s m x = (if unat (x - d) < n then m (s + (x - d)) else m x)"
proof (induction n arbitrary: d s m)
  case 0
  then show ?case by simp
next
  case (Suc n)
  let ?m = "m(d := m s)"
  have ih: "rep_movsb n (d + 1) (s + 1) ?m x = (if unat (x - (d + 1)) < n then ?m (s + 1 + (x - (d + 1))) else ?m x)"
    using Suc by auto
  show ?case
  proof (cases "x = d")
    case True
    then have "\<not> unat (x - (d + 1)) < n" using Suc.prems(1) unat_minus_1 by simp
    then show ?thesis using ih True by simp
  next
    case False
    then have u: "unat (x - (d + 1)) = unat (x - d) - 1" "unat (x - d) \<noteq> 0"
      using unat_pred [of "x - d"] by (simp_all add: diff_diff_eq unat_eq_zero)
    then have lt: "(unat (x - (d + 1)) < n) = (unat (x - d) < Suc n)" by auto
    have "s + (x - d) \<noteq> d" if "unat (x - d) < Suc n"
    proof
      assume "s + (x - d) = d"
      then have "x - d = d - s" by (simp add: algebra_simps)
      then show False using Suc.prems(2) that u(2) by auto
    qed
    then show ?thesis using ih lt False by (simp add: algebra_simps)
  qed
qed

lemma rep_stosb_eq:
  "n \<le> 2 ^ 64 \<Longrightarrow> rep_stosb n d v m = poke m d (replicate n v)"
  by (induction n arbitrary: d m) simp_all

lemma move_down_eq:
  "s \<le> d \<Longrightarrow> unat d + n < 2 ^ 64 \<Longrightarrow>
   move_down n d s m x = (if 1 \<le> unat (x - d) \<and> unat (x - d) \<le> n then m (s + (x - d)) else m x)"
proof (induction n arbitrary: m)
  case 0
  then show ?case by auto
next
  case (Suc n)
  let ?e = "of_nat (Suc n) :: u64"
  let ?m = "m(d + ?e := m (s + ?e))"
  have ih: "move_down n d s ?m x = (if 1 \<le> unat (x - d) \<and> unat (x - d) \<le> n then ?m (s + (x - d)) else ?m x)"
    using Suc by simp
  have ue: "unat ?e = Suc n" using Suc.prems(2) by (intro unat_of_nat_small) simp
  show ?case
  proof (cases "x = d + ?e")
    case True
    then show ?thesis using ih ue by simp
  next
    case False
    then have ne: "unat (x - d) \<noteq> Suc n" 
      using ue word_unat_eq_iff [of "x - d" ?e] by (auto simp: algebra_simps)
    have "s + (x - d) \<noteq> d + ?e" if k: "unat (x - d) \<le> n"
    proof
      assume "s + (x - d) = d + ?e"
      then have "unat (s + (x - d)) = unat (d + ?e)" by (rule arg_cong)
      moreover have "unat (d + ?e) = unat d + Suc n" using Suc.prems(2) ue by (simp add: unat_word_ariths)
      moreover have "unat (s + (x - d)) \<le> unat s + unat (x - d)" by (simp add: unat_word_ariths)
      ultimately show False using Suc.prems(1) k by (simp add: word_le_nat_alt)
    qed
    then show ?thesis using ih ne False by auto
  qed
qed

section \<open>NUL-terminated strings\<close>

fun cstr :: "bytes \<Rightarrow> u64 \<Rightarrow> u8 list \<Rightarrow> bool" where
  "cstr m a [] \<longleftrightarrow> m a = 0"
| "cstr m a (x # xs) \<longleftrightarrow> x \<noteq> 0 \<and> m a = x \<and> cstr m (a + 1) xs"

lemma cstr_iff: "cstr m a xs \<longleftrightarrow>
  0 \<notin> set xs \<and> (\<forall>i < length xs. m (a + of_nat i) = xs ! i) \<and> m (a + of_nat (length xs)) = 0"
proof (induction xs arbitrary: a)
  case Nil
  then show ?case by simp
next
  case (Cons x xs)
  have "(\<forall>i < Suc (length xs). m (a + of_nat i) = (x # xs) ! i) \<longleftrightarrow>
      m a = x \<and> (\<forall>i < length xs. m (a + 1 + of_nat i) = xs ! i)"
    unfolding All_less_Suc2 by (simp add: ac_simps)
  then show ?case using Cons [of "a + 1"] by (auto simp: ac_simps)
qed

lemma cstr_length: "cstr m a xs \<Longrightarrow> length xs < 2 ^ 64"
proof (rule ccontr)
  assume c: "cstr m a xs" and "\<not> length xs < 2 ^ 64"
  then obtain i where i: "length xs = i + 2 ^ 64" by (metis add.commute le_Suc_ex not_less)
  have "(of_nat (length xs) :: u64) = of_nat i" unfolding i word_unat_eq_iff unat_of_nat by simp
  then have "m (a + of_nat i) = 0" using c by (simp add: cstr_iff)
  moreover have "m (a + of_nat i) = xs ! i" "xs ! i \<in> set xs" using c i by (auto simp: cstr_iff)
  ultimately show False using c by (auto simp: cstr_iff)
qed

lemma cstr_cong: "cstr m a xs \<Longrightarrow> (\<forall>j \<le> length xs. m' (a + of_nat j) = m (a + of_nat j)) \<Longrightarrow> cstr m' a xs"
  by (simp add: cstr_iff)

lemma cstr_exists: "m x = 0 \<Longrightarrow> \<exists>xs. cstr m a xs"
proof -
  assume "m x = 0"
  then have "m (a + of_nat (unat (x - a))) = 0" by simp
  then have "\<exists>i :: nat. m (a + of_nat i) = 0" by (rule exI)
  then obtain i where i: "m (a + of_nat i) = 0" "\<forall>j < i. m (a + of_nat j) \<noteq> 0"
    using exists_least_iff [of "\<lambda>i. m (a + of_nat i) = 0"] by blast
  then have "cstr m a (peek m a i)" by (auto simp: cstr_iff peek_def)
  then show ?thesis by blast
qed

lemma strlen_loop_cstr: "cstr m (a + s) xs \<Longrightarrow> strlen_loop m a s = Some (s + of_nat (length xs))"
proof (induction xs arbitrary: s)
  case Nil
  then show ?case by (subst strlen_loop.simps) simp
next
  case (Cons x xs)
  then have "strlen_loop m a (s + 1) = Some (s + 1 + of_nat (length xs))" by (simp add: ac_simps)
  then show ?case using Cons.prems by (subst strlen_loop.simps) (simp add: ac_simps)
qed

lemma strlen_cstr: "cstr m a xs \<Longrightarrow> strlen m a = Some (of_nat (length xs))"
  using strlen_loop_cstr [of m a 0 xs] by (simp add: strlen_def)

lemma strlen_loop_Some: "strlen_loop m a s = Some n \<Longrightarrow> m (a + n) = 0"
  by (erule strlen_loop.raw_induct [rotated, of m a s n "\<lambda>m a s n. m (a + n) = 0"]) (simp split: if_splits)

lemma gap_offset:
  assumes "p = s \<or> n < unat (p - s)" "j < n" "n < 2 ^ 64"
  shows "s + 1 + of_nat j \<noteq> (p :: u64)"
proof
  assume "s + 1 + of_nat j = p"
  then have p: "s + of_nat (Suc j) = p" by (simp add: add.assoc)
  have "unat (of_nat (Suc j) :: u64) = Suc j" using assms by (intro unat_of_nat_small) simp
  then have "unat (p - s) = Suc j" using p by auto
  then show False using assms by auto
qed

lemma strcpy_loop_poke:
  "cstr m s xs \<Longrightarrow> p = s \<or> length xs < unat (p - s) \<Longrightarrow> strcpy_loop p s m = Some (poke m p (xs @ [0]))"
proof (induction xs arbitrary: p s m)
  case Nil
  then show ?case by (subst strcpy_loop.simps) simp
next
  case (Cons x xs)
  let ?m = "m(p := m s)"
  have l: "Suc (length xs) < 2 ^ 64" using cstr_length [OF Cons.prems(1)] by simp
  have g: "\<forall>j \<le> length xs. s + 1 + of_nat j \<noteq> p"
    using Cons.prems(2) l by (intro allI impI gap_offset [where n = "length (x # xs)"]) simp_all
  have "cstr m (s + 1) xs" using Cons.prems(1) by simp
  then have "cstr ?m (s + 1) xs" by (rule cstr_cong) (use g in simp)
  then have "strcpy_loop (p + 1) (s + 1) ?m = Some (poke ?m (p + 1) (xs @ [0]))"
    by (rule Cons.IH) (use Cons.prems(2) in auto)
  then show ?case using Cons.prems(1) by (subst strcpy_loop.simps) simp
qed

lemma cstr_poke:
  "0 \<notin> set xs \<Longrightarrow> length xs < 2 ^ 64 \<Longrightarrow> cstr (poke m p (xs @ [0])) p xs"
  by (simp add: cstr_iff poke_eq unat_of_nat_small nth_append)

lemma strncpy_copy_poke:
  "cstr m (src + i) xs \<Longrightarrow> dest = src \<or> length xs < unat (dest - src) \<Longrightarrow>
   strncpy_copy r i dest src m = (r - length xs, i + of_nat (min r (length xs)), poke m (dest + i) (take r xs))"
proof (induction r arbitrary: i xs m)
  case 0
  then show ?case by simp
next
  case (Suc r)
  show ?case
  proof (cases xs)
    case Nil
    then show ?thesis using Suc.prems by simp
  next
    case (Cons y ys)
    let ?m = "m(dest + i := m (src + i))"
    have l: "Suc (length ys) < 2 ^ 64" using cstr_length [OF Suc.prems(1)] Cons by simp
    have g: "\<forall>j \<le> length ys. src + 1 + of_nat j \<noteq> dest"
      using Suc.prems(2) l Cons by (intro allI impI gap_offset [where n = "length xs"]) simp_all
    have "src + (i + 1) + of_nat j = dest + i \<longleftrightarrow> src + 1 + of_nat j = dest" for j by (simp add: algebra_simps)
    then have g: "\<forall>j \<le> length ys. src + (i + 1) + of_nat j \<noteq> dest + i" using g by blast
    have "cstr m (src + (i + 1)) ys" using Suc.prems(1) Cons by (simp add: add.assoc)
    then have "cstr ?m (src + (i + 1)) ys" by (rule cstr_cong) (use g in simp)
    then have "strncpy_copy r (i + 1) dest src ?m = (r - length ys, i + 1 + of_nat (min r (length ys)), poke ?m (dest + (i + 1)) (take r ys))"
      by (rule Suc.IH) (use Suc.prems(2) Cons in auto)
    then show ?thesis using Suc.prems(1) Cons by (simp add: add.assoc)
  qed
qed

lemma strncpy_pad_poke: "strncpy_pad r i dest m = poke m (dest + i) (replicate r 0)"
  by (induction r arbitrary: i m) (simp_all add: ac_simps)

section \<open>Comparison\<close>

fun byte_cmp :: "u8 list \<Rightarrow> u8 list \<Rightarrow> int" where
  "byte_cmp [] [] = 0"
| "byte_cmp (x # xs) [] = uint x"
| "byte_cmp [] (y # ys) = - uint y"
| "byte_cmp (x # xs) (y # ys) = (if x = y then byte_cmp xs ys else uint x - uint y)"

lemma strcmp_cstr: "cstr m a xs \<Longrightarrow> cstr m b ys \<Longrightarrow> strcmp m a b = Some (byte_cmp xs ys)"
proof (induction xs ys arbitrary: a b rule: byte_cmp.induct)
  case (4 x xs y ys)
  then show ?case by (subst strcmp.simps) auto
qed (subst strcmp.simps, auto)+

lemma byte_cmp_eq_0: "0 \<notin> set xs \<Longrightarrow> 0 \<notin> set ys \<Longrightarrow> byte_cmp xs ys = 0 \<longleftrightarrow> xs = ys"
  by (induction xs ys rule: byte_cmp.induct) (auto simp: word_uint_eq_iff)

lemma uint_pos: "0 < uint (y :: u8) \<longleftrightarrow> y \<noteq> 0"
  by (simp add: word_uint_eq_iff less_le)

lemma byte_cmp_less: "0 \<notin> set xs \<Longrightarrow> 0 \<notin> set ys \<Longrightarrow>
  byte_cmp xs ys < 0 \<longleftrightarrow> (xs, ys) \<in> lexord {(x, y). x < y}"
  by (induction xs ys rule: byte_cmp.induct) (auto simp: word_less_def uint_pos)

lemma memcmp_loop_done: "diff \<noteq> 0 \<Longrightarrow> memcmp_loop n diff a b m = diff"
  by (cases n) simp_all

lemma length_peek [simp]: "length (peek m a n) = n"
  by (simp add: peek_def)

lemma peek_Suc: "peek m a (Suc n) = m a # peek m (a + 1) n"
proof (rule nth_equalityI)
  show "peek m a (Suc n) ! i = (m a # peek m (a + 1) n) ! i" if "i < length (peek m a (Suc n))" for i
    using that by (cases i) (simp_all add: peek_def nth_append ac_simps del: upt_Suc)
qed simp

lemma memcmp_loop_cmp: "memcmp_loop n 0 a b m = byte_cmp (peek m a n) (peek m b n)"
proof (induction n arbitrary: a b)
  case 0
  then show ?case by (simp add: peek_def)
next
  case (Suc n)
  then show ?case by (simp add: peek_Suc memcmp_loop_done word_uint_eq_iff)
qed

lemma byte_cmp_same_length:
  "length xs = length ys \<Longrightarrow> (byte_cmp xs ys = 0 \<longleftrightarrow> xs = ys) \<and> (byte_cmp xs ys < 0 \<longleftrightarrow> (xs, ys) \<in> lexord {(x, y). x < y})"
  by (induction xs ys rule: byte_cmp.induct) (auto simp: word_less_def word_uint_eq_iff)

lemma strncmp_loop_done: "diff \<noteq> 0 \<Longrightarrow> strncmp_loop n diff a b m = diff"
  by (cases n) simp_all

lemma strncmp_loop_prefix:
  "cstr m a xs \<Longrightarrow> cstr m b ys \<Longrightarrow> strncmp_loop n 0 a b m = 0 \<longleftrightarrow> prefix (take n xs) ys"
proof (induction n arbitrary: a b xs ys)
  case 0
  then show ?case by simp
next
  case (Suc n)
  show ?case
  proof (cases xs)
    case Nil
    then show ?thesis using Suc.prems by simp
  next
    case (Cons x xs')
    have ne: "x \<noteq> 0" "m a = x" using Suc.prems(1) Cons by auto
    show ?thesis
    proof (cases ys)
      case Nil
      then have "m b = 0" using Suc.prems(2) by simp
      then have "sint (m a) - sint (m b) \<noteq> 0" using ne by (simp add: signed_eq_0_iff)
      then show ?thesis using ne Cons Nil by (simp add: strncmp_loop_done)
    next
      case ys: (Cons y ys')
      then have y: "m b = y" "cstr m (b + 1) ys'" using Suc.prems(2) by auto
      show ?thesis
      proof (cases "x = y")
        case True
        then show ?thesis using Suc.IH [of "a + 1" xs' "b + 1" ys'] Suc.prems Cons ys ne y by simp
      next
        case False
        then have "sint (m a) - sint (m b) \<noteq> 0" using ne y signed_word_eqI [of x y] by auto
        then show ?thesis using ne Cons ys False by (simp add: strncmp_loop_done)
      qed
    qed
  qed
qed

section \<open>Numbers\<close>

definition decimal :: "nat list \<Rightarrow> nat" where
  "decimal ds = foldl (\<lambda>v d. v * 10 + d) 0 ds"

definition digits :: "nat list \<Rightarrow> u8 list" where
  "digits ds = map (\<lambda>d. of_nat d + 48) ds"

lemma digit_byte: "d < 10 \<Longrightarrow> (scast (of_nat d + 48 :: u8) :: u32) = of_nat d + 48"
proof -
  assume "d < 10"
  then have "d \<in> set [0..<10]" by simp
  then show ?thesis by (auto simp: upt_rec)
qed

lemma atoll_loop_digits:
  "\<forall>d \<in> set ds. d < 10 \<Longrightarrow> cstr m c (digits ds) \<Longrightarrow>
   atoll_loop m c v = Some (foldl (\<lambda>v d. v * 10 + of_nat d) v ds)"
proof (induction ds arbitrary: c v)
  case Nil
  then show ?case by (subst atoll_loop.simps) (simp add: digits_def)
next
  case (Cons d ds)
  then have c: "m c = of_nat d + 48" "of_nat d + 48 \<noteq> (0 :: u8)" "cstr m (c + 1) (digits ds)" and d: "d < 10"
    by (simp_all add: digits_def)
  have v: "v * 10 + scast (m c) - 48 = v * 10 + (of_nat d :: u32)" unfolding c(1) digit_byte [OF d] by simp
  have "m c \<noteq> 0" using c by simp
  then have "atoll_loop m c v = atoll_loop m (c + 1) (v * 10 + of_nat d)"
    unfolding v [symmetric] by (subst atoll_loop.simps) simp
  then show ?case using Cons c(3) by simp
qed

lemma foldl_of_nat: "foldl (\<lambda>v d. v * 10 + of_nat d) (of_nat v :: u32) ds = of_nat (foldl (\<lambda>v d. v * 10 + d) v ds)"
proof (induction ds arbitrary: v)
  case Nil
  then show ?case by simp
next
  case (Cons d ds)
  have "(of_nat v * 10 + of_nat d :: u32) = of_nat (v * 10 + d)" by simp
  then show ?case using Cons [of "v * 10 + d"] by (simp only: foldl.simps)
qed

lemma sint_of_int_small: "- (2 ^ 31) \<le> k \<Longrightarrow> k < 2 ^ 31 \<Longrightarrow> sint (of_int k :: u32) = k"
  by (simp add: signed_of_int signed_take_bit_int_eq_self)

section \<open>Properties\<close>

definition text0 :: bytes where
  "text0 = poke (poke (poke (\<lambda>_. 0) 100 [97, 98, 0]) 200 [97, 98, 99, 0]) 300 [45, 52, 50, 0]"

lemma text0_strings: "cstr text0 100 [97, 98]" "cstr text0 200 [97, 98, 99]" "cstr text0 301 (digits [4, 2])" "text0 300 = 45"
  by (simp_all add: text0_def digits_def)

text \<open>C13. \<^verbatim>\<open>strlen\<close> runs forever exactly when no byte of memory is NUL; otherwise it returns the distance to the
  first NUL byte at or after its argument.\<close>

theorem strlen_first_nul:
  "case strlen m a of None \<Rightarrow> \<forall>x. m x \<noteq> 0 | Some n \<Rightarrow> m (a + n) = 0 \<and> (\<forall>k < n. m (a + k) \<noteq> 0)"
proof (cases "\<exists>x. m x = 0")
  case True
  then obtain xs where xs: "cstr m a xs" using cstr_exists by blast
  have "m (a + k) \<noteq> 0" if "k < of_nat (length xs)" for k
  proof -
    have "unat k < length xs" using that cstr_length [OF xs] by (simp add: word_less_nat_alt unat_of_nat_small)
    then have "m (a + k) = xs ! unat k" "xs ! unat k \<in> set xs" using xs by (auto simp: cstr_iff)
    then show ?thesis using xs by (auto simp: cstr_iff)
  qed
  moreover have "m (a + of_nat (length xs)) = 0" using xs by (simp add: cstr_iff)
  ultimately show ?thesis using strlen_cstr [OF xs] by simp
next
  case False
  then have "strlen m a = None" using strlen_loop_Some [of m a 0] unfolding strlen_def by (metis option.exhaust)
  then show ?thesis using False by simp
qed

theorem strlen_first_nul_witness: "strlen text0 200 = Some 3 \<and> text0 203 = 0 \<and> text0 200 \<noteq> 0 \<and> text0 202 \<noteq> 0"
proof -
  have "\<forall>k < 3. text0 (200 + k) \<noteq> 0" and n: "strlen text0 200 = Some 3" "text0 203 = 0"
    using strlen_first_nul [of text0 200] strlen_cstr [OF text0_strings(2)] by simp_all
  from this(1) [rule_format, of 0] this(1) [rule_format, of 2] show ?thesis using n by simp
qed

text \<open>C14. \<^verbatim>\<open>strcat\<close> appends: when the destination buffer is clear of the source, the destination holds the two
  strings one after the other and nothing outside the buffer changes.  The value returned is the
  end of the old destination string, where C's strcat returns its start.\<close>

theorem strcat_appends:
  assumes d: "cstr m dest xs" and s: "cstr m src ys" and fit: "length xs + length ys < 2 ^ 64"
    and gap: "length ys < unat (dest + of_nat (length xs) - src)"
  shows "\<exists>m'. strcat dest src m = Some (dest + of_nat (length xs), m') \<and> cstr m' dest (xs @ ys) \<and>
    (\<forall>x. \<not> unat (x - dest) \<le> length xs + length ys \<longrightarrow> m' x = m x)"
proof -
  let ?p = "dest + of_nat (length xs)"
  let ?m = "poke m ?p (ys @ [0])"
  have r: "strcat dest src m = Some (?p, ?m)"
    using strlen_cstr [OF d] strcpy_loop_poke [OF s, of ?p] gap by (simp add: strcat_def strcpy_def)
  have un: "unat (dest + of_nat i - ?p) = (if i < length xs then i + 2 ^ 64 - length xs else i - length xs)"
    if "i \<le> length xs + length ys" for i
  proof -
    have "dest + of_nat i - ?p = of_nat i - of_nat (length xs)" by simp
    moreover have "unat (of_nat i - of_nat (length xs) :: u64) = (if i < length xs then i + 2 ^ 64 - length xs else i - length xs)"
      using that fit by (simp add: unat_sub_if_size word_le_nat_alt unat_of_nat_small word_size)
    ultimately show ?thesis by simp
  qed
  have at: "?m (dest + of_nat i) = (if i < length xs then xs ! i else (ys @ [0]) ! (i - length xs))"
    if "i \<le> length xs + length ys" for i
    using that fit d un [OF that] by (auto simp: poke_eq cstr_iff)
  have "cstr ?m dest (xs @ ys)"
    using d s at at [of "length xs + length ys"] by (auto simp: cstr_iff nth_append)
  moreover have "?m x = m x" if x: "\<not> unat (x - dest) \<le> length xs + length ys" for x
  proof -
    have "unat (x - ?p) = unat (x - dest) - length xs"
      using x fit by (simp add: diff_diff_eq [symmetric] unat_sub word_le_nat_alt unat_of_nat_small)
    then have "\<not> unat (x - ?p) < length (ys @ [0])" using x by simp
    then show ?thesis using fit by (simp add: poke_eq)
  qed
  ultimately show ?thesis using r by blast
qed

theorem strcat_appends_witness:
  "\<exists>m'. strcat 100 200 text0 = Some (102, m') \<and> cstr m' 100 [97, 98, 97, 98, 99]"
  using strcat_appends [OF text0_strings(1,2)] by auto

text \<open>C15. \<^verbatim>\<open>strcmp\<close> on two strings returns zero exactly when they are equal and a negative number exactly when
  the first is lexicographically smaller; \<^verbatim>\<open>strncmp\<close> returns zero exactly when the first \<open>c\<close> bytes of its
  first argument are a prefix of the second, which is weaker than their first \<open>c\<close> bytes being equal.\<close>

theorem strcmp_orders:
  assumes a: "cstr m a xs" and b: "cstr m b ys"
  shows "\<exists>r. strcmp m a b = Some r \<and> (r = 0 \<longleftrightarrow> xs = ys) \<and> (r < 0 \<longleftrightarrow> (xs, ys) \<in> lexord {(x, y). x < y}) \<and>
    (strncmp m a b c = 0 \<longleftrightarrow> prefix (take (unat c) xs) ys)"
proof -
  have "0 \<notin> set xs" "0 \<notin> set ys" using a b by (auto simp: cstr_iff)
  then show ?thesis
    using strcmp_cstr [OF a b] byte_cmp_eq_0 byte_cmp_less strncmp_loop_prefix [OF a b] by (auto simp: strncmp_def)
qed

theorem strcmp_orders_witness:
  "(\<exists>r. strcmp text0 100 200 = Some r \<and> r < 0) \<and> strncmp text0 100 200 3 = 0"
proof -
  have "([97, 98], [97, 98, 99]) \<in> lexord {(x :: u8, y). x < y}" by simp
  then show ?thesis using strcmp_orders [OF text0_strings(1,2), of 3] by auto
qed

text \<open>C16. \<^verbatim>\<open>memmove\<close> towards lower addresses moves the block, overlapping or not, and changes nothing else.
  Towards higher addresses it writes bytes 1 to \<open>c\<close> of the destination instead of 0 to \<open>c - 1\<close>: the
  first byte is never moved and the byte after the block is overwritten.\<close>

theorem memmove_effect:
  assumes "unat s + unat c \<le> 2 ^ 64" and "unat d + unat c < 2 ^ 64"
  shows "fst (memmove d s c m) = d \<and> snd (memmove d s c m) x =
    (if d < s then (if unat (x - d) < unat c then m (s + (x - d)) else m x)
     else (if 1 \<le> unat (x - d) \<and> unat (x - d) \<le> unat c then m (s + (x - d)) else m x))"
proof (cases "d < s")
  case True
  have "unat c \<le> unat (d - s)"
    using True assms by (simp add: unat_sub_if_size word_less_nat_alt word_le_nat_alt word_size)
  moreover have "unat c \<le> 2 ^ 64" using unat_lt2p [of c] by simp
  ultimately show ?thesis using True rep_movsb_eq [of "unat c" d s m x] by (simp add: memmove_def memcpy_def)
next
  case False
  then show ?thesis using move_down_eq [of s d "unat c" m x] assms by (simp add: memmove_def)
qed

theorem memmove_effect_witness:
  "snd (memmove 250 200 3 text0) 250 = 0 \<and> text0 200 = 97 \<and> snd (memmove 250 200 3 text0) 251 = 98 \<and>
   snd (memmove 150 200 3 text0) 150 = 97"
  using memmove_effect [of 200 3 250 text0 250] memmove_effect [of 200 3 250 text0 251] memmove_effect [of 200 3 150 text0 150]
  by (simp add: text0_def)

text \<open>C17. \<^verbatim>\<open>atoll\<close> reads a decimal number below 2 to the 31, with an optional leading minus sign, and returns its value.\<close>

theorem atoll_decimal:
  assumes ds: "\<forall>d \<in> set ds. d < 10" and small: "decimal ds < 2 ^ 31"
    and pos: "neg = False \<and> ds \<noteq> [] \<and> cstr m c (digits ds) \<or> neg = True \<and> m c = 45 \<and> cstr m (c + 1) (digits ds)"
  shows "\<exists>r. atoll m c = Some r \<and> sint r = (if neg then - int (decimal ds) else int (decimal ds))"
proof -
  let ?v = "of_nat (decimal ds) :: u32"
  have l: "atoll_loop m a 0 = Some ?v" if "cstr m a (digits ds)" for a
    using atoll_loop_digits [OF ds that, of 0] foldl_of_nat [of 0 ds] by (simp add: decimal_def)
  have f: "m c \<noteq> 45" if nn: "\<not> neg"
  proof -
    obtain d ds' where d: "ds = d # ds'" using pos nn by (cases ds) auto
    then have "m c = of_nat d + 48" "d < 10" using pos nn ds by (auto simp: digits_def)
    then have "m c = of_nat d + 48" "d \<in> set [0..<10]" by simp_all
    then show ?thesis by (auto simp: upt_rec)
  qed
  have s: "sint ?v = int (decimal ds)" "sint (- ?v) = - int (decimal ds)"
    using small sint_of_int_small [of "int (decimal ds)"] sint_of_int_small [of "- int (decimal ds)"] by simp_all
  have sc: "sint (scast w :: u64) = sint w" for w :: u32
    using sint_lt [of w] sint_ge [of w] by (simp add: signed_scast_eq signed_take_bit_int_eq_self)
  show ?thesis using pos f l s by (cases neg) (auto simp: atoll_def sc)
qed

theorem atoll_decimal_witness: "\<exists>r. atoll text0 300 = Some r \<and> sint r = - 42"
  using atoll_decimal [of "[4, 2]" True text0 300] text0_strings by (simp add: decimal_def)

end
