(* ===== verification/Spinlock.thy ===== *)
theory Spinlock
  imports Kernel_Prelude
begin

text \<open>
  The spin locks of \<^verbatim>\<open>src/src/kernel/core/spinlock.c\<close> and the atomic instructions of
  \<^verbatim>\<open>src/src/include/arch/x86_64/atomic.h\<close> they are made of.  Processors run concurrently: a state holds
  the lock and the program point of every processor, a step is one atomic access to memory by one
  processor.  Program points carry the local variables that are live there.
\<close>

section \<open>Atomic instructions\<close>

text \<open>An atomic instruction maps the word it works on to its result and the word it leaves.\<close>

definition atomic_bit_test_and_set_32 :: "nat \<Rightarrow> u32 \<Rightarrow> bool \<times> u32" where
  "atomic_bit_test_and_set_32 b w = (bit w b, w OR push_bit b 1)"

definition atomic_compare_exchange_64 :: "u64 \<Rightarrow> u64 \<Rightarrow> u64 \<Rightarrow> bool \<times> u64 \<times> u64" where
  "atomic_compare_exchange_64 expected desired w =
     (let prev = w in (prev = expected, prev, if prev = expected then desired else prev))"

definition atomic_fetch_add_64 :: "u64 \<Rightarrow> u64 \<Rightarrow> u64 \<times> u64" where
  "atomic_fetch_add_64 v w = (w, w + v)"

section \<open>The plain lock\<close>

datatype spin_pc =
    Outside
  | First_Try
  | Spin_Pause
  | Spin_Load
  | Spin_Try
  | Holding

record spin_state =
  spin_word :: u32
  spin_pc :: "nat \<Rightarrow> spin_pc"

definition goto :: "nat \<Rightarrow> spin_pc \<Rightarrow> 'a spin_state_scheme \<Rightarrow> 'a spin_state_scheme" where
  "goto c p s = s\<lparr>spin_pc := (spin_pc s)(c := p)\<rparr>"

definition spinlock_init :: "'a spin_state_scheme \<Rightarrow> 'a spin_state_scheme" where
  "spinlock_init s = s\<lparr>spin_word := 0\<rparr>"

definition try_bit :: "nat \<Rightarrow> spin_pc \<Rightarrow> 'a spin_state_scheme \<Rightarrow> 'a spin_state_scheme" where
  "try_bit c busy s =
     (let (old, w) = atomic_bit_test_and_set_32 0 (spin_word s)
      in goto c (if old then busy else Holding) (s\<lparr>spin_word := w\<rparr>))"

definition spinlock_is_locked :: "'a spin_state_scheme \<Rightarrow> bool" where
  "spinlock_is_locked s \<longleftrightarrow> spin_word s AND 1 \<noteq> 0"

text \<open>\<open>spinlock_acquire\<close> one access at a time: what processor \<open>c\<close> does next inside the routine.\<close>

definition spinlock_acquire :: "nat \<Rightarrow> 'a spin_state_scheme \<Rightarrow> 'a spin_state_scheme" where
  "spinlock_acquire c s =
     (case spin_pc s c of
        First_Try \<Rightarrow> try_bit c Spin_Pause s
      | Spin_Pause \<Rightarrow> goto c Spin_Load s
      | Spin_Load \<Rightarrow> goto c (if spin_word s AND 1 = 0 then Spin_Try else Spin_Pause) s
      | Spin_Try \<Rightarrow> try_bit c Spin_Pause s
      | _ \<Rightarrow> s)"

definition spinlock_try_acquire :: "nat \<Rightarrow> 'a spin_state_scheme \<Rightarrow> bool \<times> 'a spin_state_scheme" where
  "spinlock_try_acquire c s =
     (let (old, w) = atomic_bit_test_and_set_32 0 (spin_word s) in (\<not> old, try_bit c Outside s))"

definition spinlock_release :: "nat \<Rightarrow> 'a spin_state_scheme \<Rightarrow> 'a spin_state_scheme" where
  "spinlock_release c s = goto c Outside (s\<lparr>spin_word := 0\<rparr>)"

definition acquiring :: "spin_pc \<Rightarrow> bool" where
  "acquiring p \<longleftrightarrow> p \<noteq> Outside \<and> p \<noteq> Holding"

inductive spin_step :: "nat \<Rightarrow> spin_state \<Rightarrow> spin_state \<Rightarrow> bool" for c :: nat where
  spin_call: "spin_pc s c = Outside \<Longrightarrow> spin_step c s (goto c First_Try s)"
| spin_acquire: "acquiring (spin_pc s c) \<Longrightarrow> spin_step c s (spinlock_acquire c s)"
| spin_try: "spin_pc s c = Outside \<Longrightarrow> spin_step c s (snd (spinlock_try_acquire c s))"
| spin_release: "spin_pc s c = Holding \<Longrightarrow> spin_step c s (spinlock_release c s)"

definition spin_start :: "spin_state \<Rightarrow> bool" where
  "spin_start s \<longleftrightarrow> (\<exists>s0. s = spinlock_init s0 \<and> (\<forall>c. spin_pc s0 c = Outside))"

section \<open>The lock that masks interrupts\<close>

abbreviation (input) RFLAGS_IF :: u64 where "RFLAGS_IF \<equiv> 0x200"

text \<open>
  \<open>rflags c\<close> is the flag register of processor \<open>c\<close>; program points carry the local variable \<open>flags\<close>.
  \<open>entry_flags c\<close> remembers the register at the call of \<open>spinlock_irq_acquire\<close>; no step reads it.
\<close>

datatype irq_pc =
    IOutside
  | IFirst u64
  | IPause u64
  | ILoad u64
  | ITry u64
  | IStore u64
  | IHolding
  | IOpen u64
  | IRestore u64

record irq_state =
  irq_word :: u32
  lock_flags :: u64
  rflags :: "nat \<Rightarrow> u64"
  irq_pc :: "nat \<Rightarrow> irq_pc"
  entry_flags :: "nat \<Rightarrow> u64"

definition igoto :: "nat \<Rightarrow> irq_pc \<Rightarrow> irq_state \<Rightarrow> irq_state" where
  "igoto c p s = s\<lparr>irq_pc := (irq_pc s)(c := p)\<rparr>"

definition spinlock_irq_init :: "irq_state \<Rightarrow> irq_state" where
  "spinlock_irq_init s = s\<lparr>irq_word := 0, lock_flags := 0\<rparr>"

definition save_irq_disable :: "nat \<Rightarrow> irq_state \<Rightarrow> u64 \<times> irq_state" where
  "save_irq_disable c s = (rflags s c, s\<lparr>rflags := (rflags s)(c := rflags s c AND NOT RFLAGS_IF)\<rparr>)"

definition restore_irq :: "nat \<Rightarrow> u64 \<Rightarrow> irq_state \<Rightarrow> irq_state" where
  "restore_irq c flags s = s\<lparr>rflags := (rflags s)(c := flags)\<rparr>"

definition irq_try :: "nat \<Rightarrow> u64 \<Rightarrow> irq_state \<Rightarrow> irq_state" where
  "irq_try c flags s =
     (let (old, w) = atomic_bit_test_and_set_32 0 (irq_word s)
      in igoto c (if old then IPause flags else IStore flags) (s\<lparr>irq_word := w\<rparr>))"

definition spinlock_irq_acquire :: "nat \<Rightarrow> irq_state \<Rightarrow> irq_state" where
  "spinlock_irq_acquire c s =
     (case irq_pc s c of
        IOutside \<Rightarrow>
          (let (flags, s') = save_irq_disable c s
           in igoto c (IFirst flags) (s'\<lparr>entry_flags := (entry_flags s)(c := rflags s c)\<rparr>))
      | IFirst flags \<Rightarrow> irq_try c flags s
      | IPause flags \<Rightarrow> igoto c (ILoad flags) s
      | ILoad flags \<Rightarrow> igoto c (if irq_word s AND 1 = 0 then ITry flags else IPause flags) s
      | ITry flags \<Rightarrow> irq_try c flags s
      | IStore flags \<Rightarrow> igoto c IHolding (s\<lparr>lock_flags := flags\<rparr>)
      | _ \<Rightarrow> s)"

definition spinlock_irq_release :: "nat \<Rightarrow> irq_state \<Rightarrow> irq_state" where
  "spinlock_irq_release c s =
     (case irq_pc s c of
        IHolding \<Rightarrow> igoto c (IOpen (lock_flags s)) s
      | IOpen flags \<Rightarrow> igoto c (IRestore flags) (s\<lparr>irq_word := 0\<rparr>)
      | IRestore flags \<Rightarrow> igoto c IOutside (restore_irq c flags s)
      | _ \<Rightarrow> s)"

inductive irq_step :: "irq_state \<Rightarrow> irq_state \<Rightarrow> bool" where
  irq_acquire: "irq_step s (spinlock_irq_acquire c s)"
| irq_release: "irq_step s (spinlock_irq_release c s)"

definition irq_start :: "irq_state \<Rightarrow> bool" where
  "irq_start s \<longleftrightarrow> (\<exists>s0. s = spinlock_irq_init s0 \<and> (\<forall>c. irq_pc s0 c = IOutside))"

section \<open>Invariants\<close>

lemma bit0_and: "(w :: u32) AND 1 = 0 \<longleftrightarrow> \<not> bit w 0"
  by (simp add: bit_0 and_one_eq odd_iff_mod_2_eq_one)

lemma try_word: "bit (w OR push_bit 0 1 :: u32) 0"
  by (simp add: bit_simps)

definition spin_inv :: "spin_state \<Rightarrow> bool" where
  "spin_inv s \<longleftrightarrow> (bit (spin_word s) 0 \<longleftrightarrow> (\<exists>c. spin_pc s c = Holding)) \<and>
     (\<forall>c d. spin_pc s c = Holding \<and> spin_pc s d = Holding \<longrightarrow> c = d)"

lemma try_bit_inv: "spin_inv s \<Longrightarrow> spin_pc s c \<noteq> Holding \<Longrightarrow> busy \<noteq> Holding \<Longrightarrow> spin_inv (try_bit c busy s)"
  by (auto simp: spin_inv_def try_bit_def atomic_bit_test_and_set_32_def goto_def bit_simps)

lemma goto_inv: "spin_inv s \<Longrightarrow> spin_pc s c \<noteq> Holding \<Longrightarrow> p \<noteq> Holding \<Longrightarrow> spin_inv (goto c p s)"
  unfolding spin_inv_def by (auto simp: goto_def)

lemma spin_step_inv: "spin_step c s t \<Longrightarrow> spin_inv s \<Longrightarrow> spin_inv t"
proof (induction rule: spin_step.induct)
  case (spin_call s)
  then show ?case by (simp add: goto_inv)
next
  case (spin_acquire s)
  then show ?case
    by (auto simp: spinlock_acquire_def acquiring_def intro: try_bit_inv goto_inv split: spin_pc.splits)
next
  case (spin_try s)
  then show ?case by (simp add: spinlock_try_acquire_def atomic_bit_test_and_set_32_def try_bit_inv)
next
  case (spin_release s)
  then show ?case by (auto simp: spinlock_release_def spin_inv_def goto_def)
qed

interpretation spin: invariant_system spin_start "\<lambda>s t. \<exists>c. spin_step c s t" spin_inv
proof
  show "spin_inv s" if "spin_start s" for s
    using that by (auto simp: spin_start_def spinlock_init_def spin_inv_def)
  show "spin_inv t" if "spin_inv s" "\<exists>c. spin_step c s t" for s t
    using that spin_step_inv by blast
qed

fun irq_owner :: "irq_pc \<Rightarrow> bool" where
  "irq_owner (IStore f) = True"
| "irq_owner IHolding = True"
| "irq_owner (IOpen f) = True"
| "irq_owner p = False"

fun pc_flags :: "irq_state \<Rightarrow> nat \<Rightarrow> irq_pc \<Rightarrow> bool" where
  "pc_flags s c IOutside = True"
| "pc_flags s c IHolding = (lock_flags s = entry_flags s c)"
| "pc_flags s c (IFirst f) = (f = entry_flags s c)"
| "pc_flags s c (IPause f) = (f = entry_flags s c)"
| "pc_flags s c (ILoad f) = (f = entry_flags s c)"
| "pc_flags s c (ITry f) = (f = entry_flags s c)"
| "pc_flags s c (IStore f) = (f = entry_flags s c)"
| "pc_flags s c (IOpen f) = (f = entry_flags s c)"
| "pc_flags s c (IRestore f) = (f = entry_flags s c)"

definition irq_inv :: "irq_state \<Rightarrow> bool" where
  "irq_inv s \<longleftrightarrow> (bit (irq_word s) 0 \<longleftrightarrow> (\<exists>c. irq_owner (irq_pc s c))) \<and>
     (\<forall>c d. irq_owner (irq_pc s c) \<and> irq_owner (irq_pc s d) \<longrightarrow> c = d) \<and>
     (\<forall>c. pc_flags s c (irq_pc s c) \<and> (irq_pc s c = IOutside \<or> rflags s c AND RFLAGS_IF = 0))"

lemma irq_invD:
  assumes "irq_inv s"
  shows "bit (irq_word s) 0 \<longleftrightarrow> (\<exists>c. irq_owner (irq_pc s c))"
    and "irq_owner (irq_pc s c) \<Longrightarrow> irq_owner (irq_pc s d) \<Longrightarrow> c = d"
    and "pc_flags s c (irq_pc s c)" and "irq_pc s c \<noteq> IOutside \<Longrightarrow> rflags s c AND RFLAGS_IF = 0"
  using assms unfolding irq_inv_def by blast+

lemma pc_flags_cong:
  "(p = IHolding \<Longrightarrow> lock_flags t = lock_flags s) \<Longrightarrow> entry_flags t c = entry_flags s c \<Longrightarrow> pc_flags t c p = pc_flags s c p"
  by (cases p) auto

text \<open>A move of processor \<open>c\<close> alone: the other processors keep their point and their flags.\<close>

lemma irq_move:
  assumes inv: "irq_inv s" and pc: "irq_pc t = (irq_pc s)(c := p)"
    and other: "\<forall>d. d \<noteq> c \<longrightarrow> rflags t d = rflags s d \<and> entry_flags t d = entry_flags s d"
    and lf: "lock_flags t = lock_flags s \<or> irq_owner (irq_pc s c)"
    and own: "irq_owner p \<longrightarrow> irq_owner (irq_pc s c) \<or> \<not> bit (irq_word s) 0"
    and word: "bit (irq_word t) 0 \<longleftrightarrow> irq_owner p \<or> (\<exists>d. d \<noteq> c \<and> irq_owner (irq_pc s d))"
    and here: "pc_flags t c p" "p = IOutside \<or> rflags t c AND RFLAGS_IF = 0"
  shows "irq_inv t"
proof -
  have excl: "\<not> irq_owner (irq_pc s d)" if "irq_owner p" "d \<noteq> c" for d
    using own that irq_invD(1) [OF inv] irq_invD(2) [OF inv, of c d] by blast
  have "pc_flags t d (irq_pc t d) \<and> (irq_pc t d = IOutside \<or> rflags t d AND RFLAGS_IF = 0)" for d
  proof (cases "d = c")
    case True
    then show ?thesis using here pc by simp
  next
    case False
    have "lock_flags t = lock_flags s" if "irq_pc s d = IHolding"
      using lf irq_invD(2) [OF inv, of c d] that False by auto
    then have "pc_flags t d (irq_pc s d) = pc_flags s d (irq_pc s d)"
      using other False by (intro pc_flags_cong) auto
    then show ?thesis using irq_invD(3,4) [OF inv, of d] False pc other by (cases "irq_pc s d = IOutside") auto
  qed
  moreover have "d = e" if "irq_owner (irq_pc t d)" "irq_owner (irq_pc t e)" for d e
    using that excl irq_invD(2) [OF inv, of d e] pc by (auto split: if_splits)
  moreover have "bit (irq_word t) 0 \<longleftrightarrow> (\<exists>d. irq_owner (irq_pc t d))" using word pc by auto
  ultimately show ?thesis unfolding irq_inv_def by blast
qed

lemma irq_try_inv:
  assumes inv: "irq_inv s" and f: "flags = entry_flags s c" "irq_pc s c \<noteq> IOutside" "\<not> irq_owner (irq_pc s c)"
  shows "irq_inv (irq_try c flags s)"
proof (rule irq_move [OF inv, of _ c "if bit (irq_word s) 0 then IPause flags else IStore flags"])
  have o: "(\<exists>d. d \<noteq> c \<and> irq_owner (irq_pc s d)) \<longleftrightarrow> bit (irq_word s) 0" using irq_invD(1) [OF inv] f(3) by auto
  show "bit (irq_word (irq_try c flags s)) 0 \<longleftrightarrow>
      irq_owner (if bit (irq_word s) 0 then IPause flags else IStore flags) \<or> (\<exists>d. d \<noteq> c \<and> irq_owner (irq_pc s d))"
    unfolding o by (auto simp: irq_try_def atomic_bit_test_and_set_32_def igoto_def bit_simps)
qed (use f irq_invD(4) [OF inv, of c] in \<open>auto simp: irq_try_def atomic_bit_test_and_set_32_def igoto_def\<close>)

lemma irq_step_inv: "irq_step s t \<Longrightarrow> irq_inv s \<Longrightarrow> irq_inv t"
proof (induction rule: irq_step.induct)
  case (irq_acquire s c)
  note inv = irq_invD [OF irq_acquire]
  have o: "(\<exists>d. d \<noteq> c \<and> irq_owner (irq_pc s d)) \<longleftrightarrow> bit (irq_word s) 0" if "\<not> irq_owner (irq_pc s c)"
    using inv(1) that by auto
  show ?case
  proof (cases "irq_pc s c")
    case IOutside
    show ?thesis
      by (rule irq_move [OF irq_acquire, of _ c "IFirst (rflags s c)"])
        (use IOutside o in \<open>auto simp: spinlock_irq_acquire_def save_irq_disable_def igoto_def and.assoc\<close>)
  next
    case (IFirst f)
    then show ?thesis using irq_try_inv [OF irq_acquire, of f c] inv(3) [of c] by (simp add: spinlock_irq_acquire_def)
  next
    case (IPause f)
    show ?thesis
      by (rule irq_move [OF irq_acquire, of _ c "ILoad f"])
        (use IPause o inv(3) [of c] inv(4) [of c] in \<open>auto simp: spinlock_irq_acquire_def igoto_def\<close>)
  next
    case (ILoad f)
    show ?thesis
      by (rule irq_move [OF irq_acquire, of _ c "if irq_word s AND 1 = 0 then ITry f else IPause f"])
        (use ILoad o inv(3) [of c] inv(4) [of c] in \<open>auto simp: spinlock_irq_acquire_def igoto_def\<close>)
  next
    case (ITry f)
    then show ?thesis using irq_try_inv [OF irq_acquire, of f c] inv(3) [of c] by (simp add: spinlock_irq_acquire_def)
  next
    case (IStore f)
    show ?thesis
      by (rule irq_move [OF irq_acquire, of _ c IHolding])
        (use IStore inv(1) inv(3) [of c] inv(4) [of c] in \<open>auto simp: spinlock_irq_acquire_def igoto_def intro: exI [of _ c]\<close>)
  qed (use irq_acquire in \<open>simp_all add: spinlock_irq_acquire_def\<close>)
next
  case (irq_release s c)
  note inv = irq_invD [OF irq_release]
  show ?case
  proof (cases "irq_pc s c")
    case IHolding
    show ?thesis
      by (rule irq_move [OF irq_release, of _ c "IOpen (lock_flags s)"])
        (use IHolding inv(1) inv(3) [of c] inv(4) [of c] in \<open>auto simp: spinlock_irq_release_def igoto_def intro: exI [of _ c]\<close>)
  next
    case (IOpen f)
    have "\<not> irq_owner (irq_pc s d)" if "d \<noteq> c" for d using inv(2) [of c d] IOpen that by auto
    then show ?thesis
      by (intro irq_move [OF irq_release, of _ c "IRestore f"])
        (use IOpen inv(3) [of c] inv(4) [of c] in \<open>auto simp: spinlock_irq_release_def igoto_def\<close>)
  next
    case (IRestore f)
    then have "\<not> irq_owner (irq_pc s c)" by simp
    then have "(\<exists>d. d \<noteq> c \<and> irq_owner (irq_pc s d)) \<longleftrightarrow> bit (irq_word s) 0" using inv(1) by auto
    then show ?thesis
      by (intro irq_move [OF irq_release, of _ c IOutside])
        (use IRestore in \<open>auto simp: spinlock_irq_release_def restore_irq_def igoto_def\<close>)
  qed (use irq_release in \<open>simp_all add: spinlock_irq_release_def\<close>)
qed

interpretation irq: invariant_system irq_start irq_step irq_inv
proof
  show "irq_inv s" if "irq_start s" for s
    using that by (auto simp: irq_start_def spinlock_irq_init_def irq_inv_def)
  show "irq_inv t" if "irq_inv s" "irq_step s t" for s t
    using that irq_step_inv by blast
qed

section \<open>Properties\<close>

abbreviation spin_reachable :: "spin_state \<Rightarrow> bool" where
  "spin_reachable \<equiv> reachable spin_start (\<lambda>s t. \<exists>c. spin_step c s t)"

lemma spin_reach_step: "spin_reachable s \<Longrightarrow> spin_step c s t \<Longrightarrow> spin_reachable t"
  using reach_step [of spin_start "\<lambda>s t. \<exists>c. spin_step c s t" s t] by auto

definition spin0 :: spin_state where
  "spin0 = spinlock_init \<lparr>spin_word = 7, spin_pc = (\<lambda>_. Outside)\<rparr>"

lemma spin0_reachable: "spin_reachable spin0"
proof (rule reach_init)
  show "spin_start spin0" unfolding spin_start_def spin0_def by (rule exI, rule conjI [OF refl]) simp
qed

text \<open>C18. At every reachable state at most one processor is inside the critical section of a spin lock, and
  \<^verbatim>\<open>spinlock_is_locked\<close> answers whether one is.\<close>

theorem spin_mutual_exclusion:
  assumes "spin_reachable s"
  shows "(spin_pc s c = Holding \<and> spin_pc s d = Holding \<longrightarrow> c = d) \<and>
    (spinlock_is_locked s \<longleftrightarrow> (\<exists>c. spin_pc s c = Holding))"
  using spin.reachable_inv [OF assms] by (auto simp: spin_inv_def spinlock_is_locked_def bit0_and)

theorem spin_mutual_exclusion_witness:
  "\<exists>s :: spin_state. spin_pc s 3 = Holding \<and> spin_pc s 5 = First_Try \<and> spinlock_is_locked s \<and> {d. spin_pc s d = Holding} = {3}"
proof -
  define s1 where "s1 = goto 3 First_Try spin0"
  define s2 where "s2 = spinlock_acquire 3 s1"
  define s3 where "s3 = goto 5 First_Try s2"
  have pc: "spin_pc spin0 3 = Outside" "acquiring (spin_pc s1 3)" "spin_pc s2 5 = Outside"
    "spin_pc s3 3 = Holding" "spin_pc s3 5 = First_Try"
    by (simp_all add: s1_def s2_def s3_def spin0_def spinlock_init_def goto_def acquiring_def spinlock_acquire_def try_bit_def
        atomic_bit_test_and_set_32_def)
  have "spin_reachable s1" unfolding s1_def by (rule spin_reach_step [OF spin0_reachable spin_call [OF pc(1)]])
  then have "spin_reachable s2" unfolding s2_def by (rule spin_reach_step [OF _ spin_acquire [OF pc(2)]])
  then have "spin_reachable s3" unfolding s3_def by (rule spin_reach_step [OF _ spin_call [OF pc(3)]])
  note m = spin_mutual_exclusion [OF this, of 3]
  have "d = 3" if "spin_pc s3 d = Holding" for d using m [of d] that pc(4) by blast
  then have "{d. spin_pc s3 d = Holding} = {3}" using pc(4) by blast
  moreover have "spinlock_is_locked s3" using m [of 3] pc(4) by metis
  ultimately show ?thesis using pc(4,5) by blast
qed



text \<open>C20. The interrupt-masking lock: while a processor owns it, no other does and its interrupts are masked;
  when it leaves, its flag register is what it was at the call of \<^verbatim>\<open>spinlock_irq_acquire\<close>, whoever used the
  lock in between.\<close>

theorem irq_lock_restores:
  assumes "reachable irq_start irq_step s"
  shows "(irq_owner (irq_pc s c) \<longrightarrow> rflags s c AND RFLAGS_IF = 0 \<and> (\<forall>d. irq_owner (irq_pc s d) \<longrightarrow> d = c)) \<and>
    (irq_pc s c = IRestore f \<longrightarrow> rflags (spinlock_irq_release c s) c = entry_flags s c)"
proof -
  note inv = irq_invD [OF irq.reachable_inv [OF assms]]
  have "irq_owner (irq_pc s c) \<Longrightarrow> irq_pc s c \<noteq> IOutside" by auto
  then show ?thesis using inv(2) inv(4) [of c] inv(3) [of c]
    by (auto simp: spinlock_irq_release_def restore_irq_def igoto_def)
qed

lemma irq_reach_iterate:
  "reachable irq_start irq_step s \<Longrightarrow> reachable irq_start irq_step ((spinlock_irq_acquire c ^^ n) s)"
  "reachable irq_start irq_step s \<Longrightarrow> reachable irq_start irq_step ((spinlock_irq_release c ^^ n) s)"
  by (induction n) (simp_all add: reach_step [of _ irq_step, OF _ irq_acquire] reach_step [of _ irq_step, OF _ irq_release])

definition irq0 :: irq_state where
  "irq0 = spinlock_irq_init \<lparr>irq_word = 1, lock_flags = 9, rflags = (\<lambda>_. 0x202), irq_pc = (\<lambda>_. IOutside), entry_flags = (\<lambda>_. 0)\<rparr>"

theorem irq_lock_restores_witness:
  "\<exists>s. irq_pc s 1 = IRestore 0x202 \<and> rflags s 1 = 2 \<and> rflags (spinlock_irq_release 1 s) 1 = entry_flags s 1 \<and> entry_flags s 1 = 0x202"
proof -
  define s3 where "s3 = (spinlock_irq_acquire 1 ^^ 3) irq0"
  define s5 where "s5 = (spinlock_irq_release 1 ^^ 2) s3"
  have pc: "irq_pc s5 1 = IRestore 0x202" "entry_flags s5 1 = 0x202" "rflags s5 1 = 2"
    by (simp_all add: s5_def s3_def irq0_def spinlock_irq_init_def spinlock_irq_acquire_def spinlock_irq_release_def save_irq_disable_def
        irq_try_def atomic_bit_test_and_set_32_def igoto_def numeral_2_eq_2 numeral_3_eq_3)
  have "irq_start irq0" unfolding irq_start_def irq0_def by (rule exI, rule conjI [OF refl]) simp
  then have "reachable irq_start irq_step irq0" by (rule reach_init)
  then have "reachable irq_start irq_step s5" unfolding s5_def s3_def by (intro irq_reach_iterate)
  from irq_lock_restores [OF this, of 1 "0x202"] have "rflags (spinlock_irq_release 1 s5) 1 = entry_flags s5 1" using pc(1) by simp
  then show ?thesis using pc by blast
qed

end
