(* ===== verification/Timers.thy ===== *)
theory Timers
  imports Kernel_Prelude
begin

text \<open>
  Time sources: the time stamp counter (\<^verbatim>\<open>src/src/kernel/arch/x86_64/tsc.c\<close>), the interval timer
  (\<^verbatim>\<open>pit.c\<close>) and the real-time clock (\<^verbatim>\<open>rtc.c\<close>).  Hardware is a parameter: \<open>cpuid\<close> is the processor's
  answer to a leaf, \<open>clock n\<close> the value of the \<open>n\<close>-th read of a counter, \<open>cmos_in\<close> the clock chip.
  \<^verbatim>\<open>mulq\<close> and \<^verbatim>\<open>divq\<close> are written out: a quotient that does not fit in 64 bits is a divide fault.
\<close>

section \<open>Time stamp counter\<close>

record tsc =
  tsc_boot :: u64
  tsc_frequency :: u64
  tsc_available :: bool
  tsc_invariant :: bool
  tsc_constant :: bool
  tsc_rdtscp_available :: bool
  tsc_deadline_available :: bool
  calibration_method :: u8

abbreviation (input) TSC_CALIB_CPUID :: u8 where "TSC_CALIB_CPUID \<equiv> 0"
abbreviation (input) TSC_CALIB_PIT :: u8 where "TSC_CALIB_PIT \<equiv> 1"
abbreviation (input) TSC_CALIB_APIC :: u8 where "TSC_CALIB_APIC \<equiv> 2"
abbreviation (input) TSC_CALIB_FALLBACK :: u8 where "TSC_CALIB_FALLBACK \<equiv> 4"
abbreviation (input) PIT_FREQUENCY :: u64 where "PIT_FREQUENCY \<equiv> 1193182"

type_synonym cpuid = "u32 \<Rightarrow> u32 \<Rightarrow> cpuid_regs"

definition mul_div64 :: "u64 \<Rightarrow> u64 \<Rightarrow> u64 \<Rightarrow> u64 result" where
  "mul_div64 a b c =
     (if c = 0 then Inr 0
      else let q = unat a * unat b div unat c in if q < 2 ^ 64 then Inr (of_nat q) else Inl Divide_Error)"

definition tsc_is_supported :: "cpuid \<Rightarrow> bool" where
  "tsc_is_supported cpuid \<longleftrightarrow> r_edx (cpuid 1 0) AND push_bit 4 1 \<noteq> 0"

definition tsc_has_rdtscp :: "cpuid \<Rightarrow> bool" where
  "tsc_has_rdtscp cpuid \<longleftrightarrow>
     (if r_eax (cpuid 0x80000000 0) < 0x80000001 then False
      else r_edx (cpuid 0x80000001 0) AND push_bit 27 1 \<noteq> 0)"

definition tsc_is_invariant :: "cpuid \<Rightarrow> bool" where
  "tsc_is_invariant cpuid \<longleftrightarrow>
     (if r_eax (cpuid 0x80000000 0) < 0x80000007 then False
      else r_edx (cpuid 0x80000007 0) AND push_bit 8 1 \<noteq> 0)"

definition tsc_is_constant :: "tsc \<Rightarrow> bool" where
  "tsc_is_constant s = tsc_invariant s"

definition tsc_deadline_supported :: "cpuid \<Rightarrow> bool" where
  "tsc_deadline_supported cpuid \<longleftrightarrow> r_ecx (cpuid 1 0) AND push_bit 24 1 \<noteq> 0"

definition tsc_set_calibrated :: "u64 \<Rightarrow> u8 \<Rightarrow> tsc \<Rightarrow> bool \<times> tsc" where
  "tsc_set_calibrated freq meth s =
     (if freq = 0 then (False, s\<lparr>tsc_frequency := freq\<rparr>)
      else (True, s\<lparr>tsc_frequency := freq, calibration_method := meth\<rparr>))"

definition tsc_calibrate_cpuid :: "cpuid \<Rightarrow> tsc \<Rightarrow> bool \<times> tsc" where
  "tsc_calibrate_cpuid cpuid s =
     (if r_eax (cpuid 0 0) < 0x15 then (False, s)
      else
        let regs = cpuid 0x15 0;
            denominator = r_eax regs;
            numerator = r_ebx regs;
            crystal_hz = r_ecx regs
        in if denominator = 0 \<or> numerator = 0 then (False, s)
           else if crystal_hz = 0
           then
             if r_eax (cpuid 0 0) < 0x16 then (False, s)
             else
               let base_mhz = r_eax (cpuid 0x16 0)
               in if base_mhz = 0 then (False, s)
                  else
                    let base_hz = (ucast base_mhz :: u64) * 1000000;
                        crystal_hz = (ucast (base_hz * ucast denominator div ucast numerator) :: u32)
                    in tsc_set_calibrated ((ucast crystal_hz :: u64) * ucast numerator div ucast denominator) TSC_CALIB_CPUID s
           else tsc_set_calibrated ((ucast crystal_hz :: u64) * ucast numerator div ucast denominator) TSC_CALIB_CPUID s)"

text \<open>The three measurements of the PIT calibration: the counter before and after the PIT has counted down.\<close>

fun pit_samples :: "(u64 \<times> u64) list \<Rightarrow> bool \<Rightarrow> u64 \<Rightarrow> u64 \<Rightarrow> u64 result" where
  "pit_samples [] first best_freq min_error = Inr best_freq"
| "pit_samples ((tsc_start, tsc_end) # rest) first best_freq min_error =
     rbind (mul_div64 (tsc_end - tsc_start) PIT_FREQUENCY 11932) (\<lambda>freq.
       let err = (if freq > best_freq then freq - best_freq else best_freq - freq)
       in if first \<or> err < min_error then pit_samples rest False freq err
          else pit_samples rest False best_freq min_error)"

definition tsc_calibrate_pit :: "(u64 \<times> u64) list \<Rightarrow> tsc \<Rightarrow> (bool \<times> tsc) result" where
  "tsc_calibrate_pit readings s =
     (if \<not> tsc_available s then Inr (False, s)
      else rbind (pit_samples (take 3 readings) True 0 (- 1)) (\<lambda>best_freq.
        if best_freq = 0 then Inr (False, s)
        else Inr (True, s\<lparr>tsc_frequency := best_freq, calibration_method := TSC_CALIB_PIT\<rparr>)))"

definition tsc_calibrate_apic :: "u64 \<Rightarrow> u64 \<times> u64 \<Rightarrow> tsc \<Rightarrow> (bool \<times> tsc) result" where
  "tsc_calibrate_apic apic_frequency_hz reading s =
     (if \<not> tsc_available s \<or> apic_frequency_hz = 0 then Inr (False, s)
      else
        let apic_ticks = (ucast (apic_frequency_hz div 100) :: u32);
            apic_ticks = (if apic_ticks = 0 then 1000000 else apic_ticks);
            (tsc_start, tsc_end) = reading
        in rbind (mul_div64 (tsc_end - tsc_start) apic_frequency_hz (ucast apic_ticks)) (\<lambda>freq.
             Inr (tsc_set_calibrated freq TSC_CALIB_APIC s)))"

definition tsc_get_calibration_method_name :: "tsc \<Rightarrow> string" where
  "tsc_get_calibration_method_name s =
     (let m = calibration_method s
      in if m = TSC_CALIB_CPUID then ''CPUID'' else if m = TSC_CALIB_PIT then ''PIT''
         else if m = TSC_CALIB_APIC then ''APIC'' else if m = 3 then ''ACPI PM''
         else if m = TSC_CALIB_FALLBACK then ''Fallback'' else ''Unknown'')"

definition tsc_init ::
  "cpuid \<Rightarrow> (u64 \<times> u64) list \<Rightarrow> u64 \<Rightarrow> u64 \<times> u64 \<Rightarrow> u64 \<Rightarrow> tsc \<Rightarrow> tsc result" where
  "tsc_init cpuid pit_readings apic_freq apic_reading now s =
     (let s = s\<lparr>tsc_available := tsc_is_supported cpuid\<rparr>
      in if \<not> tsc_available s then Inr s
         else
           let s = s\<lparr>tsc_rdtscp_available := tsc_has_rdtscp cpuid, tsc_invariant := tsc_is_invariant cpuid\<rparr>;
               s = s\<lparr>tsc_constant := tsc_is_constant s, tsc_deadline_available := tsc_deadline_supported cpuid\<rparr>;
               (ok, s) = tsc_calibrate_cpuid cpuid s
           in if ok then Inr (s\<lparr>tsc_boot := now\<rparr>)
              else rbind (tsc_calibrate_pit pit_readings s) (\<lambda>(ok, s).
                if ok then Inr (s\<lparr>tsc_boot := now\<rparr>)
                else rbind (if apic_freq > 0 then tsc_calibrate_apic apic_freq apic_reading s else Inr (False, s)) (\<lambda>(ok, s).
                  if ok then Inr (s\<lparr>tsc_boot := now\<rparr>)
                  else Inr (s\<lparr>tsc_frequency := 2400000000, calibration_method := TSC_CALIB_FALLBACK, tsc_boot := now\<rparr>))))"

definition tsc_set_frequency :: "u64 \<Rightarrow> tsc \<Rightarrow> tsc" where
  "tsc_set_frequency freq_hz s = s\<lparr>tsc_frequency := freq_hz, calibration_method := TSC_CALIB_FALLBACK\<rparr>"

definition tsc_to_ns :: "tsc \<Rightarrow> u64 \<Rightarrow> u64 result" where
  "tsc_to_ns s tsc_value = (if tsc_frequency s = 0 then Inr 0 else mul_div64 tsc_value 1000000000 (tsc_frequency s))"

definition ns_to_tsc :: "tsc \<Rightarrow> u64 \<Rightarrow> u64 result" where
  "ns_to_tsc s ns = (if tsc_frequency s = 0 then Inr 0 else mul_div64 ns (tsc_frequency s) 1000000000)"

definition tsc_to_us :: "tsc \<Rightarrow> u64 \<Rightarrow> u64 result" where
  "tsc_to_us s tsc_value = (if tsc_frequency s = 0 then Inr 0 else mul_div64 tsc_value 1000000 (tsc_frequency s))"

definition us_to_tsc :: "tsc \<Rightarrow> u64 \<Rightarrow> u64 result" where
  "us_to_tsc s us = (if tsc_frequency s = 0 then Inr 0 else mul_div64 us (tsc_frequency s) 1000000)"

definition tsc_to_ms :: "tsc \<Rightarrow> u64 \<Rightarrow> u64 result" where
  "tsc_to_ms s tsc_value = (if tsc_frequency s = 0 then Inr 0 else mul_div64 tsc_value 1000 (tsc_frequency s))"

definition ms_to_tsc :: "tsc \<Rightarrow> u64 \<Rightarrow> u64 result" where
  "ms_to_tsc s ms = (if tsc_frequency s = 0 then Inr 0 else mul_div64 ms (tsc_frequency s) 1000)"

partial_function (option) wait_until :: "(nat \<Rightarrow> u64) \<Rightarrow> nat \<Rightarrow> u64 \<Rightarrow> nat option" where
  "wait_until clock n end = (if clock n < end then wait_until clock (Suc n) end else Some n)"

text \<open>A delay reads the counter once for its start and then until it passes the end; the result is the
  number of the last read.\<close>

definition tsc_delay :: "(u64 \<Rightarrow> u64 result) \<Rightarrow> (nat \<Rightarrow> u64) \<Rightarrow> tsc \<Rightarrow> u64 \<Rightarrow> nat option result" where
  "tsc_delay to_tsc clock s x =
     (if tsc_frequency s = 0 then Inr (Some 0)
      else rbind (to_tsc x) (\<lambda>ticks. let start = clock 0; end = start + ticks in Inr (wait_until clock 1 end)))"

definition tsc_delay_ns :: "(nat \<Rightarrow> u64) \<Rightarrow> tsc \<Rightarrow> u64 \<Rightarrow> nat option result" where
  "tsc_delay_ns clock s ns = tsc_delay (ns_to_tsc s) clock s ns"

definition tsc_delay_us :: "(nat \<Rightarrow> u64) \<Rightarrow> tsc \<Rightarrow> u64 \<Rightarrow> nat option result" where
  "tsc_delay_us clock s us = tsc_delay (us_to_tsc s) clock s us"

definition tsc_delay_ms :: "(nat \<Rightarrow> u64) \<Rightarrow> tsc \<Rightarrow> u64 \<Rightarrow> nat option result" where
  "tsc_delay_ms clock s ms = tsc_delay (ms_to_tsc s) clock s ms"

definition tsc_get_uptime_ms :: "u64 \<Rightarrow> tsc \<Rightarrow> u64 result" where
  "tsc_get_uptime_ms now s = tsc_to_ms s (now - tsc_boot s)"

definition tsc_get_uptime_us :: "u64 \<Rightarrow> tsc \<Rightarrow> u64 result" where
  "tsc_get_uptime_us now s = tsc_to_us s (now - tsc_boot s)"

definition tsc_get_uptime_ns :: "u64 \<Rightarrow> tsc \<Rightarrow> u64 result" where
  "tsc_get_uptime_ns now s = tsc_to_ns s (now - tsc_boot s)"

section \<open>Interval timer\<close>

text \<open>\<open>pit_ports\<close> lists the bytes written to the ports of the chip, latest first.\<close>

record pit =
  pit_ticks :: u64
  pit_frequency :: u32
  pit_divisor :: u16
  pit_ports :: "(u16 \<times> u8) list"

definition pit_irq_handler :: "pit \<Rightarrow> pit" where
  "pit_irq_handler s = s\<lparr>pit_ticks := pit_ticks s + 1\<rparr>"

definition pit_calculate_divisor :: "u32 \<Rightarrow> u16" where
  "pit_calculate_divisor frequency =
     (if frequency = 0 \<or> frequency < 19 then 0
      else let divisor = 1193182 div frequency in if divisor > 65535 then 0 else ucast divisor)"

definition pit_set_divisor :: "u16 \<Rightarrow> pit \<Rightarrow> pit" where
  "pit_set_divisor divisor s =
     (let s = s\<lparr>pit_ports := (0x40, ucast (drop_bit 8 divisor AND 0xFF)) # (0x40, ucast (divisor AND 0xFF)) #
                              (0x43, 0x00 OR 0x30 OR 0x06 OR 0x00) # pit_ports s\<rparr>;
          s = s\<lparr>pit_divisor := divisor\<rparr>
      in s\<lparr>pit_frequency := (if divisor = 0 then 1193182 div 65536 else 1193182 div ucast divisor)\<rparr>)"

definition pit_set_frequency :: "u32 \<Rightarrow> pit \<Rightarrow> pit" where
  "pit_set_frequency frequency s = pit_set_divisor (pit_calculate_divisor frequency) s"

partial_function (option) pit_wait :: "(nat \<Rightarrow> u64) \<Rightarrow> nat \<Rightarrow> u64 \<Rightarrow> u64 \<Rightarrow> nat option" where
  "pit_wait ticks n start target = (if ticks n - start < target then pit_wait ticks (Suc n) start target else Some n)"

definition pit_sleep_ms :: "(nat \<Rightarrow> u64) \<Rightarrow> pit \<Rightarrow> u32 \<Rightarrow> nat option" where
  "pit_sleep_ms ticks s ms =
     (if pit_frequency s = 0 then Some 0
      else pit_wait ticks 1 (ticks 0) ((ucast ms :: u64) * ucast (pit_frequency s) div 1000))"

definition pit_get_uptime_ms :: "pit \<Rightarrow> u64" where
  "pit_get_uptime_ms s = (if pit_frequency s = 0 then 0 else pit_ticks s * 1000 div ucast (pit_frequency s))"

definition pit_get_uptime_seconds :: "pit \<Rightarrow> u64" where
  "pit_get_uptime_seconds s = (if pit_frequency s = 0 then 0 else pit_ticks s div ucast (pit_frequency s))"

section \<open>Real-time clock\<close>

record rtc_time =
  second :: u8
  minute :: u8
  hour :: u8
  weekday :: u8
  day :: u8
  month :: u8
  year :: u16

text \<open>\<open>cmos_in reg d\<close> is the answer of the chip in state \<open>d\<close> to a read of register \<open>reg\<close>, with its next state.\<close>

record 'd rtc =
  rtc_ticks :: u64
  rtc_cache :: rtc_time
  chip :: 'd

definition rtc_cmos_read :: "(u8 \<Rightarrow> 'd \<Rightarrow> u8 \<times> 'd) \<Rightarrow> u8 \<Rightarrow> 'd \<Rightarrow> u8 \<times> 'd" where
  "rtc_cmos_read cmos_in reg d = cmos_in (reg AND 0x7F) d"

definition bcd_to_bin :: "u8 \<Rightarrow> u8" where
  "bcd_to_bin bcd = drop_bit 4 bcd * 10 + (bcd AND 0x0F)"

partial_function (option) rtc_wait_update :: "(u8 \<Rightarrow> 'd \<Rightarrow> u8 \<times> 'd) \<Rightarrow> 'd \<Rightarrow> 'd option" where
  "rtc_wait_update cmos_in d =
     (let (a, d) = rtc_cmos_read cmos_in 0x0A d
      in if a AND 0x80 \<noteq> 0 then rtc_wait_update cmos_in d else Some d)"

definition rtc_read_all :: "(u8 \<Rightarrow> 'd \<Rightarrow> u8 \<times> 'd) \<Rightarrow> 'd \<Rightarrow> rtc_time \<times> 'd" where
  "rtc_read_all cmos_in d =
     (let (s, d) = rtc_cmos_read cmos_in 0x00 d;
          (mi, d) = rtc_cmos_read cmos_in 0x02 d;
          (h, d) = rtc_cmos_read cmos_in 0x04 d;
          (w, d) = rtc_cmos_read cmos_in 0x06 d;
          (dy, d) = rtc_cmos_read cmos_in 0x07 d;
          (mo, d) = rtc_cmos_read cmos_in 0x08 d;
          (y, d) = rtc_cmos_read cmos_in 0x09 d
      in (\<lparr>second = s, minute = mi, hour = h, weekday = w, day = dy, month = mo, year = ucast y\<rparr>, d))"

definition rtc_same :: "rtc_time \<Rightarrow> rtc_time \<Rightarrow> bool" where
  "rtc_same prev t \<longleftrightarrow> second prev = second t \<and> minute prev = minute t \<and> hour prev = hour t \<and>
     day prev = day t \<and> month prev = month t \<and> year prev = year t"

partial_function (option) rtc_read_twice :: "(u8 \<Rightarrow> 'd \<Rightarrow> u8 \<times> 'd) \<Rightarrow> rtc_time \<Rightarrow> 'd \<Rightarrow> (rtc_time \<times> 'd) option" where
  "rtc_read_twice cmos_in prev d =
     (let (t, d) = rtc_read_all cmos_in d
      in if \<not> rtc_same prev t then rtc_read_twice cmos_in t d else Some (t, d))"

definition rtc_decode :: "u8 \<Rightarrow> rtc_time \<Rightarrow> rtc_time" where
  "rtc_decode regb t =
     (let t = (if regb AND 0x04 = 0
               then t\<lparr>second := bcd_to_bin (second t), minute := bcd_to_bin (minute t),
                      hour := bcd_to_bin (hour t AND 0x7F) OR (hour t AND 0x80),
                      weekday := bcd_to_bin (weekday t), day := bcd_to_bin (day t),
                      month := bcd_to_bin (month t), year := ucast (bcd_to_bin (ucast (year t)))\<rparr>
               else t);
          t = (if regb AND 0x02 = 0 \<and> hour t AND 0x80 \<noteq> 0
               then t\<lparr>hour := ((hour t AND 0x7F) + 12) mod 24\<rparr> else t)
      in if year t < 100 then t\<lparr>year := year t + 2000\<rparr> else t)"

definition rtc_read_registers :: "(u8 \<Rightarrow> 'd \<Rightarrow> u8 \<times> 'd) \<Rightarrow> rtc_time \<Rightarrow> 'd \<Rightarrow> (rtc_time \<times> 'd) option" where
  "rtc_read_registers cmos_in t d =
     (case rtc_wait_update cmos_in d of
        None \<Rightarrow> None
      | Some d \<Rightarrow>
          (case rtc_read_twice cmos_in t d of
             None \<Rightarrow> None
           | Some (t, d) \<Rightarrow> let (regb, d) = rtc_cmos_read cmos_in 0x0B d in Some (rtc_decode regb t, d)))"

definition rtc_irq_handler :: "(u8 \<Rightarrow> 'd \<Rightarrow> u8 \<times> 'd) \<Rightarrow> 'd rtc \<Rightarrow> 'd rtc option" where
  "rtc_irq_handler cmos_in s =
     (let (regc, d) = rtc_cmos_read cmos_in 0x0C (chip s)
      in if regc AND 0x10 \<noteq> 0
         then (case rtc_read_registers cmos_in (rtc_cache s) d of
                 None \<Rightarrow> None
               | Some (t, d) \<Rightarrow> Some (s\<lparr>rtc_ticks := rtc_ticks s + 1, rtc_cache := t, chip := d\<rparr>))
         else Some (s\<lparr>chip := d\<rparr>))"

section \<open>Lemmas\<close>

lemma mul_div64_floor:
  assumes "c \<noteq> 0" and "mul_div64 a b c = Inr q"
  shows "unat q = unat a * unat b div unat c"
  using assms by (auto simp: mul_div64_def Let_def unat_of_nat_small split: if_splits)

lemma mul_div64_small: "c \<noteq> 0 \<Longrightarrow> unat a * unat b div unat c < 2 ^ 64 \<Longrightarrow> \<exists>q. mul_div64 a b c = Inr q"
  by (simp add: mul_div64_def)

lemma floor_back_bound:
  fixes x f k :: nat
  assumes "0 < f" "0 < k"
  shows "x * f div k * k div f \<le> x" and "x \<le> x * f div k * k div f + (k - 1) div f + 1"
proof -
  let ?t = "x * f div k" and ?r = "x * f div k * k div f"
  have "?t * k \<le> x * f" by (rule div_times_less_eq_dividend)
  then have "?t * k div f \<le> x * f div f" by (rule div_le_mono)
  then show "?r \<le> x" using assms(1) by simp
  have a: "x * f < ?t * k + k" using assms(2) by (metis div_mult_mod_eq mod_less_divisor nat_add_left_cancel_less)
  have b: "?t * k < (?r + 1) * f" using assms(1) by (metis add.commute dividend_less_div_times mult.commute mult_Suc plus_1_eq_Suc)
  have c: "k - 1 < ((k - 1) div f + 1) * f" using assms(1) by (metis add.commute dividend_less_div_times mult.commute mult_Suc plus_1_eq_Suc)
  have "x * f < (?r + 1) * f + ((k - 1) div f + 1) * f" using a b c by linarith
  then have "x * f < (?r + 1 + ((k - 1) div f + 1)) * f" by (simp add: algebra_simps)
  then have "x < ?r + 1 + ((k - 1) div f + 1)" by (simp only: mult_less_cancel2)
  then show "x \<le> ?r + (k - 1) div f + 1" by simp
qed









lemma wait_until_Some: "wait_until clock n end = Some k \<Longrightarrow> end \<le> clock k"
  by (erule wait_until.raw_induct [rotated, of clock n "end" k "\<lambda>clock n e k. e \<le> clock k"])
    (auto split: if_splits)

lemma wait_until_ends: "end \<le> clock (n + d) \<Longrightarrow> \<exists>k \<le> n + d. wait_until clock n end = Some k"
proof (induction d arbitrary: n)
  case 0
  then show ?case by (subst wait_until.simps) auto
next
  case (Suc d)
  then show ?case using Suc.IH [of "Suc n"] by (subst wait_until.simps) auto
qed




section \<open>Properties\<close>

text \<open>C21. Converting nanoseconds to counter ticks and back never faults, never gains time and loses at most one
  tick's worth of nanoseconds plus rounding; the forward conversion faults exactly when the number of
  ticks does not fit in 64 bits.\<close>

theorem tsc_ns_round_trip:
  assumes f: "tsc_frequency s \<noteq> 0"
  shows "case ns_to_tsc s ns of
      Inl h \<Rightarrow> h = Divide_Error \<and> 2 ^ 64 \<le> unat ns * unat (tsc_frequency s) div 1000000000
    | Inr t \<Rightarrow> (\<exists>r. tsc_to_ns s t = Inr r \<and> unat r \<le> unat ns \<and>
        unat ns \<le> unat r + 999999999 div unat (tsc_frequency s) + 1)"
proof (cases "ns_to_tsc s ns")
  case (Inl h)
  then show ?thesis using f by (auto simp: ns_to_tsc_def mul_div64_def Let_def split: if_splits)
next
  case (Inr t)
  let ?f = "unat (tsc_frequency s)"
  have f0: "0 < ?f" using f by (simp add: unat_gt_0)
  have t: "unat t = unat ns * ?f div 1000000000"
    using mul_div64_floor [of 1000000000 ns "tsc_frequency s" t] Inr f by (simp add: ns_to_tsc_def)
  note b = floor_back_bound [OF f0, of 1000000000 "unat ns"]
  have "unat t * 1000000000 div ?f < 2 ^ 64" using b(1) unat_lt2p [of ns] unfolding t by simp
  then obtain r where r: "mul_div64 t 1000000000 (tsc_frequency s) = Inr r"
    using mul_div64_small [of "tsc_frequency s" t 1000000000] f by auto
  have "unat r = unat t * 1000000000 div ?f" using mul_div64_floor [OF f r] by simp
  then show ?thesis using Inr f r b unfolding t by (simp add: tsc_to_ns_def)
qed

definition tsc0 :: tsc where
  "tsc0 = \<lparr>tsc_boot = 0, tsc_frequency = 2400000000, tsc_available = True, tsc_invariant = True, tsc_constant = True,
     tsc_rdtscp_available = True, tsc_deadline_available = False, calibration_method = TSC_CALIB_PIT\<rparr>"

theorem tsc_ns_round_trip_witness:
  "\<exists>t r. ns_to_tsc tsc0 1000 = Inr t \<and> tsc_to_ns tsc0 t = Inr r \<and> unat r \<le> 1000 \<and> 999 \<le> unat r"
  using tsc_ns_round_trip [of tsc0 1000] by (auto simp: tsc0_def ns_to_tsc_def mul_div64_def)




end
