(* ===== verification/Scheduler.thy ===== *)
theory Scheduler
  imports Timers
begin

text \<open>
  The task scheduler of \<^verbatim>\<open>src/src/kernel/core/scheduler.c\<close> with the task switch of
  \<^verbatim>\<open>src/src/kernel/arch/x86_64/switch.c\<close> and \<^verbatim>\<open>switch.s\<close>.

  A task control block lives at an address of the store \<open>tcbs\<close>; the queues are linked through its \<open>t_next\<close>
  field.  A routine that may switch tasks takes the list \<open>k\<close> of what its callers still have to do when
  the running task is resumed, and returns whether control has gone to another task: a switch saves
  \<open>k\<close> for the task that stops and leaves the routine.  \<open>resume\<close> carries on the task that was switched to.
  The scheduler data lock is taken and released inside one routine on one processor with interrupts
  off, so it is not part of the state.
\<close>

section \<open>Data\<close>

abbreviation (input) TASK_STATE_RUNNING :: u8 where "TASK_STATE_RUNNING \<equiv> 0"
abbreviation (input) TASK_STATE_READY :: u8 where "TASK_STATE_READY \<equiv> 1"
abbreviation (input) TASK_STATE_SLEEPING :: u8 where "TASK_STATE_SLEEPING \<equiv> 2"
abbreviation (input) TASK_STATE_WAITING_LOCK :: u8 where "TASK_STATE_WAITING_LOCK \<equiv> 4"
abbreviation (input) TASK_STATE_TERMINATED :: u8 where "TASK_STATE_TERMINATED \<equiv> 5"
abbreviation (input) TASK_STATE_INTERRUPTIBLE :: u8 where "TASK_STATE_INTERRUPTIBLE \<equiv> 7"
abbreviation (input) KERNEL_STACK_SIZE :: u64 where "KERNEL_STACK_SIZE \<equiv> 16384"
abbreviation (input) PRIORITY_IDLE :: u8 where "PRIORITY_IDLE \<equiv> 0"
abbreviation (input) PRIORITY_NORMAL :: u8 where "PRIORITY_NORMAL \<equiv> 128"
abbreviation (input) AGING_THRESHOLD_TICKS :: u64 where "AGING_THRESHOLD_TICKS \<equiv> 50"
abbreviation (input) AGING_BOOST_AMOUNT :: u8 where "AGING_BOOST_AMOUNT \<equiv> 16"

text \<open>The offset of the field \<open>next\<close> in \<^verbatim>\<open>struct tcb\<close>.\<close>

abbreviation (input) TCB_NEXT_OFFSET :: u64 where "TCB_NEXT_OFFSET \<equiv> 80"

record tcb =
  t_rsp :: u64
  t_tid :: u32
  t_name :: string
  t_kernel_stack_base :: u64
  t_kernel_stack_size :: u64
  t_cr3 :: u64
  t_state :: u8
  t_priority :: u8
  t_base_priority :: u8
  t_next :: u64
  t_time_used_ns :: u64
  t_sleep_expiry_ns :: u64
  t_wait_ticks :: u64
  t_switch_count :: u64
  t_last_run_time_ns :: u64
  t_owner_proc :: u64
  t_wait_queue :: u64
  t_wait_reason :: u64
  t_wait_data :: u64
  t_pending_signals :: u64
  t_signal_pending :: bool
  t_errno :: u32
  t_preempt_count :: u64
  t_yield_count :: u64
  t_wakeup_count :: u64

definition zero_tcb :: tcb where
  "zero_tcb = \<lparr>t_rsp = 0, t_tid = 0, t_name = [], t_kernel_stack_base = 0, t_kernel_stack_size = 0, t_cr3 = 0,
     t_state = 0, t_priority = 0, t_base_priority = 0, t_next = 0, t_time_used_ns = 0, t_sleep_expiry_ns = 0,
     t_wait_ticks = 0, t_switch_count = 0, t_last_run_time_ns = 0, t_owner_proc = 0, t_wait_queue = 0,
     t_wait_reason = 0, t_wait_data = 0, t_pending_signals = 0, t_signal_pending = False, t_errno = 0,
     t_preempt_count = 0, t_yield_count = 0, t_wakeup_count = 0\<rparr>"

record sched_stats =
  total_switches :: u64
  total_ticks :: u64
  idle_time_ns :: u64
  aging_boosts :: u64

text \<open>What a routine still has to do after the point where its task was switched away.\<close>

datatype frame = Do_unlock | Do_block u8 | Do_halt

record sched =
  tcbs :: "u64 \<Rightarrow> tcb"
  current_task :: u64
  ready_queue_heads :: "u64 list"
  ready_queue_tails :: "u64 list"
  ready_queue_bitmap :: u8
  sleeping_tasks :: u64
  terminated_tasks :: u64
  idle_task :: u64
  next_tid :: u64
  scheduler_lock_count :: int
  postpone_task_switches :: int
  task_switch_postponed :: bool
  time_since_boot_ns :: u64
  last_tsc :: u64
  time_slice_remaining_ns :: u64
  scheduler_initialized :: bool
  stats :: sched_stats
  stack_words :: "u64 \<Rightarrow> u64"
  kernel_rsp :: u64
  page_table :: u64
  tsc_now :: u64
  tsc_unit :: tsc
  todo :: "u64 \<Rightarrow> frame list"

definition upd_tcb :: "u64 \<Rightarrow> (tcb \<Rightarrow> tcb) \<Rightarrow> 'a sched_scheme \<Rightarrow> 'a sched_scheme" where
  "upd_tcb p f s = s\<lparr>tcbs := (tcbs s)(p := f (tcbs s p))\<rparr>"

definition nonnull :: "u64 \<Rightarrow> 'b \<Rightarrow> 'b result" where
  "nonnull p x = (if p = 0 then Inl Null_Deref else Inr x)"

section \<open>Queues\<close>

definition scheduler_is_initialized :: "'a sched_scheme \<Rightarrow> bool" where
  "scheduler_is_initialized s = scheduler_initialized s"

definition priority_to_queue :: "u8 \<Rightarrow> nat" where
  "priority_to_queue priority = unat (drop_bit 5 priority)"

fun find_queue :: "u8 \<Rightarrow> nat \<Rightarrow> int" where
  "find_queue bitmap 0 = -1"
| "find_queue bitmap (Suc i) = (if bitmap AND push_bit i 1 \<noteq> 0 then int i else find_queue bitmap i)"

definition find_highest_priority_queue :: "'a sched_scheme \<Rightarrow> int" where
  "find_highest_priority_queue s = (if ready_queue_bitmap s = 0 then -1 else find_queue (ready_queue_bitmap s) 8)"

definition calculate_time_slice :: "u8 \<Rightarrow> u64" where
  "calculate_time_slice priority = [5, 7, 10, 12, 15, 20, 25, 30] ! priority_to_queue priority * 1000000"

definition update_time_accounting :: "'a sched_scheme \<Rightarrow> 'a sched_scheme result" where
  "update_time_accounting s =
     (let current_tsc = tsc_now s;
          tsc_delta = current_tsc - last_tsc s
      in rbind (tsc_to_ns (tsc_unit s) tsc_delta) (\<lambda>ns_elapsed.
        let s = s\<lparr>last_tsc := current_tsc, time_since_boot_ns := time_since_boot_ns s + ns_elapsed\<rparr>
        in if current_task s = 0 then Inr s
           else
             let s = upd_tcb (current_task s) (\<lambda>t. t\<lparr>t_time_used_ns := t_time_used_ns t + ns_elapsed,
                                                     t_last_run_time_ns := time_since_boot_ns s\<rparr>) s
             in Inr (if current_task s = idle_task s
                     then s\<lparr>stats := (stats s)\<lparr>idle_time_ns := idle_time_ns (stats s) + ns_elapsed\<rparr>\<rparr> else s)))"

definition lock_scheduler :: "'a sched_scheme \<Rightarrow> 'a sched_scheme" where
  "lock_scheduler s = s\<lparr>scheduler_lock_count := scheduler_lock_count s + 1,
     postpone_task_switches := postpone_task_switches s + 1\<rparr>"

definition add_to_ready_queue :: "u64 \<Rightarrow> 'a sched_scheme \<Rightarrow> 'a sched_scheme" where
  "add_to_ready_queue task s =
     (let s = upd_tcb task (\<lambda>t. t\<lparr>t_next := 0, t_state := TASK_STATE_READY, t_wait_ticks := 0\<rparr>) s;
          q = priority_to_queue (t_priority (tcbs s task))
      in if ready_queue_heads s ! q = 0
         then s\<lparr>ready_queue_heads := (ready_queue_heads s)[q := task], ready_queue_tails := (ready_queue_tails s)[q := task],
                ready_queue_bitmap := ready_queue_bitmap s OR push_bit q 1\<rparr>
         else (upd_tcb (ready_queue_tails s ! q) (\<lambda>t. t\<lparr>t_next := task\<rparr>) s)\<lparr>ready_queue_tails := (ready_queue_tails s)[q := task]\<rparr>)"

definition remove_from_ready_queue :: "'a sched_scheme \<Rightarrow> u64 \<times> 'a sched_scheme" where
  "remove_from_ready_queue s =
     (let queue_idx = find_highest_priority_queue s
      in if queue_idx < 0 then (0, s)
         else
           let q = nat queue_idx;
               task = ready_queue_heads s ! q;
               s = s\<lparr>ready_queue_heads := (ready_queue_heads s)[q := t_next (tcbs s task)]\<rparr>;
               s = (if ready_queue_heads s ! q = 0
                    then s\<lparr>ready_queue_tails := (ready_queue_tails s)[q := 0],
                           ready_queue_bitmap := ready_queue_bitmap s AND NOT (push_bit q 1)\<rparr>
                    else s)
           in (task, upd_tcb task (\<lambda>t. t\<lparr>t_next := 0\<rparr>) s))"

text \<open>Searching a list with a pointer to the link: \<open>prev = 0\<close> stands for the head variable \<open>h\<close>, any other
  \<open>prev\<close> for the field \<open>next\<close> of that task.\<close>

definition link :: "'a sched_scheme \<Rightarrow> u64 \<Rightarrow> u64 \<Rightarrow> u64" where
  "link s h prev = (if prev = 0 then h else t_next (tcbs s prev))"

definition find_prev :: "'a sched_scheme \<Rightarrow> u64 \<Rightarrow> u64 \<Rightarrow> u64 \<Rightarrow> u64 option option" where
  "find_prev s h task prev = find_link (\<lambda>p. t_next (tcbs s p)) h task prev"

definition unqueue :: "nat \<Rightarrow> u64 \<Rightarrow> u64 option \<Rightarrow> 'a sched_scheme \<Rightarrow> 'a sched_scheme" where
  "unqueue q task found s =
     (case found of
        None \<Rightarrow> s
      | Some prev \<Rightarrow>
          let n = t_next (tcbs s task);
              s = (if prev = 0 then s\<lparr>ready_queue_heads := (ready_queue_heads s)[q := n]\<rparr>
                   else upd_tcb prev (\<lambda>t. t\<lparr>t_next := n\<rparr>) s);
              s = (if ready_queue_tails s ! q = task
                   then s\<lparr>ready_queue_tails := (ready_queue_tails s)[q := (if prev = 0 then 0 else prev + TCB_NEXT_OFFSET)]\<rparr>
                   else s)
          in if ready_queue_heads s ! q = 0 then s\<lparr>ready_queue_bitmap := ready_queue_bitmap s AND NOT (push_bit q 1)\<rparr> else s)"

partial_function (option) age_queue :: "nat \<Rightarrow> u64 \<Rightarrow> 'a sched_scheme \<Rightarrow> 'a sched_scheme option" where
  "age_queue i task s =
     (if task = 0 then Some s
      else
        let s = upd_tcb task (\<lambda>t. t\<lparr>t_wait_ticks := t_wait_ticks t + 1\<rparr>) s
        in if t_wait_ticks (tcbs s task) \<ge> AGING_THRESHOLD_TICKS \<and> t_priority (tcbs s task) < 239
           then
             let s = upd_tcb task (\<lambda>t. t\<lparr>t_priority := t_priority t + AGING_BOOST_AMOUNT\<rparr>) s;
                 new_queue = priority_to_queue (t_priority (tcbs s task))
             in if new_queue \<noteq> i
                then (case find_prev s (ready_queue_heads s ! i) task 0 of
                        None \<Rightarrow> None
                      | Some found \<Rightarrow>
                          let s = unqueue i task found s;
                              s = upd_tcb task (\<lambda>t. t\<lparr>t_wait_ticks := 0\<rparr>) s;
                              s = add_to_ready_queue task s
                          in Some (s\<lparr>stats := (stats s)\<lparr>aging_boosts := aging_boosts (stats s) + 1\<rparr>\<rparr>))
                else age_queue i (t_next (tcbs s task)) s
           else age_queue i (t_next (tcbs s task)) s)"

fun age_queues :: "nat list \<Rightarrow> 'a sched_scheme \<Rightarrow> 'a sched_scheme option" where
  "age_queues [] s = Some s"
| "age_queues (i # is) s =
     (case age_queue i (ready_queue_heads s ! i) s of None \<Rightarrow> None | Some s \<Rightarrow> age_queues is s)"

definition age_waiting_tasks :: "'a sched_scheme \<Rightarrow> 'a sched_scheme option" where
  "age_waiting_tasks s = age_queues [0..<8] s"

section \<open>Switching\<close>

definition switch_to_task :: "frame list \<Rightarrow> u64 \<Rightarrow> 'a sched_scheme \<Rightarrow> bool \<times> 'a sched_scheme" where
  "switch_to_task k next_task s =
     (if next_task = 0 then (False, s)
      else
        let n = tcbs s next_task;
            s = s\<lparr>kernel_rsp := t_kernel_stack_base n + t_kernel_stack_size n\<rparr>;
            s = (if t_cr3 n \<noteq> 0 \<and> t_cr3 n \<noteq> page_table s then s\<lparr>page_table := t_cr3 n\<rparr> else s);
            s = (if current_task s \<noteq> 0 then s\<lparr>todo := (todo s)(current_task s := k)\<rparr> else s)
        in (True, s\<lparr>current_task := next_task\<rparr>))"

definition requeue_current :: "'a sched_scheme \<Rightarrow> 'a sched_scheme" where
  "requeue_current s =
     (let c = current_task s
      in if c \<noteq> 0 \<and> t_state (tcbs s c) = TASK_STATE_RUNNING \<and> c \<noteq> idle_task s
         then add_to_ready_queue c (upd_tcb c (\<lambda>t. t\<lparr>t_preempt_count := t_preempt_count t + 1,
                t_priority := (if t_priority t > t_base_priority t then t_base_priority t else t_priority t)\<rparr>) s)
         else s)"

definition schedule :: "frame list \<Rightarrow> 'a sched_scheme \<Rightarrow> (bool \<times> 'a sched_scheme) result" where
  "schedule k s =
     (if postpone_task_switches s \<noteq> 0 then Inr (False, s\<lparr>task_switch_postponed := True\<rparr>)
      else rbind (update_time_accounting s) (\<lambda>s.
        let (next_task, s) = remove_from_ready_queue s
        in if next_task = 0
           then
             if current_task s = idle_task s \<and> current_task s = 0 then Inl Null_Deref
             else if current_task s = idle_task s \<and> t_state (tcbs s (current_task s)) = TASK_STATE_RUNNING
             then Inr (False, s\<lparr>time_slice_remaining_ns := 0\<rparr>)
             else
               let next_task = idle_task s;
                   s = requeue_current (s\<lparr>time_slice_remaining_ns := 0\<rparr>)
               in rbind (nonnull next_task (upd_tcb next_task (\<lambda>t. t\<lparr>t_state := TASK_STATE_RUNNING\<rparr>) s)) (\<lambda>s.
                    Inr (switch_to_task k next_task s))
           else
             let s = s\<lparr>time_slice_remaining_ns := calculate_time_slice (t_priority (tcbs s next_task))\<rparr>;
                 s = upd_tcb next_task (\<lambda>t. t\<lparr>t_switch_count := t_switch_count t + 1\<rparr>) s;
                 s = s\<lparr>stats := (stats s)\<lparr>total_switches := total_switches (stats s) + 1\<rparr>\<rparr>;
                 s = requeue_current s;
                 s = upd_tcb next_task (\<lambda>t. t\<lparr>t_state := TASK_STATE_RUNNING\<rparr>) s
             in Inr (switch_to_task k next_task s)))"

definition unlock_scheduler :: "frame list \<Rightarrow> 'a sched_scheme \<Rightarrow> (bool \<times> 'a sched_scheme) result" where
  "unlock_scheduler k s =
     (let s = s\<lparr>postpone_task_switches := postpone_task_switches s - 1\<rparr>;
          should_schedule = (postpone_task_switches s = 0 \<and> task_switch_postponed s);
          s = s\<lparr>scheduler_lock_count := scheduler_lock_count s - 1\<rparr>
      in if should_schedule then schedule k (s\<lparr>task_switch_postponed := False\<rparr>) else Inr (False, s))"

text \<open>The rest of a routine, when control has not gone elsewhere.\<close>

definition if_here ::
  "(bool \<times> 'a sched_scheme) result \<Rightarrow> ('a sched_scheme \<Rightarrow> (bool \<times> 'a sched_scheme) result) \<Rightarrow> (bool \<times> 'a sched_scheme) result" where
  "if_here r f = rbind r (\<lambda>(switched, s). if switched then Inr (True, s) else f s)"

definition yield :: "frame list \<Rightarrow> 'a sched_scheme \<Rightarrow> (bool \<times> 'a sched_scheme) result" where
  "yield k s =
     (let s = lock_scheduler s;
          s = (if current_task s \<noteq> 0 then upd_tcb (current_task s) (\<lambda>t. t\<lparr>t_yield_count := t_yield_count t + 1\<rparr>) s else s)
      in if_here (schedule (Do_unlock # k) s) (unlock_scheduler k))"

definition block_task :: "frame list \<Rightarrow> u8 \<Rightarrow> 'a sched_scheme \<Rightarrow> (bool \<times> 'a sched_scheme) result" where
  "block_task k reason s =
     (let s = lock_scheduler s;
          s = (if current_task s \<noteq> 0 then upd_tcb (current_task s) (\<lambda>t. t\<lparr>t_state := reason\<rparr>) s else s)
      in if_here (schedule (Do_unlock # k) s) (unlock_scheduler k))"

fun resume_frames :: "frame list \<Rightarrow> 'a sched_scheme \<Rightarrow> (bool \<times> 'a sched_scheme) result" where
  "resume_frames [] s = Inr (False, s)"
| "resume_frames (Do_unlock # k) s = if_here (unlock_scheduler k s) (resume_frames k)"
| "resume_frames (Do_block reason # k) s = if_here (block_task k reason s) (resume_frames k)"
| "resume_frames (Do_halt # k) s = Inl Diverges"

definition resume :: "'a sched_scheme \<Rightarrow> (bool \<times> 'a sched_scheme) result" where
  "resume s = resume_frames (todo s (current_task s)) s"

definition unblock_task :: "frame list \<Rightarrow> u64 \<Rightarrow> 'a sched_scheme \<Rightarrow> (bool \<times> 'a sched_scheme) result" where
  "unblock_task k task s =
     (if task = 0 then Inr (False, s)
      else
        let s = lock_scheduler s;
            s = upd_tcb task (\<lambda>t. t\<lparr>t_wakeup_count := t_wakeup_count t + 1\<rparr>) s
        in if ready_queue_bitmap s = 0 \<and> current_task s = idle_task s
           then if_here (Inr (switch_to_task (Do_unlock # k) task (upd_tcb task (\<lambda>t. t\<lparr>t_state := TASK_STATE_RUNNING\<rparr>) s)))
                  (unlock_scheduler k)
           else unlock_scheduler k (add_to_ready_queue task s))"

section \<open>Sleeping\<close>

partial_function (option) find_insert :: "'a sched_scheme \<Rightarrow> u64 \<Rightarrow> u64 \<Rightarrow> u64 option" where
  "find_insert s wake_time_ns prev =
     (let cur = link s (sleeping_tasks s) prev
      in if cur \<noteq> 0 \<and> t_sleep_expiry_ns (tcbs s cur) \<le> wake_time_ns then find_insert s wake_time_ns cur else Some prev)"

definition sleep_insert :: "u64 \<Rightarrow> u64 \<Rightarrow> 'a sched_scheme \<Rightarrow> 'a sched_scheme result" where
  "sleep_insert task wake_time_ns s =
     rbind (returns (find_insert s wake_time_ns 0)) (\<lambda>prev.
       let s = upd_tcb task (\<lambda>t. t\<lparr>t_next := link s (sleeping_tasks s) prev\<rparr>) s
       in Inr (if prev = 0 then s\<lparr>sleeping_tasks := task\<rparr> else upd_tcb prev (\<lambda>t. t\<lparr>t_next := task\<rparr>) s))"

definition nano_sleep_until :: "frame list \<Rightarrow> u64 \<Rightarrow> 'a sched_scheme \<Rightarrow> (bool \<times> 'a sched_scheme) result" where
  "nano_sleep_until k wake_time_ns s =
     (if wake_time_ns \<le> time_since_boot_ns s then Inr (False, s)
      else
        let s = lock_scheduler s
        in rbind (nonnull (current_task s) (upd_tcb (current_task s) (\<lambda>t. t\<lparr>t_sleep_expiry_ns := wake_time_ns\<rparr>) s)) (\<lambda>s.
           rbind (sleep_insert (current_task s) wake_time_ns s) (\<lambda>s.
             if_here (unlock_scheduler (Do_block TASK_STATE_SLEEPING # k) s) (block_task k TASK_STATE_SLEEPING))))"

definition nano_sleep :: "frame list \<Rightarrow> u64 \<Rightarrow> 'a sched_scheme \<Rightarrow> (bool \<times> 'a sched_scheme) result" where
  "nano_sleep k nanoseconds s = nano_sleep_until k (time_since_boot_ns s + nanoseconds) s"

definition sleep_ms :: "frame list \<Rightarrow> u64 \<Rightarrow> 'a sched_scheme \<Rightarrow> (bool \<times> 'a sched_scheme) result" where
  "sleep_ms k milliseconds s = nano_sleep k (milliseconds * 1000000) s"

definition get_time_since_boot_ns :: "'a sched_scheme \<Rightarrow> (u64 \<times> 'a sched_scheme) result" where
  "get_time_since_boot_ns s = rbind (update_time_accounting s) (\<lambda>s. Inr (time_since_boot_ns s, s))"

text \<open>The result is the return value, unless control has gone to another task (\<open>None\<close>).\<close>

definition nano_sleep_interruptible :: "frame list \<Rightarrow> u64 \<Rightarrow> 'a sched_scheme \<Rightarrow> (int option \<times> 'a sched_scheme) result" where
  "nano_sleep_interruptible k nanoseconds s =
     (if nanoseconds \<le> 0 then Inr (Some 0, s)
      else
        let task = current_task s
        in if task = 0 then Inr (Some (-1), s)
           else if t_pending_signals (tcbs s task) \<noteq> 0 then Inr (Some (-1), s)
           else rbind (get_time_since_boot_ns s) (\<lambda>(now, s).
             let wake_time = now + nanoseconds;
                 s = lock_scheduler s;
                 s = upd_tcb task (\<lambda>t. t\<lparr>t_sleep_expiry_ns := wake_time, t_state := TASK_STATE_INTERRUPTIBLE\<rparr>) s
             in rbind (sleep_insert task wake_time s) (\<lambda>s.
                rbind (if_here (unlock_scheduler (Do_block TASK_STATE_INTERRUPTIBLE # k) s) (block_task k TASK_STATE_INTERRUPTIBLE))
                  (\<lambda>(switched, s). Inr (if switched then None
                     else Some (if t_pending_signals (tcbs s task) \<noteq> 0 then -1 else 0), s)))))"

definition unsleep :: "u64 \<Rightarrow> u64 option \<Rightarrow> 'a sched_scheme \<Rightarrow> 'a sched_scheme" where
  "unsleep task found s =
     (case found of
        None \<Rightarrow> s
      | Some prev \<Rightarrow>
          let n = t_next (tcbs s task);
              s = (if prev = 0 then s\<lparr>sleeping_tasks := n\<rparr> else upd_tcb prev (\<lambda>t. t\<lparr>t_next := n\<rparr>) s)
          in upd_tcb task (\<lambda>t. t\<lparr>t_next := 0\<rparr>) s)"

definition task_wake_interruptible :: "frame list \<Rightarrow> u64 \<Rightarrow> 'a sched_scheme \<Rightarrow> (bool \<times> 'a sched_scheme) result" where
  "task_wake_interruptible k task s =
     (if task = 0 then Inr (False, s)
      else
        let s = lock_scheduler s
        in if t_state (tcbs s task) = TASK_STATE_INTERRUPTIBLE
           then rbind (returns (find_prev s (sleeping_tasks s) task 0)) (\<lambda>found.
             let s = unsleep task found s;
                 s = upd_tcb task (\<lambda>t. t\<lparr>t_wakeup_count := t_wakeup_count t + 1\<rparr>) s
             in if_here (unblock_task (Do_unlock # k) task s) (unlock_scheduler k))
           else unlock_scheduler k s)"

partial_function (option) wake_expired :: "u64 \<Rightarrow> 'a sched_scheme \<Rightarrow> 'a sched_scheme option" where
  "wake_expired task s =
     (if task \<noteq> 0 \<and> t_sleep_expiry_ns (tcbs s task) \<le> time_since_boot_ns s
      then
        let n = t_next (tcbs s task);
            s = s\<lparr>sleeping_tasks := n\<rparr>;
            s = upd_tcb task (\<lambda>t. t\<lparr>t_next := 0\<rparr>) s;
            s = (if t_state (tcbs s task) = TASK_STATE_SLEEPING \<or> t_state (tcbs s task) = TASK_STATE_INTERRUPTIBLE
                 then add_to_ready_queue task (upd_tcb task (\<lambda>t. t\<lparr>t_state := TASK_STATE_READY\<rparr>) s) else s)
        in wake_expired n s
      else Some s)"

definition spend_tick :: "'a sched_scheme \<Rightarrow> 'a sched_scheme" where
  "spend_tick s =
     (if time_slice_remaining_ns s > 0
      then s\<lparr>time_slice_remaining_ns :=
               (if time_slice_remaining_ns s \<le> 10000000 then 0 else time_slice_remaining_ns s - 10000000)\<rparr>
      else s)"

definition scheduler_timer_tick :: "'a sched_scheme \<Rightarrow> 'a sched_scheme result" where
  "scheduler_timer_tick s =
     (if \<not> scheduler_initialized s then Inr s
      else rbind (update_time_accounting s) (\<lambda>s.
        let s = s\<lparr>stats := (stats s)\<lparr>total_ticks := total_ticks (stats s) + 1\<rparr>\<rparr>
        in rbind (returns (wake_expired (sleeping_tasks s) s)) (\<lambda>s.
           rbind (if total_ticks (stats s) mod 10 = 0 then returns (age_waiting_tasks s) else Inr s) (\<lambda>s.
             Inr (spend_tick s)))))"

section \<open>Tasks\<close>

definition terminate_task :: "'a sched_scheme \<Rightarrow> (bool \<times> 'a sched_scheme) result" where
  "terminate_task s =
     (let s = lock_scheduler s;
          s = (if current_task s \<noteq> 0
               then (upd_tcb (current_task s) (\<lambda>t. t\<lparr>t_next := terminated_tasks s\<rparr>) s)\<lparr>terminated_tasks := current_task s\<rparr>
               else s)
      in if_here (if_here (block_task [Do_unlock, Do_halt] TASK_STATE_TERMINATED s) (unlock_scheduler [Do_halt]))
           (\<lambda>s. Inl Diverges))"

definition terminate_other_task :: "frame list \<Rightarrow> u64 \<Rightarrow> 'a sched_scheme \<Rightarrow> (bool \<times> 'a sched_scheme) result" where
  "terminate_other_task k task s =
     (if task = 0 \<or> task = current_task s then Inr (False, s)
      else
        let s = lock_scheduler s;
            s = upd_tcb task (\<lambda>t. t\<lparr>t_state := TASK_STATE_TERMINATED, t_next := terminated_tasks s\<rparr>) s
        in unlock_scheduler k (s\<lparr>terminated_tasks := task\<rparr>))"

definition task_set_priority :: "frame list \<Rightarrow> u64 \<Rightarrow> u8 \<Rightarrow> 'a sched_scheme \<Rightarrow> (bool \<times> 'a sched_scheme) result" where
  "task_set_priority k task new_priority s =
     (if task = 0 then Inr (False, s)
      else unlock_scheduler k (upd_tcb task (\<lambda>t. t\<lparr>t_priority := new_priority, t_base_priority := new_priority\<rparr>) (lock_scheduler s)))"

definition get_current_task :: "'a sched_scheme \<Rightarrow> u64" where
  "get_current_task s = current_task s"

definition get_current_tid :: "'a sched_scheme \<Rightarrow> u64" where
  "get_current_tid s = (if current_task s \<noteq> 0 then scast (t_tid (tcbs s (current_task s))) else 0)"

definition task_set_owner_proc :: "frame list \<Rightarrow> u64 \<Rightarrow> u64 \<Rightarrow> 'a sched_scheme \<Rightarrow> (bool \<times> 'a sched_scheme) result" where
  "task_set_owner_proc k task proc s =
     (if task = 0 then Inr (False, s)
      else unlock_scheduler k (upd_tcb task (\<lambda>t. t\<lparr>t_owner_proc := proc\<rparr>) (lock_scheduler s)))"

definition task_get_owner_proc :: "u64 \<Rightarrow> 'a sched_scheme \<Rightarrow> u64" where
  "task_get_owner_proc task s = (if task = 0 then 0 else t_owner_proc (tcbs s task))"

definition task_set_errno :: "u32 \<Rightarrow> 'a sched_scheme \<Rightarrow> 'a sched_scheme" where
  "task_set_errno err s =
     (if get_current_task s \<noteq> 0 then upd_tcb (get_current_task s) (\<lambda>t. t\<lparr>t_errno := err\<rparr>) s else s)"

definition task_get_errno :: "'a sched_scheme \<Rightarrow> u32" where
  "task_get_errno s = (if get_current_task s \<noteq> 0 then t_errno (tcbs s (get_current_task s)) else 0)"

record task_info =
  i_tid :: u32
  i_name :: string
  i_state :: u8
  i_priority :: u8
  i_time_used_ns :: u64
  i_switch_count :: u64
  i_preempt_count :: u64
  i_yield_count :: u64
  i_wakeup_count :: u64
  i_owner_pid :: u32

text \<open>The snapshots a caller asks for; \<open>pid_of\<close> reads the process identifier out of a process block, \<open>info\<close> is
  false for a null result pointer.\<close>

definition task_get_info ::
  "(u64 \<Rightarrow> u32) \<Rightarrow> frame list \<Rightarrow> u64 \<Rightarrow> bool \<Rightarrow> 'a sched_scheme \<Rightarrow> (task_info option \<times> bool \<times> 'a sched_scheme) result" where
  "task_get_info pid_of k task info s =
     (if task = 0 \<or> \<not> info then Inr (None, False, s)
      else
        let s = lock_scheduler s;
            t = tcbs s task;
            i = \<lparr>i_tid = t_tid t, i_name = take 32 (t_name t), i_state = t_state t, i_priority = t_priority t,
                 i_time_used_ns = t_time_used_ns t, i_switch_count = t_switch_count t, i_preempt_count = t_preempt_count t,
                 i_yield_count = t_yield_count t, i_wakeup_count = t_wakeup_count t,
                 i_owner_pid = (if t_owner_proc t \<noteq> 0 then pid_of (t_owner_proc t) else 0)\<rparr>
        in rbind (unlock_scheduler k s) (\<lambda>(switched, s). Inr (Some i, switched, s)))"

definition scheduler_get_stats ::
  "frame list \<Rightarrow> bool \<Rightarrow> 'a sched_scheme \<Rightarrow> (sched_stats option \<times> bool \<times> 'a sched_scheme) result" where
  "scheduler_get_stats k out s =
     (if \<not> out then Inr (None, False, s)
      else
        let s = lock_scheduler s;
            r = stats s
        in rbind (unlock_scheduler k s) (\<lambda>(switched, s). Inr (Some r, switched, s)))"

text \<open>\<open>task\<close> and \<open>stack\<close> are what the two calls of \<^verbatim>\<open>kmalloc\<close> return; a first switch to the new task enters
  \<^verbatim>\<open>task_startup_wrapper\<close>, which unlocks the scheduler.\<close>

definition create_kernel_task ::
  "u64 \<Rightarrow> u64 \<Rightarrow> u64 \<Rightarrow> u64 \<Rightarrow> frame list \<Rightarrow> u64 \<Rightarrow> string \<Rightarrow> u8 \<Rightarrow> 'a sched_scheme \<Rightarrow> (u64 \<times> bool \<times> 'a sched_scheme) result" where
  "create_kernel_task task_exit_wrapper task_startup_wrapper task stack k entry_point nm priority s =
     (if task = 0 then Inr (0, False, s)
      else
        let s = upd_tcb task (\<lambda>_. zero_tcb) s
        in if stack = 0 then Inr (0, False, s)
           else
             let top = stack + KERNEL_STACK_SIZE;
                 s = upd_tcb task (\<lambda>t. t\<lparr>t_tid := ucast (next_tid s), t_name := take 31 nm,
                       t_kernel_stack_base := stack, t_kernel_stack_size := KERNEL_STACK_SIZE, t_cr3 := page_table s,
                       t_state := TASK_STATE_READY, t_priority := priority, t_base_priority := priority, t_rsp := top - 72\<rparr>)
                       (s\<lparr>next_tid := next_tid s + 1\<rparr>);
                 s = s\<lparr>stack_words := (stack_words s)(top - 8 := task_exit_wrapper, top - 16 := entry_point,
                       top - 24 := task_startup_wrapper, top - 32 := 0, top - 40 := 0, top - 48 := 0, top - 56 := 0,
                       top - 64 := 0, top - 72 := 0)\<rparr>;
                 s = s\<lparr>todo := (todo s)(task := [Do_unlock])\<rparr>;
                 s = add_to_ready_queue task (lock_scheduler s)
             in rbind (unlock_scheduler k s) (\<lambda>(switched, s). Inr (task, switched, s)))"

definition drop_idle :: "'a sched_scheme \<Rightarrow> 'a sched_scheme" where
  "drop_idle s =
     (let q = priority_to_queue PRIORITY_IDLE;
          s = (if ready_queue_heads s ! q = idle_task s
               then
                 let s = s\<lparr>ready_queue_heads := (ready_queue_heads s)[q := t_next (tcbs s (idle_task s))]\<rparr>
                 in if ready_queue_heads s ! q = 0
                    then s\<lparr>ready_queue_tails := (ready_queue_tails s)[q := 0],
                           ready_queue_bitmap := ready_queue_bitmap s AND NOT (push_bit q 1)\<rparr>
                    else s
               else s)
      in upd_tcb (idle_task s) (\<lambda>t. t\<lparr>t_next := 0\<rparr>) s)"

definition scheduler_init ::
  "u64 \<Rightarrow> u64 \<Rightarrow> u64 \<Rightarrow> u64 \<Rightarrow> u64 \<Rightarrow> u64 \<Rightarrow> u64 \<Rightarrow> 'a sched_scheme \<Rightarrow> (bool \<times> 'a sched_scheme) result" where
  "scheduler_init task_exit_wrapper task_startup_wrapper idle_task_entry boot_task idle stack current_rsp s =
     (if scheduler_initialized s then Inr (False, s)
      else
        let s = s\<lparr>last_tsc := tsc_now s, time_since_boot_ns := 0,
                  stats := \<lparr>total_switches = 0, total_ticks = 0, idle_time_ns = 0, aging_boosts = 0\<rparr>\<rparr>
        in if boot_task = 0 then Inl Panic
           else
             let s = upd_tcb boot_task (\<lambda>_. zero_tcb\<lparr>t_name := ''boot'', t_cr3 := page_table s, t_state := TASK_STATE_RUNNING,
                       t_priority := PRIORITY_NORMAL, t_base_priority := PRIORITY_NORMAL,
                       t_kernel_stack_base := current_rsp AND NOT (KERNEL_STACK_SIZE - 1),
                       t_kernel_stack_size := KERNEL_STACK_SIZE\<rparr>) s;
                 s = s\<lparr>current_task := boot_task\<rparr>
             in rbind (create_kernel_task task_exit_wrapper task_startup_wrapper idle stack [] idle_task_entry ''idle'' PRIORITY_IDLE s)
                  (\<lambda>(idle, switched, s).
                     let s = s\<lparr>idle_task := idle\<rparr>
                     in if switched then Inr (True, s)
                        else if idle = 0 then Inl Panic
                        else if_here (unlock_scheduler [] (drop_idle (lock_scheduler s)))
                               (\<lambda>s. Inr (False, s\<lparr>scheduler_initialized := True\<rparr>))))"

end
