(* ===== verification/Scheduler_Inv.thy ===== *)
theory Scheduler_Inv
  imports Scheduler
begin

text \<open>
  The queues of the scheduler as lists: \<open>sched_inv s Q S\<close> says that ready queue \<open>i\<close> of the state \<open>s\<close> is the
  list \<open>Q i\<close> and the sleep queue is \<open>S\<close>, sorted by wake-up time, with no task in two places.  The lemmas
  give every queue operation as an operation on these lists.
\<close>

section \<open>Invariant\<close>

definition nxt :: "'a sched_scheme \<Rightarrow> u64 \<Rightarrow> u64" where
  "nxt s p = t_next (tcbs s p)"

definition queue_ok :: "'a sched_scheme \<Rightarrow> nat \<Rightarrow> u64 list \<Rightarrow> bool" where
  "queue_ok s q xs \<longleftrightarrow> chain (nxt s) (ready_queue_heads s ! q) xs \<and>
     ready_queue_tails s ! q = (if xs = [] then 0 else last xs) \<and> (bit (ready_queue_bitmap s) q \<longleftrightarrow> xs \<noteq> []) \<and>
     (\<forall>t \<in> set xs. t_state (tcbs s t) = TASK_STATE_READY)"

definition queued :: "(nat \<Rightarrow> u64 list) \<Rightarrow> u64 list \<Rightarrow> u64 set" where
  "queued Q S = (\<Union>q < 8. set (Q q)) \<union> set S"

definition sched_inv :: "'a sched_scheme \<Rightarrow> (nat \<Rightarrow> u64 list) \<Rightarrow> u64 list \<Rightarrow> bool" where
  "sched_inv s Q S \<longleftrightarrow> length (ready_queue_heads s) = 8 \<and> length (ready_queue_tails s) = 8 \<and>
     (\<forall>q < 8. queue_ok s q (Q q)) \<and>
     chain (nxt s) (sleeping_tasks s) S \<and> sorted (map (\<lambda>t. t_sleep_expiry_ns (tcbs s t)) S) \<and>
     (\<forall>q < 8. \<forall>r < 8. q \<noteq> r \<longrightarrow> set (Q q) \<inter> set (Q r) = {}) \<and> (\<forall>q < 8. set (Q q) \<inter> set S = {})"

lemma priority_to_queue_less: "priority_to_queue p < 8"
proof -
  have p: "unat p < 256" using unat_lt2p [of p] by simp
  then have "take_bit 8 (unat p) = unat p" by (simp add: take_bit_nat_eq_self)
  then have "unat (drop_bit 5 p) = unat p div 32" unfolding unsigned_drop_bit_eq by (simp add: drop_bit_eq_div)
  then show ?thesis using p unfolding priority_to_queue_def by linarith
qed

lemma nxt_upd_tcb: "nxt (upd_tcb p f s) = (nxt s)(p := t_next (f (tcbs s p)))"
  by (auto simp: nxt_def upd_tcb_def)

lemma upd_tcb_simps [simp]:
  "tcbs (upd_tcb p f s) = (tcbs s)(p := f (tcbs s p))"
  "current_task (upd_tcb p f s) = current_task s" "ready_queue_heads (upd_tcb p f s) = ready_queue_heads s"
  "ready_queue_tails (upd_tcb p f s) = ready_queue_tails s" "ready_queue_bitmap (upd_tcb p f s) = ready_queue_bitmap s"
  "sleeping_tasks (upd_tcb p f s) = sleeping_tasks s" "idle_task (upd_tcb p f s) = idle_task s"
  "postpone_task_switches (upd_tcb p f s) = postpone_task_switches s"
  "task_switch_postponed (upd_tcb p f s) = task_switch_postponed s"
  "time_since_boot_ns (upd_tcb p f s) = time_since_boot_ns s" "terminated_tasks (upd_tcb p f s) = terminated_tasks s"
  "stats (upd_tcb p f s) = stats s" "tsc_now (upd_tcb p f s) = tsc_now s" "tsc_unit (upd_tcb p f s) = tsc_unit s"
  "last_tsc (upd_tcb p f s) = last_tsc s" "todo (upd_tcb p f s) = todo s"
  by (simp_all add: upd_tcb_def)

lemma sched_invD:
  assumes "sched_inv s Q S"
  shows "length (ready_queue_heads s) = 8" "length (ready_queue_tails s) = 8" "q < 8 \<Longrightarrow> queue_ok s q (Q q)"
    "chain (nxt s) (sleeping_tasks s) S" "sorted (map (\<lambda>t. t_sleep_expiry_ns (tcbs s t)) S)"
    "q < 8 \<Longrightarrow> r < 8 \<Longrightarrow> q \<noteq> r \<Longrightarrow> set (Q q) \<inter> set (Q r) = {}" "q < 8 \<Longrightarrow> set (Q q) \<inter> set S = {}"
  using assms unfolding sched_inv_def by blast+

text \<open>Fields of tasks that the invariant does not mention, and tasks outside the queues, may change.\<close>

lemma sched_inv_cong:
  assumes "sched_inv s Q S"
    and "ready_queue_heads t = ready_queue_heads s" "ready_queue_tails t = ready_queue_tails s"
      "ready_queue_bitmap t = ready_queue_bitmap s" "sleeping_tasks t = sleeping_tasks s"
    and "\<forall>p \<in> queued Q S. t_next (tcbs t p) = t_next (tcbs s p) \<and> t_state (tcbs t p) = t_state (tcbs s p) \<and>
      t_sleep_expiry_ns (tcbs t p) = t_sleep_expiry_ns (tcbs s p)"
  shows "sched_inv t Q S"
proof -
  have q: "t_next (tcbs t p) = t_next (tcbs s p)" "t_state (tcbs t p) = t_state (tcbs s p)" if "q < 8" "p \<in> set (Q q)" for p q
    using assms(6) that by (auto simp: queued_def)
  have S: "t_next (tcbs t p) = t_next (tcbs s p)" "t_sleep_expiry_ns (tcbs t p) = t_sleep_expiry_ns (tcbs s p)" if "p \<in> set S" for p
    using assms(6) that by (auto simp: queued_def)
  have "chain (nxt t) h (Q q) = chain (nxt s) h (Q q)" if "q < 8" for q h
    using q that by (intro chain_cong) (simp add: nxt_def)
  moreover have "chain (nxt t) h S = chain (nxt s) h S" for h
    using S by (intro chain_cong) (simp add: nxt_def)
  moreover have m: "map (\<lambda>p. t_sleep_expiry_ns (tcbs t p)) S = map (\<lambda>p. t_sleep_expiry_ns (tcbs s p)) S"
    using S by simp
  moreover have "sorted (map (\<lambda>p. t_sleep_expiry_ns (tcbs t p)) S)" unfolding m using assms(1) by (simp add: sched_inv_def)
  ultimately show ?thesis using assms(1-5) q unfolding sched_inv_def queue_ok_def by auto
qed

lemma queue_member: "sched_inv s Q S \<Longrightarrow> 0 \<notin> queued Q S"
  unfolding sched_inv_def queue_ok_def queued_def using chain_nonnull by fastforce

section \<open>Ready queues\<close>

lemma chain_snoc:
  assumes "chain f p xs" "t \<notin> set xs" "t \<noteq> 0" "xs \<noteq> []"
  shows "chain (f(t := 0, last xs := t)) p (xs @ [t])"
proof -
  have c: "chain (f(t := 0)) p (xs @ [])" using assms by simp
  have "last xs \<noteq> t" using assms by auto
  moreover have "chain (f(t := 0)) t [t]" using assms(3) by simp
  ultimately show ?thesis using chain_relink [OF c assms(4), of t "[t]"] by simp
qed

lemma bit_push: "n < 8 \<Longrightarrow> bit (2 ^ q :: u8) n \<longleftrightarrow> n = q"
  by (auto simp: bit_simps)

text \<open>An operation on one ready queue leaves the others alone.\<close>

lemma sched_inv_replace:
  assumes inv: "sched_inv s Q S" and q: "q < 8"
    and len: "length (ready_queue_heads t) = 8" "length (ready_queue_tails t) = 8"
    and same: "\<forall>r < 8. r \<noteq> q \<longrightarrow> ready_queue_heads t ! r = ready_queue_heads s ! r \<and> ready_queue_tails t ! r = ready_queue_tails s ! r \<and>
      bit (ready_queue_bitmap t) r = bit (ready_queue_bitmap s) r"
    and sl: "sleeping_tasks t = sleeping_tasks s" and qk: "queue_ok t q ys"
    and off: "\<forall>p \<in> queued (Q(q := [])) S. t_next (tcbs t p) = t_next (tcbs s p) \<and> t_state (tcbs t p) = t_state (tcbs s p) \<and>
      t_sleep_expiry_ns (tcbs t p) = t_sleep_expiry_ns (tcbs s p)"
    and dj: "set ys \<inter> queued (Q(q := [])) S = {}"
  shows "sched_inv t (Q(q := ys)) S"
proof -
  note D = sched_invD [OF inv]
  have inQ: "p \<in> queued (Q(q := [])) S" if "r < 8" "r \<noteq> q" "p \<in> set (Q r)" for p r
    using that by (auto simp: queued_def)
  have inS: "p \<in> queued (Q(q := [])) S" if "p \<in> set S" for p using that by (simp add: queued_def)
  have "queue_ok t r (Q r)" if r: "r < 8" "r \<noteq> q" for r
  proof -
    have "chain (nxt t) h (Q r) = chain (nxt s) h (Q r)" for h
      using off inQ [OF r] by (intro chain_cong) (simp add: nxt_def)
    then show ?thesis using D(3) [OF r(1)] same r off inQ [OF r] by (auto simp: queue_ok_def)
  qed
  moreover have "chain (nxt t) h S = chain (nxt s) h S" for h
    using off inS by (intro chain_cong) (simp add: nxt_def)
  moreover have m: "map (\<lambda>p. t_sleep_expiry_ns (tcbs t p)) S = map (\<lambda>p. t_sleep_expiry_ns (tcbs s p)) S"
    using off inS by simp
  moreover have "sorted (map (\<lambda>p. t_sleep_expiry_ns (tcbs t p)) S)" unfolding m by (rule D(5))
  moreover have "set ys \<inter> set (Q r) = {}" if "r < 8" "r \<noteq> q" for r using dj inQ that by blast
  moreover have "set ys \<inter> set S = {}" using dj inS by blast
  ultimately show ?thesis using D len sl qk unfolding sched_inv_def by (auto simp: Int_commute)
qed

lemma add_to_ready_queue_inv:
  assumes inv: "sched_inv s Q S" and t: "t \<noteq> 0" "t \<notin> queued Q S"
  defines "q \<equiv> priority_to_queue (t_priority (tcbs s t))"
  shows "sched_inv (add_to_ready_queue t s) (Q(q := Q q @ [t])) S"
proof (rule sched_inv_replace [OF inv])
  let ?t = "add_to_ready_queue t s"
  note D = sched_invD [OF inv]
  show q: "q < 8" unfolding q_def by (rule priority_to_queue_less)
  have qq: "chain (nxt s) (ready_queue_heads s ! q) (Q q)" "ready_queue_tails s ! q = (if Q q = [] then 0 else last (Q q))"
    "\<forall>t \<in> set (Q q). t_state (tcbs s t) = TASK_STATE_READY" "bit (ready_queue_bitmap s) q \<longleftrightarrow> Q q \<noteq> []"
    using D(3) [OF q] by (auto simp: queue_ok_def)
  have em: "ready_queue_heads s ! q = 0 \<longleftrightarrow> Q q = []"
    using qq(1) chain_head [OF qq(1)] chain_nonnull [OF qq(1)] by (cases "Q q") auto
  have tq: "t \<notin> set (Q q)" using t(2) q by (auto simp: queued_def)
  have l: "last (Q q) \<in> set (Q q)" if "Q q \<noteq> []" using that by simp
  show "length (ready_queue_heads ?t) = 8" "length (ready_queue_tails ?t) = 8" "sleeping_tasks ?t = sleeping_tasks s"
    using D(1,2) by (simp_all add: add_to_ready_queue_def Let_def)
  show "\<forall>r < 8. r \<noteq> q \<longrightarrow> ready_queue_heads ?t ! r = ready_queue_heads s ! r \<and> ready_queue_tails ?t ! r = ready_queue_tails s ! r \<and>
      bit (ready_queue_bitmap ?t) r = bit (ready_queue_bitmap s) r"
    by (auto simp: add_to_ready_queue_def Let_def q_def bit_or_iff bit_push)
  show dj: "set (Q q @ [t]) \<inter> queued (Q(q := [])) S = {}"
    using t(2) D(6) [OF q] D(7) [OF q] q by (fastforce simp: queued_def split: if_splits)
  have off: "p \<noteq> last (Q q) \<or> Q q = []" if "p \<in> queued (Q(q := [])) S" for p
  proof (cases "Q q = []")
    case False
    then have "last (Q q) \<in> set (Q q @ [t])" using l by simp
    then show ?thesis using that dj by blast
  qed simp
  show "\<forall>p \<in> queued (Q(q := [])) S. t_next (tcbs ?t p) = t_next (tcbs s p) \<and> t_state (tcbs ?t p) = t_state (tcbs s p) \<and>
      t_sleep_expiry_ns (tcbs ?t p) = t_sleep_expiry_ns (tcbs s p)"
  proof
    fix p assume p: "p \<in> queued (Q(q := [])) S"
    then have "p \<noteq> t" using t(2) q by (auto simp: queued_def split: if_splits)
    then show "t_next (tcbs ?t p) = t_next (tcbs s p) \<and> t_state (tcbs ?t p) = t_state (tcbs s p) \<and>
        t_sleep_expiry_ns (tcbs ?t p) = t_sleep_expiry_ns (tcbs s p)"
      using off [OF p] em qq(2) by (auto simp: add_to_ready_queue_def Let_def q_def [symmetric])
  qed
  show "queue_ok ?t q (Q q @ [t])"
  proof (cases "Q q = []")
    case True
    then show ?thesis using em q t(1) D(1,2)
      by (simp add: queue_ok_def add_to_ready_queue_def Let_def q_def [symmetric] nxt_def bit_or_iff bit_push)
  next
    case False
    have lt: "last (Q q) \<noteq> t" using l [OF False] tq by auto
    have n: "nxt ?t = (nxt s)(t := 0, last (Q q) := t)"
      using False em qq(2) by (auto simp: add_to_ready_queue_def Let_def q_def [symmetric] nxt_def fun_eq_iff)
    have h: "ready_queue_heads ?t ! q = ready_queue_heads s ! q" "ready_queue_tails ?t ! q = t"
      "ready_queue_bitmap ?t = ready_queue_bitmap s"
      using False em q D(2) by (simp_all add: add_to_ready_queue_def Let_def q_def [symmetric])
    have "t_state (tcbs ?t p) = TASK_STATE_READY" if "p \<in> set (Q q @ [t])" for p
      using that qq(3) False em lt qq(2) by (auto simp: add_to_ready_queue_def Let_def q_def [symmetric])
    then show ?thesis unfolding queue_ok_def n h using chain_snoc [OF qq(1) tq t(1) False] qq(4) False by simp
  qed
qed

lemma add_to_ready_queue_frame:
  fixes s :: "'a sched_scheme" and t :: u64
  defines "u \<equiv> add_to_ready_queue t s"
  shows "current_task u = current_task s" "idle_task u = idle_task s" "postpone_task_switches u = postpone_task_switches s"
    "task_switch_postponed u = task_switch_postponed s" "time_since_boot_ns u = time_since_boot_ns s" "stats u = stats s"
    "todo u = todo s" "sleeping_tasks u = sleeping_tasks s" "tsc_now u = tsc_now s" "tsc_unit u = tsc_unit s" "last_tsc u = last_tsc s"
    "t_priority (tcbs u p) = t_priority (tcbs s p)" "t_sleep_expiry_ns (tcbs u p) = t_sleep_expiry_ns (tcbs s p)"
    "t_base_priority (tcbs u p) = t_base_priority (tcbs s p)" "p \<noteq> t \<Longrightarrow> t_state (tcbs u p) = t_state (tcbs s p)"
  by (simp_all add: u_def add_to_ready_queue_def Let_def)

lemma and_bit: "i < 8 \<Longrightarrow> (b :: u8) AND push_bit i 1 \<noteq> 0 \<longleftrightarrow> bit b i"
proof -
  assume "i < 8"
  then have "bit (b AND push_bit i 1) i = bit b i" "\<And>n. bit (b AND push_bit i 1) n \<Longrightarrow> n = i" by (auto simp: bit_simps)
  then show ?thesis by (metis bit_0_eq bot_apply bot_bool_def bit_eqI)
qed

lemma find_queue_top:
  "n \<le> 8 \<Longrightarrow> q < n \<Longrightarrow> bit b q \<Longrightarrow> \<forall>r. q < r \<and> r < n \<longrightarrow> \<not> bit b r \<Longrightarrow> find_queue b n = int q"
proof (induction n)
  case (Suc n)
  then show ?case using and_bit [of n b] by (cases "q = n") auto
qed simp

definition top_queue :: "(nat \<Rightarrow> u64 list) \<Rightarrow> nat \<Rightarrow> bool" where
  "top_queue Q q \<longleftrightarrow> q < 8 \<and> Q q \<noteq> [] \<and> (\<forall>r. q < r \<and> r < 8 \<longrightarrow> Q r = [])"

lemma top_queue_exists: "(\<forall>q < 8. Q q = []) \<or> (\<exists>q. top_queue Q q)"
proof (rule disjCI)
  assume "\<nexists>q. top_queue Q q"
  then have none: "\<not> top_queue Q q" for q by blast
  have e: "Q (7 - n) = []" if "n < 8" for n
    using that
  proof (induction n rule: less_induct)
    case (less n)
    have "Q r = []" if "7 - n < r" "r < 8" for r using less.IH [of "7 - r"] less.prems that by simp
    then show ?case using none [of "7 - n"] less.prems by (auto simp: top_queue_def)
  qed
  have "Q q = []" if "q < 8" for q
  proof -
    have "7 - (7 - q) = q" using that by simp
    then show ?thesis using e [of "7 - q"] by simp
  qed
  then show "\<forall>q < 8. Q q = []" by blast
qed

lemma bitmap_zero: "sched_inv s Q S \<Longrightarrow> ready_queue_bitmap s = 0 \<longleftrightarrow> (\<forall>q < 8. Q q = [])"
proof -
  assume "sched_inv s Q S"
  then have b: "bit (ready_queue_bitmap s) q \<longleftrightarrow> Q q \<noteq> []" if "q < 8" for q
    using that by (auto simp: sched_inv_def queue_ok_def)
  have "ready_queue_bitmap s = 0 \<longleftrightarrow> (\<forall>q < 8. \<not> bit (ready_queue_bitmap s) q)"
    by (auto intro: bit_word_eqI)
  then show ?thesis using b by auto
qed

lemma find_highest_top:
  assumes inv: "sched_inv s Q S"
  shows "\<forall>q < 8. Q q = [] \<Longrightarrow> find_highest_priority_queue s = -1"
    and "top_queue Q q \<Longrightarrow> find_highest_priority_queue s = int q"
proof -
  have b: "bit (ready_queue_bitmap s) q \<longleftrightarrow> Q q \<noteq> []" if "q < 8" for q
    using that inv by (auto simp: sched_inv_def queue_ok_def)
  show "\<forall>q < 8. Q q = [] \<Longrightarrow> find_highest_priority_queue s = -1"
    using bitmap_zero [OF inv] by (simp add: find_highest_priority_queue_def)
  show "find_highest_priority_queue s = int q" if q: "top_queue Q q"
    using find_queue_top [of 8 q "ready_queue_bitmap s"] b q bitmap_zero [OF inv]
    by (auto simp: find_highest_priority_queue_def top_queue_def)
qed

lemma remove_from_ready_queue_inv:
  assumes inv: "sched_inv s Q S" and q: "top_queue Q q" "Q q = x # xs"
  obtains u where "remove_from_ready_queue s = (x, u)" "sched_inv u (Q(q := xs)) S"
    "u = s\<lparr>tcbs := (tcbs s)(x := (tcbs s x)\<lparr>t_next := 0\<rparr>), ready_queue_heads := ready_queue_heads u,
           ready_queue_tails := ready_queue_tails u, ready_queue_bitmap := ready_queue_bitmap u\<rparr>"
proof -
  note D = sched_invD [OF inv]
  have q8: "q < 8" using q(1) by (simp add: top_queue_def)
  have qq: "chain (nxt s) (ready_queue_heads s ! q) (x # xs)" "ready_queue_tails s ! q = last (x # xs)"
    "\<forall>t \<in> set (x # xs). t_state (tcbs s t) = TASK_STATE_READY"
    "bit (ready_queue_bitmap s) q" using D(3) [OF q8] q(2) by (auto simp: queue_ok_def)
  have hd: "ready_queue_heads s ! q = x" "chain (nxt s) (nxt s x) xs" using qq(1) by auto
  have dx: "x \<notin> set xs" using chain_distinct [OF qq(1)] by simp
  have nx: "nxt s x = 0 \<longleftrightarrow> xs = []" using chain_head [OF hd(2)] chain_nonnull [OF hd(2)] by (cases xs) auto
  define u where "u = snd (remove_from_ready_queue s)"
  have r: "remove_from_ready_queue s = (x, u)"
    using find_highest_top(2) [OF inv q(1)] hd(1) by (simp add: u_def remove_from_ready_queue_def Let_def)
  have u: "u = s\<lparr>tcbs := (tcbs s)(x := (tcbs s x)\<lparr>t_next := 0\<rparr>), ready_queue_heads := (ready_queue_heads s)[q := nxt s x],
      ready_queue_tails := (if xs = [] then (ready_queue_tails s)[q := 0] else ready_queue_tails s),
      ready_queue_bitmap := (if xs = [] then ready_queue_bitmap s AND NOT (push_bit q 1) else ready_queue_bitmap s)\<rparr>"
    using find_highest_top(2) [OF inv q(1)] hd(1) nx D(1) q8
    by (simp add: u_def remove_from_ready_queue_def Let_def upd_tcb_def nxt_def)
  have "sched_inv u (Q(q := xs)) S"
  proof (rule sched_inv_replace [OF inv q8])
    show "length (ready_queue_heads u) = 8" "length (ready_queue_tails u) = 8" "sleeping_tasks u = sleeping_tasks s"
      using D(1,2) by (simp_all add: u)
    show "\<forall>r < 8. r \<noteq> q \<longrightarrow> ready_queue_heads u ! r = ready_queue_heads s ! r \<and> ready_queue_tails u ! r = ready_queue_tails s ! r \<and>
      bit (ready_queue_bitmap u) r = bit (ready_queue_bitmap s) r"
      by (auto simp: u bit_and_iff bit_not_iff bit_push)
    have n: "nxt u = (nxt s)(x := 0)" by (auto simp: u nxt_def)
    show "queue_ok u q xs" unfolding queue_ok_def n
      using hd(2) dx qq D(1,2) q8 by (auto simp: u bit_and_iff bit_not_iff bit_push)
    have dj: "set (x # xs) \<inter> queued (Q(q := [])) S = {}"
      using D(6) [OF q8] D(7) [OF q8] q(2) q8 by (fastforce simp: queued_def split: if_splits)
    then show "set xs \<inter> queued (Q(q := [])) S = {}" by auto
    show "\<forall>p \<in> queued (Q(q := [])) S. t_next (tcbs u p) = t_next (tcbs s p) \<and> t_state (tcbs u p) = t_state (tcbs s p) \<and>
        t_sleep_expiry_ns (tcbs u p) = t_sleep_expiry_ns (tcbs s p)"
      using dj by (auto simp: u)
  qed
  then show ?thesis using that [OF r] by (simp add: u)
qed

section \<open>Choosing the next task\<close>

definition runs :: "'a sched_scheme \<Rightarrow> (nat \<Rightarrow> u64 list) \<Rightarrow> u64 list \<Rightarrow> bool" where
  "runs s Q S \<longleftrightarrow> sched_inv s Q S \<and> current_task s \<noteq> 0 \<and> current_task s \<notin> queued Q S \<and>
     idle_task s \<noteq> 0 \<and> idle_task s \<notin> queued Q S"

definition clock_ok :: "'a sched_scheme \<Rightarrow> bool" where
  "clock_ok s \<longleftrightarrow> (\<exists>x. tsc_to_ns (tsc_unit s) (tsc_now s - last_tsc s) = Inr x)"

definition same_task :: "tcb \<Rightarrow> tcb \<Rightarrow> bool" where
  "same_task a b \<longleftrightarrow> t_next a = t_next b \<and> t_state a = t_state b \<and> t_priority a = t_priority b \<and>
     t_base_priority a = t_base_priority b \<and> t_sleep_expiry_ns a = t_sleep_expiry_ns b"

definition same_sched :: "'a sched_scheme \<Rightarrow> 'a sched_scheme \<Rightarrow> bool" where
  "same_sched s u \<longleftrightarrow> (\<forall>p. same_task (tcbs u p) (tcbs s p)) \<and> current_task u = current_task s \<and>
     ready_queue_heads u = ready_queue_heads s \<and> ready_queue_tails u = ready_queue_tails s \<and>
     ready_queue_bitmap u = ready_queue_bitmap s \<and> sleeping_tasks u = sleeping_tasks s \<and> idle_task u = idle_task s \<and>
     postpone_task_switches u = postpone_task_switches s \<and> task_switch_postponed u = task_switch_postponed s \<and> todo u = todo s \<and> tsc_unit u = tsc_unit s"

lemma same_sched_inv: "same_sched s u \<Longrightarrow> sched_inv s Q S \<Longrightarrow> sched_inv u Q S"
  by (rule sched_inv_cong) (auto simp: same_sched_def same_task_def)

lemma same_sched_trans: "same_sched s u \<Longrightarrow> same_sched u v \<Longrightarrow> same_sched s v"
  by (simp add: same_sched_def same_task_def)

lemma same_sched_runs: "same_sched s u \<Longrightarrow> runs s Q S \<Longrightarrow> runs u Q S"
  using same_sched_inv [of s u] by (simp add: runs_def same_sched_def)

lemma same_schedI:
  "(\<forall>p. same_task (f p) p) \<Longrightarrow> same_sched s (upd_tcb q f s)"
  by (simp add: same_sched_def same_task_def)

lemma update_time_accounting_same:
  assumes "clock_ok s"
  obtains u where "update_time_accounting s = Inr u" "same_sched s u"
proof -
  obtain x where x: "tsc_to_ns (tsc_unit s) (tsc_now s - last_tsc s) = Inr x" using assms by (auto simp: clock_ok_def)
  let ?u = "case update_time_accounting s of Inr u \<Rightarrow> u | Inl _ \<Rightarrow> s"
  have "update_time_accounting s = Inr ?u" using x by (simp add: update_time_accounting_def Let_def)
  moreover have "same_sched s ?u"
    using x by (simp add: update_time_accounting_def Let_def same_sched_def same_task_def)
  ultimately show ?thesis using that by blast
qed

definition back_priority :: "tcb \<Rightarrow> u8" where
  "back_priority t = (if t_priority t > t_base_priority t then t_base_priority t else t_priority t)"

lemma back_priority_state [simp]: "back_priority (t\<lparr>t_state := x\<rparr>) = back_priority t"
  by (simp add: back_priority_def)

definition requeued :: "'a sched_scheme \<Rightarrow> (nat \<Rightarrow> u64 list) \<Rightarrow> nat \<Rightarrow> u64 list" where
  "requeued s Q =
     (let c = current_task s; q = priority_to_queue (back_priority (tcbs s c))
      in if t_state (tcbs s c) = TASK_STATE_RUNNING \<and> c \<noteq> idle_task s then Q(q := Q q @ [c]) else Q)"

lemma requeued_cong:
  "same_task (tcbs u (current_task s)) (tcbs s (current_task s)) \<Longrightarrow> current_task u = current_task s \<Longrightarrow> idle_task u = idle_task s \<Longrightarrow>
   requeued u Q = requeued s Q"
  by (simp add: requeued_def same_task_def back_priority_def Let_def)

lemma queued_snoc: "q < 8 \<Longrightarrow> queued (Q(q := Q q @ [c])) S = insert c (queued Q S)"
  by (auto simp: queued_def split: if_splits)

lemma queued_requeued:
  "queued (requeued s Q) S = (if t_state (tcbs s (current_task s)) = TASK_STATE_RUNNING \<and> current_task s \<noteq> idle_task s
     then insert (current_task s) (queued Q S) else queued Q S)"
  using queued_snoc [OF priority_to_queue_less] by (simp add: requeued_def Let_def)

lemma requeue_current_inv:
  assumes inv: "sched_inv s Q S" and c: "current_task s \<noteq> 0" "current_task s \<notin> queued Q S"
  shows "sched_inv (requeue_current s) (requeued s Q) S"
    and "current_task (requeue_current s) = current_task s" "idle_task (requeue_current s) = idle_task s"
    "postpone_task_switches (requeue_current s) = postpone_task_switches s" "todo (requeue_current s) = todo s"
    "task_switch_postponed (requeue_current s) = task_switch_postponed s"
    "sleeping_tasks (requeue_current s) = sleeping_tasks s"
    "p \<noteq> current_task s \<Longrightarrow> t_state (tcbs (requeue_current s) p) = t_state (tcbs s p)"
    "back_priority (tcbs (requeue_current s) p) = back_priority (tcbs s p)" "tsc_unit (requeue_current s) = tsc_unit s"
proof -
  let ?c = "current_task s"
  let ?s = "upd_tcb ?c (\<lambda>t. t\<lparr>t_preempt_count := t_preempt_count t + 1, t_priority := back_priority t\<rparr>) s"
  have r: "requeue_current s = (if t_state (tcbs s ?c) = TASK_STATE_RUNNING \<and> ?c \<noteq> idle_task s then add_to_ready_queue ?c ?s else s)"
    using c(1) by (simp add: requeue_current_def back_priority_def Let_def)
  have "sched_inv ?s Q S" by (rule sched_inv_cong [OF inv]) simp_all
  from add_to_ready_queue_inv [OF this c] show "sched_inv (requeue_current s) (requeued s Q) S"
    using inv by (simp add: r requeued_def Let_def del: fun_upd_apply) (simp add: fun_upd_same)
  show "current_task (requeue_current s) = current_task s" "idle_task (requeue_current s) = idle_task s"
    "postpone_task_switches (requeue_current s) = postpone_task_switches s" "todo (requeue_current s) = todo s"
    "task_switch_postponed (requeue_current s) = task_switch_postponed s"
    "sleeping_tasks (requeue_current s) = sleeping_tasks s"
    by (simp_all add: r add_to_ready_queue_frame)
  show "p \<noteq> current_task s \<Longrightarrow> t_state (tcbs (requeue_current s) p) = t_state (tcbs s p)"
    by (simp add: r add_to_ready_queue_frame)
  show "back_priority (tcbs (requeue_current s) p) = back_priority (tcbs s p)" "tsc_unit (requeue_current s) = tsc_unit s"
    by (auto simp: r add_to_ready_queue_frame back_priority_def)
qed

text \<open>The last part of \<open>schedule\<close>: the chosen task becomes the running one.\<close>

lemma switch_to_task_inv:
  fixes k :: "frame list"
  assumes inv: "sched_inv s Q S" and n: "n \<noteq> 0" "n \<notin> queued Q S" and c: "current_task s \<noteq> 0"
  defines "u \<equiv> snd (switch_to_task k n (upd_tcb n (\<lambda>t. t\<lparr>t_state := TASK_STATE_RUNNING\<rparr>) s))"
  shows "switch_to_task k n (upd_tcb n (\<lambda>t. t\<lparr>t_state := TASK_STATE_RUNNING\<rparr>) s) = (True, u)" and "sched_inv u Q S"
    and "current_task u = n" "t_state (tcbs u n) = TASK_STATE_RUNNING" "idle_task u = idle_task s"
    "postpone_task_switches u = postpone_task_switches s" "task_switch_postponed u = task_switch_postponed s"
    "todo u = (todo s)(current_task s := k)" "tcbs u = (tcbs s)(n := (tcbs s n)\<lparr>t_state := TASK_STATE_RUNNING\<rparr>)"
    "tsc_unit u = tsc_unit s"
proof -
  show "switch_to_task k n (upd_tcb n (\<lambda>t. t\<lparr>t_state := TASK_STATE_RUNNING\<rparr>) s) = (True, u)"
    using n(1) by (simp add: u_def switch_to_task_def Let_def)
  have u: "ready_queue_heads u = ready_queue_heads s" "ready_queue_tails u = ready_queue_tails s"
    "ready_queue_bitmap u = ready_queue_bitmap s" "sleeping_tasks u = sleeping_tasks s"
    "tcbs u = (tcbs s)(n := (tcbs s n)\<lparr>t_state := TASK_STATE_RUNNING\<rparr>)"
    using n(1) by (simp_all add: u_def switch_to_task_def Let_def)
  show "sched_inv u Q S" by (rule sched_inv_cong [OF inv u(1-4)]) (use n(2) u(5) in auto)
  show "current_task u = n" "idle_task u = idle_task s"
    "postpone_task_switches u = postpone_task_switches s" "task_switch_postponed u = task_switch_postponed s"
    "todo u = (todo s)(current_task s := k)" "tsc_unit u = tsc_unit s"
    using n(1) c by (simp_all add: u_def switch_to_task_def Let_def)
  show "t_state (tcbs u n) = TASK_STATE_RUNNING" by (simp add: u(5))
  show "tcbs u = (tcbs s)(n := (tcbs s n)\<lparr>t_state := TASK_STATE_RUNNING\<rparr>)" by (rule u(5))
qed

text \<open>What \<open>schedule\<close> does when it is not postponed: \<open>next_of Q\<close> is the head of the highest ready queue that is not
  empty, \<open>rest_of Q\<close> the queues without it.\<close>

definition next_of :: "(nat \<Rightarrow> u64 list) \<Rightarrow> nat \<Rightarrow> u64" where
  "next_of Q q = hd (Q q)"

definition rest_of :: "(nat \<Rightarrow> u64 list) \<Rightarrow> nat \<Rightarrow> nat \<Rightarrow> u64 list" where
  "rest_of Q q = Q(q := tl (Q q))"

lemma queued_rest: "top_queue Q q \<Longrightarrow> queued (rest_of Q q) S \<subseteq> queued Q S"
  by (auto simp: queued_def rest_of_def top_queue_def split: if_splits dest: list.set_sel(2))

lemma next_not_rest:
  assumes inv: "sched_inv s Q S" and q: "top_queue Q q"
  shows "next_of Q q \<in> queued Q S" "next_of Q q \<notin> queued (rest_of Q q) S" "next_of Q q \<noteq> 0"
proof -
  note D = sched_invD [OF inv]
  obtain x xs where x: "Q q = x # xs" and q8: "q < 8" using q by (cases "Q q") (auto simp: top_queue_def)
  have c: "chain (nxt s) (ready_queue_heads s ! q) (x # xs)" using D(3) [OF q8] x by (simp add: queue_ok_def)
  then have d: "x \<notin> set xs" "x \<noteq> 0" using chain_distinct [OF c] by auto
  have "x \<notin> set (Q r)" if "r < 8" "r \<noteq> q" for r using D(6) [OF q8 that(1)] that(2) x by auto
  moreover have "x \<notin> set S" using D(7) [OF q8] x by auto
  ultimately show "next_of Q q \<notin> queued (rest_of Q q) S"
    using d x by (auto simp: queued_def rest_of_def next_of_def split: if_splits)
  show "next_of Q q \<in> queued Q S" "next_of Q q \<noteq> 0" using x q8 d by (auto simp: next_of_def queued_def intro: bexI [of _ q])
qed

lemma schedule_switches:
  assumes r: "runs s Q S" and p: "postpone_task_switches s = 0" and ck: "clock_ok s" and q: "top_queue Q q"
  shows "\<exists>u. schedule k s = Inr (True, u) \<and> current_task u = next_of Q q \<and> t_state (tcbs u (next_of Q q)) = TASK_STATE_RUNNING \<and>
    runs u (requeued s (rest_of Q q)) S \<and> todo u = (todo s)(current_task s := k) \<and> idle_task u = idle_task s \<and>
    postpone_task_switches u = 0 \<and> task_switch_postponed u = task_switch_postponed s \<and> tsc_unit u = tsc_unit s \<and>
    (\<forall>p. back_priority (tcbs u p) = back_priority (tcbs s p))"
proof -
  let ?x = "next_of Q q" and ?Q = "rest_of Q q"
  have inv: "sched_inv s Q S" using r by (simp add: runs_def)
  obtain s1 where s1: "update_time_accounting s = Inr s1" "same_sched s s1" by (rule update_time_accounting_same [OF ck])
  have r1: "runs s1 Q S" by (rule same_sched_runs [OF s1(2) r])
  then have inv1: "sched_inv s1 Q S" by (simp add: runs_def)
  have "Q q = ?x # tl (Q q)" using q by (simp add: next_of_def top_queue_def)
  then obtain s2 where s2: "remove_from_ready_queue s1 = (?x, s2)" "sched_inv s2 ?Q S"
    "s2 = s1\<lparr>tcbs := (tcbs s1)(?x := (tcbs s1 ?x)\<lparr>t_next := 0\<rparr>), ready_queue_heads := ready_queue_heads s2,
           ready_queue_tails := ready_queue_tails s2, ready_queue_bitmap := ready_queue_bitmap s2\<rparr>"
    using remove_from_ready_queue_inv [OF inv1 q, of ?x "tl (Q q)"] unfolding rest_of_def by metis
  note xn = next_not_rest [OF inv q]
  define s3 where "s3 = (upd_tcb ?x (\<lambda>t. t\<lparr>t_switch_count := t_switch_count t + 1\<rparr>)
     (s2\<lparr>time_slice_remaining_ns := calculate_time_slice (t_priority (tcbs s2 ?x))\<rparr>))
       \<lparr>stats := (stats s2)\<lparr>total_switches := total_switches (stats s2) + 1\<rparr>\<rparr>"
  have inv3: "sched_inv s3 ?Q S" by (rule sched_inv_cong [OF s2(2)]) (simp_all add: s3_def)
  have f3: "current_task s3 = current_task s" "idle_task s3 = idle_task s" "postpone_task_switches s3 = 0"
    "todo s3 = todo s" "task_switch_postponed s3 = task_switch_postponed s" "tsc_unit s3 = tsc_unit s"
    unfolding s3_def by (subst s2(3), use s1(2) p in \<open>simp add: same_sched_def\<close>)+
  have cx: "current_task s \<noteq> ?x" using r xn(1) by (auto simp: runs_def)
  have t3: "same_task (tcbs s3 (current_task s)) (tcbs s (current_task s))"
    unfolding s3_def by (subst s2(3)) (use s1(2) cx in \<open>simp add: same_sched_def same_task_def\<close>)
  have b3: "back_priority (tcbs s3 p) = back_priority (tcbs s p)" for p
    unfolding s3_def by (subst s2(3)) (use s1(2) in \<open>simp add: same_sched_def same_task_def back_priority_def\<close>)
  have c3: "current_task s3 \<noteq> 0" "current_task s3 \<notin> queued ?Q S"
    using r queued_rest [OF q] by (auto simp: f3 runs_def)
  note rq = requeue_current_inv [OF inv3 c3]
  have rqd: "requeued s3 ?Q = requeued s ?Q" using t3 f3 by (intro requeued_cong) simp_all
  have xq: "?x \<notin> queued (requeued s ?Q) S" using xn(2) cx by (simp add: queued_requeued)
  have c4: "current_task (requeue_current s3) \<noteq> 0" using c3 rq(2) by simp
  note sw = switch_to_task_inv [OF rq(1) [unfolded rqd] xn(3) xq c4, of k]
  have res: "schedule k s = Inr (switch_to_task k ?x (upd_tcb ?x (\<lambda>t. t\<lparr>t_state := TASK_STATE_RUNNING\<rparr>) (requeue_current s3)))"
    using p s1(1) s2(1) xn(3) by (simp add: schedule_def Let_def s3_def upd_tcb_def)
  have "idle_task s \<notin> queued (requeued s ?Q) S"
    using r queued_rest [OF q] by (auto simp: queued_requeued runs_def)
  moreover have "schedule k s = Inr (True, snd (switch_to_task k ?x (upd_tcb ?x (\<lambda>t. t\<lparr>t_state := TASK_STATE_RUNNING\<rparr>) (requeue_current s3))))"
    using res sw(1) by (rule trans [OF _ arg_cong])
  moreover have "back_priority (tcbs (snd (switch_to_task k ?x (upd_tcb ?x (\<lambda>t. t\<lparr>t_state := TASK_STATE_RUNNING\<rparr>) (requeue_current s3)))) p) = back_priority (tcbs s p)" for p
    unfolding sw(9) using rq(9) [of p] b3 [of p] by (cases "p = ?x") simp_all
  ultimately show ?thesis using sw(2-10) rq(2-6,10) f3 xq xn(3) r unfolding runs_def by metis
qed

lemma schedule_idle:
  assumes r: "runs s Q S" and p: "postpone_task_switches s = 0" and ck: "clock_ok s" and e: "\<forall>q < 8. Q q = []"
  shows "current_task s = idle_task s \<Longrightarrow> t_state (tcbs s (current_task s)) = TASK_STATE_RUNNING \<Longrightarrow>
      \<exists>u. schedule k s = Inr (False, u) \<and> same_sched s u"
    and "current_task s \<noteq> idle_task s \<Longrightarrow>
      \<exists>u. schedule k s = Inr (True, u) \<and> current_task u = idle_task s \<and> t_state (tcbs u (idle_task s)) = TASK_STATE_RUNNING \<and>
        runs u (requeued s Q) S \<and> todo u = (todo s)(current_task s := k) \<and> idle_task u = idle_task s \<and>
        postpone_task_switches u = 0 \<and> task_switch_postponed u = task_switch_postponed s"
proof -
  obtain s1 where s1: "update_time_accounting s = Inr s1" "same_sched s s1" by (rule update_time_accounting_same [OF ck])
  have r1: "runs s1 Q S" by (rule same_sched_runs [OF s1(2) r])
  then have inv1: "sched_inv s1 Q S" by (simp add: runs_def)
  have rm: "remove_from_ready_queue s1 = (0, s1)"
    using find_highest_top(1) [OF inv1 e] by (simp add: remove_from_ready_queue_def)
  have f1: "current_task s1 = current_task s" "idle_task s1 = idle_task s" "postpone_task_switches s1 = 0" "todo s1 = todo s"
    "task_switch_postponed s1 = task_switch_postponed s" "t_state (tcbs s1 (current_task s)) = t_state (tcbs s (current_task s))"
    using s1(2) p by (auto simp: same_sched_def same_task_def)
  have n0: "current_task s \<noteq> 0" "idle_task s \<noteq> 0" "idle_task s \<notin> queued Q S" "current_task s \<notin> queued Q S"
    using r by (auto simp: runs_def)
  show "\<exists>u. schedule k s = Inr (False, u) \<and> same_sched s u"
    if "current_task s = idle_task s" "t_state (tcbs s (current_task s)) = TASK_STATE_RUNNING"
  proof -
    have "schedule k s = Inr (False, s1\<lparr>time_slice_remaining_ns := 0\<rparr>)"
      using p s1(1) rm f1 n0 that by (simp add: schedule_def)
    moreover have "same_sched s (s1\<lparr>time_slice_remaining_ns := 0\<rparr>)" using s1(2) by (simp add: same_sched_def)
    ultimately show ?thesis by blast
  qed
  assume ne: "current_task s \<noteq> idle_task s"
  define s2 where "s2 = s1\<lparr>time_slice_remaining_ns := 0\<rparr>"
  have inv2: "sched_inv s2 Q S" by (rule sched_inv_cong [OF inv1]) (simp_all add: s2_def)
  have f2: "current_task s2 = current_task s" "idle_task s2 = idle_task s" "postpone_task_switches s2 = 0" "todo s2 = todo s"
    "task_switch_postponed s2 = task_switch_postponed s" "same_task (tcbs s2 (current_task s)) (tcbs s (current_task s))"
    using f1 s1(2) by (auto simp: s2_def same_sched_def)
  have c2: "current_task s2 \<noteq> 0" "current_task s2 \<notin> queued Q S" using n0 f2 by simp_all
  note rq = requeue_current_inv [OF inv2 c2]
  have rqd: "requeued s2 Q = requeued s Q" using f2 by (intro requeued_cong) simp_all
  have iq: "idle_task s \<notin> queued (requeued s Q) S" using n0 ne by (simp add: queued_requeued)
  have c3: "current_task (requeue_current s2) \<noteq> 0" using c2 rq(2) by simp
  note sw = switch_to_task_inv [OF rq(1) [unfolded rqd] n0(2) iq c3, of k]
  have "schedule k s = Inr (switch_to_task k (idle_task s) (upd_tcb (idle_task s) (\<lambda>t. t\<lparr>t_state := TASK_STATE_RUNNING\<rparr>) (requeue_current s2)))"
    using p s1(1) rm f1 f2 n0 ne rq(3) by (simp add: schedule_def nonnull_def s2_def Let_def)
  then have "schedule k s = Inr (True, snd (switch_to_task k (idle_task s) (upd_tcb (idle_task s) (\<lambda>t. t\<lparr>t_state := TASK_STATE_RUNNING\<rparr>) (requeue_current s2))))"
    using sw(1) by (rule trans [OF _ arg_cong])
  then show "\<exists>u. schedule k s = Inr (True, u) \<and> current_task u = idle_task s \<and> t_state (tcbs u (idle_task s)) = TASK_STATE_RUNNING \<and>
        runs u (requeued s Q) S \<and> todo u = (todo s)(current_task s := k) \<and> idle_task u = idle_task s \<and>
        postpone_task_switches u = 0 \<and> task_switch_postponed u = task_switch_postponed s"
    using sw(2-10) rq(2-6) f2 iq n0 unfolding runs_def by metis
qed

end
