(* ===== verification/Scheduler_Contract.thy ===== *)
theory Scheduler_Contract
  imports Scheduler_Inv
begin

text \<open>
  Sleeping and waking as operations on the sorted sleep list, aging, and the properties of the scheduler.
\<close>

section \<open>Searching the lists\<close>

lemma link_next: "prev \<noteq> 0 \<Longrightarrow> link s h prev = nxt s prev"
  by (simp add: link_def nxt_def)

lemma find_insert_eq:
  "chain (nxt s) (link s (sleeping_tasks s) prev) xs \<Longrightarrow>
   find_insert s w prev = Some (last (prev # takeWhile (\<lambda>t. t_sleep_expiry_ns (tcbs s t) \<le> w) xs))"
proof (induction xs arbitrary: prev)
  case Nil
  then show ?case by (subst find_insert.simps) simp
next
  case (Cons x xs)
  then have x: "link s (sleeping_tasks s) prev = x" "x \<noteq> 0" "chain (nxt s) (link s (sleeping_tasks s) x) xs"
    by (simp_all add: link_next)
  show ?case using Cons.IH [OF x(3)] x(1,2) by (subst find_insert.simps) simp
qed

section \<open>Sleeping and waking\<close>

text \<open>An operation on the sleep list leaves the ready queues alone.\<close>

lemma sched_inv_sleep:
  assumes inv: "sched_inv s Q S"
    and same: "ready_queue_heads u = ready_queue_heads s" "ready_queue_tails u = ready_queue_tails s"
      "ready_queue_bitmap u = ready_queue_bitmap s"
    and off: "\<forall>p. (\<exists>q < 8. p \<in> set (Q q)) \<longrightarrow> t_next (tcbs u p) = t_next (tcbs s p) \<and> t_state (tcbs u p) = t_state (tcbs s p)"
    and ch: "chain (nxt u) (sleeping_tasks u) S'" and so: "sorted (map (\<lambda>t. t_sleep_expiry_ns (tcbs u t)) S')"
    and dj: "\<forall>q < 8. set (Q q) \<inter> set S' = {}"
  shows "sched_inv u Q S'"
proof -
  have "queue_ok u q (Q q)" if q: "q < 8" for q
  proof -
    have "chain (nxt u) h (Q q) = chain (nxt s) h (Q q)" for h
      using off q by (intro chain_cong) (auto simp: nxt_def)
    then show ?thesis using sched_invD(3) [OF inv q] same off q by (auto simp: queue_ok_def)
  qed
  then show ?thesis using inv same ch so dj unfolding sched_inv_def by simp
qed

lemma sorted_insert_at:
  assumes "sorted (map e xs)"
  shows "(\<forall>t \<in> set (takeWhile (\<lambda>t. e t \<le> w) xs). e t \<le> w) \<and> (\<forall>t \<in> set (dropWhile (\<lambda>t. e t \<le> w) xs). (w :: u64) < e t)"
  using assms
proof (induction xs)
  case Nil
  then show ?case by simp
next
  case (Cons x xs)
  then show ?case by (auto dest: set_takeWhileD)
qed

lemma sleep_insert_inv:
  assumes inv: "sched_inv s Q S" and t: "t \<noteq> 0" "t \<notin> queued Q S" and w: "t_sleep_expiry_ns (tcbs s t) = w"
  defines "A \<equiv> takeWhile (\<lambda>p. t_sleep_expiry_ns (tcbs s p) \<le> w) S" and "B \<equiv> dropWhile (\<lambda>p. t_sleep_expiry_ns (tcbs s p) \<le> w) S"
  shows "\<exists>u. sleep_insert t w s = Inr u \<and> sched_inv u Q (A @ t # B) \<and>
    (\<exists>f. u = s\<lparr>tcbs := f, sleeping_tasks := sleeping_tasks u\<rparr> \<and> (\<forall>p. \<exists>n. f p = (tcbs s p)\<lparr>t_next := n\<rparr>))"
proof -
  note D = sched_invD [OF inv]
  have S: "S = A @ B" by (simp add: A_def B_def)
  have ch: "chain (nxt s) (sleeping_tasks s) (A @ B)" using D(4) S by simp
  define prev where "prev = last (0 # A)"
  have fi: "find_insert s w 0 = Some prev"
    using find_insert_eq [of s 0 S w] D(4) by (simp add: link_def A_def prev_def)
  have pz: "prev = 0 \<longleftrightarrow> A = []" 
  proof (cases "A = []")
    case False
    then have "last A \<in> set (A @ B)" by simp
    then have "last A \<noteq> 0" using chain_nonnull [OF ch] by metis
    then show ?thesis using False by (simp add: prev_def)
  qed (simp add: prev_def)
  have pl: "A \<noteq> [] \<Longrightarrow> prev = last A" by (simp add: prev_def)
  define b where "b = link s (sleeping_tasks s) prev"
  have cb: "chain (nxt s) b B"
  proof (cases "A = []")
    case True
    then show ?thesis using ch pz by (simp add: b_def link_def)
  next
    case False
    then obtain A' where A': "A = A' @ [prev]" using pl by (metis append_butlast_last_id)
    then have "chain (nxt s) prev (prev # B)" using ch chain_append [of "nxt s" "sleeping_tasks s" A' prev B] by simp
    then show ?thesis by (simp add: b_def link_def nxt_def)
  qed
  define u where "u = (let s1 = upd_tcb t (\<lambda>t. t\<lparr>t_next := b\<rparr>) s in if prev = 0 then s1\<lparr>sleeping_tasks := t\<rparr> else upd_tcb prev (\<lambda>x. x\<lparr>t_next := t\<rparr>) s1)"
  have res: "sleep_insert t w s = Inr u" by (simp add: sleep_insert_def fi u_def b_def Let_def)
  have tS: "t \<notin> set A" "t \<notin> set B" using t(2) S by (auto simp: queued_def)
  have tp: "t \<noteq> prev" using tS t(1) pz pl last_in_set [of A] by metis
  have tu: "tcbs u p = (tcbs s p)\<lparr>t_next := (if p = prev \<and> prev \<noteq> 0 then t else if p = t then b else t_next (tcbs s p))\<rparr>" for p
    using tp by (simp add: u_def Let_def)
  have fld: "\<exists>n. tcbs u p = (tcbs s p)\<lparr>t_next := n\<rparr>" for p unfolding tu by (rule exI, rule refl)
  have e: "t_sleep_expiry_ns (tcbs u p) = t_sleep_expiry_ns (tcbs s p)" "t_state (tcbs u p) = t_state (tcbs s p)" for p
    by (simp_all add: tu)
  have n: "nxt u = (if prev = 0 then (nxt s)(t := b) else (nxt s)(t := b, prev := t))"
    using tp by (auto simp: tu nxt_def fun_eq_iff)
  have sl: "sleeping_tasks u = (if prev = 0 then t else sleeping_tasks s)" by (simp add: u_def Let_def)
  have ct: "chain ((nxt s)(t := b)) t (t # B)" using cb t(1) tS by simp
  have "chain (nxt u) (sleeping_tasks u) (A @ t # B)"
  proof (cases "A = []")
    case True
    then show ?thesis using ct pz n sl by simp
  next
    case False
    have "chain ((nxt s)(t := b)) (sleeping_tasks s) (A @ B)" using ch tS by simp
    moreover have "last A \<notin> set (t # B)" 
      using last_notin_tail [OF chain_distinct [OF ch] False] last_in_set [OF False] tS by (metis set_ConsD)
    ultimately have "chain ((nxt s)(t := b, last A := t)) (sleeping_tasks s) (A @ t # B)" by (rule chain_relink [OF _ False ct])
    then show ?thesis using False pz pl n sl by simp
  qed
  moreover have "sorted (map (\<lambda>p. t_sleep_expiry_ns (tcbs u p)) (A @ t # B))"
    using sorted_insert_at [OF D(5), of w] w D(5) [unfolded S] unfolding e A_def [symmetric] B_def [symmetric]
    by (auto simp: sorted_append less_imp_le)
  moreover have pq: "p \<noteq> t \<and> p \<noteq> prev" if "q < 8" "p \<in> set (Q q)" for p q
  proof -
    have "p \<noteq> 0" using queue_member [OF inv] that by (auto simp: queued_def)
    moreover have "prev \<in> set S" if "A \<noteq> []" using pl [OF that] last_in_set [OF that] S by simp
    ultimately show ?thesis using that t(2) D(7) [OF that(1)] pz by (auto simp: queued_def)
  qed
  moreover have "\<forall>q < 8. set (Q q) \<inter> set (A @ t # B) = {}" using pq D(7) S by fastforce
  moreover have "\<forall>p. (\<exists>q < 8. p \<in> set (Q q)) \<longrightarrow> t_next (tcbs u p) = t_next (tcbs s p) \<and> t_state (tcbs u p) = t_state (tcbs s p)"
    using pq by (auto simp: tu)
  ultimately have "sched_inv u Q (A @ t # B)"
    by (intro sched_inv_sleep [OF inv]) (simp_all add: u_def Let_def)
  moreover have "u = s\<lparr>tcbs := tcbs u, sleeping_tasks := sleeping_tasks u\<rparr>" by (simp add: u_def Let_def upd_tcb_def)
  ultimately show ?thesis using res fld by blast
qed

definition wakes :: "tcb \<Rightarrow> bool" where
  "wakes t \<longleftrightarrow> t_state t = TASK_STATE_SLEEPING \<or> t_state t = TASK_STATE_INTERRUPTIBLE"

definition wake_one :: "'a sched_scheme \<Rightarrow> u64 \<Rightarrow> (nat \<Rightarrow> u64 list) \<Rightarrow> nat \<Rightarrow> u64 list" where
  "wake_one s t Q = (let q = priority_to_queue (t_priority (tcbs s t)) in if wakes (tcbs s t) then Q(q := Q q @ [t]) else Q)"

abbreviation expired :: "'a sched_scheme \<Rightarrow> u64 \<Rightarrow> bool" where
  "expired s t \<equiv> t_sleep_expiry_ns (tcbs s t) \<le> time_since_boot_ns s"

lemma wake_head_inv:
  assumes inv: "sched_inv s Q (x # S)"
  defines "s1 \<equiv> upd_tcb x (\<lambda>t. t\<lparr>t_next := 0\<rparr>) (s\<lparr>sleeping_tasks := t_next (tcbs s x)\<rparr>)"
  defines "s2 \<equiv> (if wakes (tcbs s1 x) then add_to_ready_queue x (upd_tcb x (\<lambda>t. t\<lparr>t_state := TASK_STATE_READY\<rparr>) s1) else s1)"
  shows "sched_inv s2 (wake_one s x Q) S" "sleeping_tasks s2 = nxt s x"
    "current_task s2 = current_task s" "idle_task s2 = idle_task s" "time_since_boot_ns s2 = time_since_boot_ns s"
    "postpone_task_switches s2 = postpone_task_switches s" "task_switch_postponed s2 = task_switch_postponed s"
    "p \<noteq> x \<Longrightarrow> t_state (tcbs s2 p) = t_state (tcbs s p)" "t_priority (tcbs s2 p) = t_priority (tcbs s p)"
    "t_sleep_expiry_ns (tcbs s2 p) = t_sleep_expiry_ns (tcbs s p)" "stats s2 = stats s"
proof -
  note D = sched_invD [OF inv]
  have ch: "chain (nxt s) (nxt s x) S" "x \<noteq> 0" "x \<notin> set S" using D(4) chain_distinct [OF D(4)] by auto
  have xq: "x \<notin> queued Q S" using D(7) ch(3) by (auto simp: queued_def)
  have n1: "nxt s1 = (nxt s)(x := 0)" by (auto simp: s1_def nxt_def)
  have inv1: "sched_inv s1 Q S"
  proof (rule sched_inv_sleep [OF inv])
    show "chain (nxt s1) (sleeping_tasks s1) S" unfolding n1 using ch by (simp add: s1_def nxt_def)
    have "t_sleep_expiry_ns (tcbs s1 p) = t_sleep_expiry_ns (tcbs s p)" for p by (simp add: s1_def)
    then show "sorted (map (\<lambda>t. t_sleep_expiry_ns (tcbs s1 t)) S)" using D(5) by simp
    show "\<forall>q < 8. set (Q q) \<inter> set S = {}" using D(7) by auto
    show "\<forall>p. (\<exists>q < 8. p \<in> set (Q q)) \<longrightarrow> t_next (tcbs s1 p) = t_next (tcbs s p) \<and> t_state (tcbs s1 p) = t_state (tcbs s p)"
      using xq by (auto simp: s1_def queued_def)
  qed (simp_all add: s1_def)
  let ?s = "upd_tcb x (\<lambda>t. t\<lparr>t_state := TASK_STATE_READY\<rparr>) s1"
  have "sched_inv ?s Q S" by (rule sched_inv_cong [OF inv1]) (use xq in auto)
  from add_to_ready_queue_inv [OF this ch(2) xq] show "sched_inv s2 (wake_one s x Q) S"
    using inv1 by (simp add: s2_def wake_one_def s1_def wakes_def Let_def)
  show "sleeping_tasks s2 = nxt s x" "current_task s2 = current_task s" "idle_task s2 = idle_task s"
    "time_since_boot_ns s2 = time_since_boot_ns s" "postpone_task_switches s2 = postpone_task_switches s"
    "task_switch_postponed s2 = task_switch_postponed s" "t_priority (tcbs s2 p) = t_priority (tcbs s p)"
    "t_sleep_expiry_ns (tcbs s2 p) = t_sleep_expiry_ns (tcbs s p)" "stats s2 = stats s"
    by (simp_all add: s2_def s1_def add_to_ready_queue_frame nxt_def)
  show "p \<noteq> x \<Longrightarrow> t_state (tcbs s2 p) = t_state (tcbs s p)"
    by (simp add: s2_def s1_def add_to_ready_queue_frame)
qed

lemma wake_expired_inv:
  "sched_inv s Q S \<Longrightarrow>
   \<exists>u. wake_expired (sleeping_tasks s) s = Some u \<and>
     sched_inv u (fold (wake_one s) (takeWhile (expired s) S) Q) (dropWhile (expired s) S) \<and>
     current_task u = current_task s \<and> idle_task u = idle_task s \<and> time_since_boot_ns u = time_since_boot_ns s \<and> stats u = stats s"
proof (induction S arbitrary: s Q)
  case Nil
  then have "sleeping_tasks s = 0" by (simp add: sched_inv_def)
  then show ?case using Nil by (subst wake_expired.simps) simp
next
  case (Cons x S)
  have h: "sleeping_tasks s = x" "x \<noteq> 0" "x \<notin> set S"
    using sched_invD(4) [OF Cons.prems] chain_distinct [OF sched_invD(4) [OF Cons.prems]] by auto
  show ?case
  proof (cases "expired s x")
    case False
    then show ?thesis using Cons.prems h by (subst wake_expired.simps) simp
  next
    case True
    define s1 where "s1 = upd_tcb x (\<lambda>t. t\<lparr>t_next := 0\<rparr>) (s\<lparr>sleeping_tasks := t_next (tcbs s x)\<rparr>)"
    define s2 where "s2 = (if wakes (tcbs s1 x) then add_to_ready_queue x (upd_tcb x (\<lambda>t. t\<lparr>t_state := TASK_STATE_READY\<rparr>) s1) else s1)"
    note w = wake_head_inv [OF Cons.prems, folded s1_def, folded s2_def]
    have e: "expired s2 p = expired s p" "p \<in> set S \<Longrightarrow> wake_one s2 p = wake_one s p" for p
      using w(5) w(8) [of p] w(9,10) [of p] h(3) by (cases "p = x"; simp add: wake_one_def wakes_def fun_eq_iff)+
    have eq: "takeWhile (expired s2) S = takeWhile (expired s) S" "dropWhile (expired s2) S = dropWhile (expired s) S"
      using e(1) by (simp_all cong: takeWhile_cong dropWhile_cong)
    have fo: "fold (wake_one s2) (takeWhile (expired s) S) Q' = fold (wake_one s) (takeWhile (expired s) S) Q'" for Q'
      by (rule fold_cong) (auto intro: e(2) dest: set_takeWhileD)
    have "wake_expired (sleeping_tasks s) s = wake_expired (sleeping_tasks s2) s2"
      unfolding w(2) using True h by (subst wake_expired.simps) (simp add: Let_def s2_def s1_def wakes_def nxt_def)
    then show ?thesis using Cons.IH [OF w(1)] w(3-5,11) True unfolding eq fo by simp
  qed
qed

lemma sorted_split:
  assumes "sorted (map e xs)"
  shows "takeWhile (\<lambda>t. e t \<le> (w :: u64)) xs = filter (\<lambda>t. e t \<le> w) xs" "dropWhile (\<lambda>t. e t \<le> w) xs = filter (\<lambda>t. w < e t) xs"
proof -
  note i = sorted_insert_at [OF assms, of w]
  have "filter P xs = filter P (takeWhile (\<lambda>t. e t \<le> w) xs) @ filter P (dropWhile (\<lambda>t. e t \<le> w) xs)" for P
    by (simp flip: filter_append)
  then show "takeWhile (\<lambda>t. e t \<le> w) xs = filter (\<lambda>t. e t \<le> w) xs" "dropWhile (\<lambda>t. e t \<le> w) xs = filter (\<lambda>t. w < e t) xs"
    using i by (auto simp: filter_empty_conv filter_id_conv not_le)
qed

lemma spend_tick_same: "same_sched s (spend_tick s)" "time_since_boot_ns (spend_tick s) = time_since_boot_ns s"
  by (simp_all add: spend_tick_def same_sched_def same_task_def)

section \<open>Turns\<close>

text \<open>A clock of at least one gigahertz never makes the conversion to nanoseconds fault.\<close>

lemma clock_ok_fast: "tsc_frequency (tsc_unit s) \<ge> 1000000000 \<Longrightarrow> clock_ok s"
proof -
  let ?f = "tsc_frequency (tsc_unit s)" and ?d = "tsc_now s - last_tsc s"
  assume f: "?f \<ge> 1000000000"
  then have f': "1000000000 \<le> unat ?f" unfolding word_le_nat_alt by simp
  have "unat ?d * 1000000000 div unat ?f \<le> unat ?d * 1000000000 div 1000000000" by (rule div_le_mono2) (use f' in auto)
  also have "\<dots> < 2 ^ 64" using unat_lt2p [of ?d] by simp
  finally have "unat ?d * 1000000000 div unat ?f < 2 ^ 64" .
  then show ?thesis using f f' mul_div64_small [of ?f ?d 1000000000] by (auto simp: clock_ok_def tsc_to_ns_def)
qed

text \<open>Consecutive calls of \<open>schedule\<close>, one for each reading of the clock.\<close>

fun turns :: "u64 list \<Rightarrow> 'a sched_scheme \<Rightarrow> 'a sched_scheme result" where
  "turns [] s = Inr s"
| "turns (t # ts) s = rbind (schedule [] (s\<lparr>tsc_now := t\<rparr>)) (\<lambda>(_, s). turns ts s)"

lemma turns_rotate:
  "runs s Q S \<Longrightarrow> postpone_task_switches s = 0 \<Longrightarrow> tsc_frequency (tsc_unit s) \<ge> 1000000000 \<Longrightarrow> top_queue Q q \<Longrightarrow>
   t_state (tcbs s (current_task s)) = TASK_STATE_RUNNING \<Longrightarrow> current_task s \<noteq> idle_task s \<Longrightarrow>
   \<forall>t \<in> set (current_task s # Q q). priority_to_queue (back_priority (tcbs s t)) = q \<Longrightarrow>
   \<exists>u. turns ts s = Inr u \<and> current_task u = hd (rotate (length ts) (current_task s # Q q))"
proof (induction ts arbitrary: s Q)
  case Nil
  then show ?case by simp
next
  case (Cons t ts)
  let ?s = "s\<lparr>tsc_now := t\<rparr>" and ?c = "current_task s"
  let ?Q = "requeued ?s (rest_of Q q)"
  have r: "runs ?s Q S" by (rule same_sched_runs [OF _ Cons.prems(1)]) (simp add: same_sched_def same_task_def)
  have ck: "clock_ok ?s" using Cons.prems(3) by (intro clock_ok_fast) simp
  obtain u where u: "schedule [] ?s = Inr (True, u)" "current_task u = next_of Q q" "t_state (tcbs u (next_of Q q)) = TASK_STATE_RUNNING"
    "runs u ?Q S" "idle_task u = idle_task s" "postpone_task_switches u = 0" "tsc_unit u = tsc_unit s"
    "\<forall>p. back_priority (tcbs u p) = back_priority (tcbs s p)"
    using schedule_switches [OF r _ ck Cons.prems(4), of "[]"] Cons.prems(2) by auto
  obtain x xs where x: "Q q = x # xs" using Cons.prems(4) by (cases "Q q") (auto simp: top_queue_def)
  have Qq: "?Q q = xs @ [?c]" and Qr: "r \<noteq> q \<Longrightarrow> ?Q r = Q r" for r
    using Cons.prems(5-7) x by (simp_all add: requeued_def rest_of_def Let_def)
  have top: "top_queue ?Q q" using Cons.prems(4) Qq Qr by (simp add: top_queue_def)
  have nx: "current_task u = x" using u(2) x by (simp add: next_of_def)
  have "x \<noteq> idle_task s"
    using next_not_rest(1) [of s Q S q] x Cons.prems(1,4) by (auto simp: runs_def next_of_def)
  then obtain v where "turns ts u = Inr v" "current_task v = hd (rotate (length ts) (x # xs @ [?c]))"
    using Cons.IH [OF u(4) u(6) _ top] Cons.prems(3,7) u(2,3,5,7,8) Qq nx x by auto
  moreover have "rotate (length (t # ts)) (?c # x # xs) = rotate (length ts) (x # xs @ [?c])"
    by (simp add: rotate1_rotate_swap)
  ultimately show ?case using u(1) x by simp
qed

section \<open>A small system\<close>

text \<open>Four tasks: the idle task, a running task and two ready ones of the same priority.\<close>

definition task0 :: "u8 \<Rightarrow> u64 \<Rightarrow> tcb" where
  "task0 st next_task = zero_tcb\<lparr>t_state := st, t_priority := PRIORITY_NORMAL, t_base_priority := PRIORITY_NORMAL, t_next := next_task\<rparr>"

definition sched0 :: sched where
  "sched0 = \<lparr>tcbs = (\<lambda>_. zero_tcb)(0x1000 := zero_tcb, 0x2000 := task0 TASK_STATE_RUNNING 0,
       0x3000 := task0 TASK_STATE_READY 0x4000, 0x4000 := task0 TASK_STATE_READY 0),
     current_task = 0x2000, ready_queue_heads = [0, 0, 0, 0, 0x3000, 0, 0, 0], ready_queue_tails = [0, 0, 0, 0, 0x4000, 0, 0, 0],
     ready_queue_bitmap = 16, sleeping_tasks = 0, terminated_tasks = 0, idle_task = 0x1000, next_tid = 5, scheduler_lock_count = 0,
     postpone_task_switches = 0, task_switch_postponed = False, time_since_boot_ns = 0, last_tsc = 0, time_slice_remaining_ns = 0,
     scheduler_initialized = True, stats = \<lparr>total_switches = 0, total_ticks = 0, idle_time_ns = 0, aging_boosts = 0\<rparr>,
     stack_words = (\<lambda>_. 0), kernel_rsp = 0, page_table = 0, tsc_now = 0,
     tsc_unit = \<lparr>tsc_boot = 0, tsc_frequency = 2400000000, tsc_available = True, tsc_invariant = True, tsc_constant = True,
       tsc_rdtscp_available = True, tsc_deadline_available = False, calibration_method = TSC_CALIB_CPUID\<rparr>,
     todo = (\<lambda>_. [Do_unlock])\<rparr>"

definition ready0 :: "nat \<Rightarrow> u64 list" where
  "ready0 q = (if q = 4 then [0x3000, 0x4000] else [])"

lemma all_less_8: "(\<forall>q < 8. P q) \<longleftrightarrow> (\<forall>q \<in> {0, 1, 2, 3, 4, 5, 6, 7 :: nat}. P q)"
proof -
  have "{..<8} = {0, 1, 2, 3, 4, 5, 6, 7 :: nat}" by (simp add: lessThan_nat_numeral lessThan_Suc insert_commute)
  then show ?thesis by (metis lessThan_iff)
qed

lemma sched0_inv: "sched_inv sched0 ready0 []"
  unfolding sched_inv_def queue_ok_def all_less_8
  by (simp add: sched0_def ready0_def nxt_def task0_def bit_numeral_simps)

lemma sched0_runs: "runs sched0 ready0 []" "top_queue ready0 4"
  using sched0_inv by (auto simp: runs_def queued_def top_queue_def sched0_def ready0_def)

section \<open>Properties\<close>

text \<open>C23. A call of schedule that is not postponed, with a task ready, switches to the head of the highest ready queue that is
  not empty and marks it running; the running task goes to the tail of the queue of its base priority unless it is blocked
  or is the idle task; what the stopped task still has to do is saved for it; and no task is lost or duplicated: the queues
  are the old ones with exactly these two changes.\<close>

theorem schedule_takes_highest:
  assumes "runs s Q S" "postpone_task_switches s = 0" "clock_ok s" "top_queue Q q"
  shows "\<exists>u. schedule k s = Inr (True, u) \<and> current_task u = hd (Q q) \<and> t_state (tcbs u (hd (Q q))) = TASK_STATE_RUNNING \<and>
    runs u (requeued s (Q(q := tl (Q q)))) S \<and> todo u = (todo s)(current_task s := k)"
  using schedule_switches [OF assms, of k] unfolding next_of_def rest_of_def by blast

theorem schedule_takes_highest_witness:
  "\<exists>u. schedule [Do_unlock] sched0 = Inr (True, u) \<and> current_task u = 0x3000 \<and> t_state (tcbs u 0x3000) = TASK_STATE_RUNNING \<and>
     runs u (requeued sched0 (ready0(4 := [0x4000]))) [] \<and> todo u = (todo sched0)(0x2000 := [Do_unlock])"
  using schedule_takes_highest [OF sched0_runs(1) _ clock_ok_fast sched0_runs(2), of "[Do_unlock]"]
  by (simp add: sched0_def ready0_def)

text \<open>C24. Round robin: as long as the tasks of the running task's level are all ready and no higher level has a task, successive
  calls of schedule run them in turn, so that each of them runs again after as many calls as there are tasks of the level.\<close>

theorem schedule_round_robin:
  assumes "runs s Q S" "postpone_task_switches s = 0" "tsc_frequency (tsc_unit s) \<ge> 1000000000" "top_queue Q q"
    "t_state (tcbs s (current_task s)) = TASK_STATE_RUNNING" "current_task s \<noteq> idle_task s"
    "\<forall>t \<in> set (current_task s # Q q). priority_to_queue (back_priority (tcbs s t)) = q"
  shows "\<exists>u. turns ts s = Inr u \<and> current_task u = (current_task s # Q q) ! (length ts mod Suc (length (Q q)))"
  using turns_rotate [OF assms, of ts] by (auto simp: hd_rotate_conv_nth simp del: nth_Cons_Suc)

theorem schedule_round_robin_witness:
  "\<exists>u. turns [100, 200, 300, 400] sched0 = Inr u \<and> current_task u = 0x3000"
proof -
  have p: "priority_to_queue 128 = 4" by (simp add: priority_to_queue_def drop_bit_eq_div)
  have "\<forall>t \<in> set (current_task sched0 # ready0 4). priority_to_queue (back_priority (tcbs sched0 t)) = 4"
    by (simp add: sched0_def ready0_def back_priority_def task0_def p)
  from schedule_round_robin [OF sched0_runs(1) _ _ sched0_runs(2) _ _ this, of "[100, 200, 300, 400]"]
  show ?thesis by (simp add: sched0_def ready0_def task0_def)
qed

text \<open>C25. Putting a task to sleep inserts it into the sleep list after every task that wakes up no later and before all others:
  the list stays sorted by wake-up time and the ready queues keep their tasks.\<close>

theorem sleep_insert_sorted:
  assumes "sched_inv s Q S" "t \<noteq> 0" "t \<notin> queued Q S" "t_sleep_expiry_ns (tcbs s t) = w"
  shows "\<exists>u. sleep_insert t w s = Inr u \<and>
    sched_inv u Q (filter (\<lambda>p. t_sleep_expiry_ns (tcbs s p) \<le> w) S @ t # filter (\<lambda>p. w < t_sleep_expiry_ns (tcbs s p)) S)"
  using sleep_insert_inv [OF assms] unfolding sorted_split [OF sched_invD(5) [OF assms(1)]] by blast

theorem sleep_insert_sorted_witness:
  "\<exists>u. sleep_insert 0x2000 0 sched0 = Inr u \<and> sched_inv u ready0 [0x2000]"
  using sleep_insert_sorted [OF sched0_inv, of "0x2000" 0] by (auto simp: sched0_def ready0_def queued_def task0_def zero_tcb_def)

text \<open>C26. A timer tick moves exactly the sleeping tasks whose wake-up time has come to the tails of their ready queues, in the
  order of their wake-up times, and leaves the others asleep; outside every tenth tick, which ages the waiting tasks,
  nothing else happens to the queues.\<close>

theorem timer_tick_wakes_expired:
  assumes inv: "sched_inv s Q S" and ck: "clock_ok s" and init: "scheduler_initialized s"
    and tick: "(total_ticks (stats s) + 1) mod 10 \<noteq> 0"
  shows "\<exists>u. scheduler_timer_tick s = Inr u \<and>
    sched_inv u (fold (wake_one s) (filter (\<lambda>t. t_sleep_expiry_ns (tcbs s t) \<le> time_since_boot_ns u) S) Q)
      (filter (\<lambda>t. time_since_boot_ns u < t_sleep_expiry_ns (tcbs s t)) S)"
proof -
  obtain s1 where s1: "update_time_accounting s = Inr s1" "same_sched s s1" by (rule update_time_accounting_same [OF ck])
  have st: "total_ticks (stats s1) = total_ticks (stats s)"
    using s1(1) by (auto simp: update_time_accounting_def Let_def rbind_def split: sum.splits if_splits)
  define s2 where "s2 = s1\<lparr>stats := (stats s1)\<lparr>total_ticks := total_ticks (stats s1) + 1\<rparr>\<rparr>"
  have ss: "same_sched s s2" using s1(2) by (simp add: s2_def same_sched_def)
  then have eq: "t_sleep_expiry_ns (tcbs s2 p) = t_sleep_expiry_ns (tcbs s p)" "wake_one s2 = wake_one s" for p
    by (auto simp: same_sched_def same_task_def wake_one_def wakes_def fun_eq_iff)
  have inv2: "sched_inv s2 Q S" by (rule same_sched_inv [OF ss inv])
  have so: "sorted (map (\<lambda>t. t_sleep_expiry_ns (tcbs s t)) S)" by (rule sched_invD(5) [OF inv])
  obtain u where u: "wake_expired (sleeping_tasks s2) s2 = Some u" "time_since_boot_ns u = time_since_boot_ns s2"
    "sched_inv u (fold (wake_one s) (filter (\<lambda>t. t_sleep_expiry_ns (tcbs s t) \<le> time_since_boot_ns s2) S) Q)
      (filter (\<lambda>t. time_since_boot_ns s2 < t_sleep_expiry_ns (tcbs s t)) S)" "stats u = stats s2"
    using wake_expired_inv [OF inv2] unfolding eq sorted_split [OF so] by blast
  have "scheduler_timer_tick s = Inr (spend_tick u)"
    using init s1(1) u(1,4) tick st by (simp add: scheduler_timer_tick_def Let_def s2_def)
  then show ?thesis using u(2,3) spend_tick_same(2) [of u] same_sched_inv [OF spend_tick_same(1) [of u]] by auto
qed

theorem timer_tick_wakes_expired_witness:
  "\<exists>u. scheduler_timer_tick (sched0\<lparr>sleeping_tasks := 0x5000, tcbs := (tcbs sched0)(0x5000 := task0 TASK_STATE_SLEEPING 0)\<rparr>) = Inr u \<and>
     sched_inv u (ready0(4 := [0x3000, 0x4000, 0x5000])) []"
proof -
  let ?s = "sched0\<lparr>sleeping_tasks := 0x5000, tcbs := (tcbs sched0)(0x5000 := task0 TASK_STATE_SLEEPING 0)\<rparr>"
  have i: "sched_inv ?s ready0 [0x5000]"
    unfolding sched_inv_def queue_ok_def all_less_8
    by (simp add: sched0_def ready0_def nxt_def task0_def bit_numeral_simps)
  have p: "priority_to_queue 128 = 4" by (simp add: priority_to_queue_def drop_bit_eq_div)
  have q: "ready0(4 := ready0 4 @ [0x5000]) = ready0(4 := [0x3000, 0x4000, 0x5000])" by (simp add: ready0_def)
  show ?thesis using timer_tick_wakes_expired [OF i clock_ok_fast]
    by (simp add: sched0_def task0_def zero_tcb_def wake_one_def wakes_def p flip: q)
qed

end
