(* ===== verification/Mutex.thy ===== *)
theory Mutex
  imports Spinlock
begin

text \<open>
  The ticket mutex of \<^verbatim>\<open>src/src/kernel/core/mutex.c\<close>.  Tasks (addresses of task control blocks) run
  concurrently; a step is one access to shared memory by one task, or one section under the queue
  lock, which no two tasks are in at once.  Program points carry the live local variables.
  \<^verbatim>\<open>block_task\<close> takes the task off the processor until it is in a ready queue, \<^verbatim>\<open>unblock_task\<close> puts it there.

  Ghost fields no step reads: \<open>g_entries\<close> and \<open>g_exits\<close> count the tickets taken and served without
  wrapping, \<open>tk c\<close> is the number of the ticket of task \<open>c\<close>.
\<close>

section \<open>State\<close>

datatype mutex_pc =
    M_outside
  | L_exits
  | L_entries u64
  | L_cas u64
  | L_fetch
  | L_check u64
  | L_qlock u64
  | L_append u64
  | L_qunlock u64
  | L_wait u64
  | L_block u64
  | L_blocked u64
  | L_relock u64
  | L_remove u64
  | L_reunlock u64
  | L_own
  | M_holding
  | T_exits
  | T_entries u64
  | T_cas u64
  | U_load
  | U_store u64
  | U_qlock u64
  | U_walk u64
  | U_qunlock

record mutex =
  m_entries :: u64
  m_exits :: u64
  m_queue_lock :: u32
  m_wait_queue :: u64
  m_owner :: u64

record mutex_state = mutex +
  m_address :: u64
  wait_reason :: "u64 \<Rightarrow> u64"
  wait_data :: "u64 \<Rightarrow> u64"
  wait_on :: "u64 \<Rightarrow> u64"
  in_ready_queue :: "u64 \<Rightarrow> bool"
  m_pc :: "u64 \<Rightarrow> mutex_pc"
  g_entries :: nat
  g_exits :: nat
  tk :: "u64 \<Rightarrow> nat"

definition mgoto :: "u64 \<Rightarrow> mutex_pc \<Rightarrow> mutex_state \<Rightarrow> mutex_state" where
  "mgoto c p s = s\<lparr>m_pc := (m_pc s)(c := p)\<rparr>"

definition take_ticket :: "u64 \<Rightarrow> mutex_state \<Rightarrow> mutex_state" where
  "take_ticket c s = s\<lparr>tk := (tk s)(c := g_entries s), g_entries := g_entries s + 1\<rparr>"

definition mutex_init :: "mutex_state \<Rightarrow> mutex_state" where
  "mutex_init s = s\<lparr>m_entries := 0, m_exits := 0, m_queue_lock := 0, m_wait_queue := 0, m_owner := 0\<rparr>"

section \<open>The wait queue\<close>

definition queue_lock_acquire :: "u64 \<Rightarrow> mutex_pc \<Rightarrow> mutex_state \<Rightarrow> mutex_state" where
  "queue_lock_acquire c next_pc s =
     (let (old, w) = atomic_bit_test_and_set_32 0 (m_queue_lock s); s = s\<lparr>m_queue_lock := w\<rparr>
      in if old then s else mgoto c next_pc s)"

definition queue_lock_release :: "mutex_state \<Rightarrow> mutex_state" where
  "queue_lock_release s = s\<lparr>m_queue_lock := 0\<rparr>"

partial_function (option) find_tail :: "(u64 \<Rightarrow> u64) \<Rightarrow> u64 \<Rightarrow> u64 option" where
  "find_tail data tail = (if data tail \<noteq> 0 then find_tail data (data tail) else Some tail)"

definition wait_append :: "u64 \<Rightarrow> mutex_state \<Rightarrow> mutex_state option" where
  "wait_append task s =
     map_option (\<lambda>s. s\<lparr>wait_on := (wait_on s)(task := m_address s)\<rparr>)
       (if m_wait_queue s = 0 then Some (s\<lparr>m_wait_queue := task\<rparr>)
        else map_option (\<lambda>tail. s\<lparr>wait_data := (wait_data s)(tail := task)\<rparr>) (find_tail (wait_data s) (m_wait_queue s)))"

definition wait_remove :: "u64 \<Rightarrow> mutex_state \<Rightarrow> mutex_state option" where
  "wait_remove task s =
     map_option (\<lambda>found.
       let s = (case found of
                  None \<Rightarrow> s
                | Some prev \<Rightarrow> if prev = 0 then s\<lparr>m_wait_queue := wait_data s task\<rparr>
                               else s\<lparr>wait_data := (wait_data s)(prev := wait_data s task)\<rparr>)
       in s\<lparr>wait_on := (wait_on s)(task := 0), wait_data := (wait_data s)(task := 0)\<rparr>)
     (find_link (wait_data s) (m_wait_queue s) task 0)"

definition wake_next :: "u64 \<Rightarrow> mutex_state \<Rightarrow> mutex_state option" where
  "wake_next next_ticket s =
     map_option (\<lambda>waiter. if waiter = 0 then s else s\<lparr>in_ready_queue := (in_ready_queue s)(waiter := True)\<rparr>)
       (find_node (wait_data s) (\<lambda>waiter. wait_reason s waiter = next_ticket) (m_wait_queue s))"

section \<open>Operations\<close>

text \<open>What task \<open>c\<close> does next inside a routine; \<open>None\<close> when it cannot move.\<close>

definition mutex_lock :: "u64 \<Rightarrow> mutex_state \<Rightarrow> mutex_state option" where
  "mutex_lock c s =
     (case m_pc s c of
        L_exits \<Rightarrow> Some (mgoto c (L_entries (m_exits s)) s)
      | L_entries current_exits \<Rightarrow>
          (let current_entries = m_entries s
           in Some (mgoto c (if current_exits = current_entries then L_cas current_entries else L_fetch) s))
      | L_cas expected \<Rightarrow>
          (let (ok, _, w) = atomic_compare_exchange_64 expected (expected + 1) (m_entries s)
           in Some (if ok then take_ticket c (mgoto c L_own (s\<lparr>m_entries := w\<rparr>)) else mgoto c L_fetch s))
      | L_fetch \<Rightarrow>
          (let (my_ticket, w) = atomic_fetch_add_64 1 (m_entries s)
           in Some (take_ticket c (mgoto c (L_check my_ticket) (s\<lparr>m_entries := w\<rparr>))))
      | L_check my_ticket \<Rightarrow>
          Some (if m_exits s = my_ticket then mgoto c L_own s
                else mgoto c (L_qlock my_ticket)
                       (s\<lparr>wait_reason := (wait_reason s)(c := my_ticket), wait_data := (wait_data s)(c := 0)\<rparr>))
      | L_qlock my_ticket \<Rightarrow> Some (queue_lock_acquire c (L_append my_ticket) s)
      | L_append my_ticket \<Rightarrow> map_option (mgoto c (L_qunlock my_ticket)) (wait_append c s)
      | L_qunlock my_ticket \<Rightarrow> Some (mgoto c (L_wait my_ticket) (queue_lock_release s))
      | L_wait my_ticket \<Rightarrow> Some (mgoto c (if m_exits s \<noteq> my_ticket then L_block my_ticket else L_relock my_ticket) s)
      | L_block my_ticket \<Rightarrow> Some (mgoto c (L_blocked my_ticket) s)
      | L_blocked my_ticket \<Rightarrow>
          if in_ready_queue s c then Some (mgoto c (L_wait my_ticket) (s\<lparr>in_ready_queue := (in_ready_queue s)(c := False)\<rparr>))
          else None
      | L_relock my_ticket \<Rightarrow> Some (queue_lock_acquire c (L_remove my_ticket) s)
      | L_remove my_ticket \<Rightarrow> map_option (mgoto c (L_reunlock my_ticket)) (wait_remove c s)
      | L_reunlock my_ticket \<Rightarrow> Some (mgoto c L_own (queue_lock_release s))
      | L_own \<Rightarrow> Some (mgoto c M_holding (s\<lparr>m_owner := c\<rparr>))
      | _ \<Rightarrow> None)"

definition mutex_try_lock :: "u64 \<Rightarrow> mutex_state \<Rightarrow> mutex_state option" where
  "mutex_try_lock c s =
     (case m_pc s c of
        T_exits \<Rightarrow> Some (mgoto c (T_entries (m_exits s)) s)
      | T_entries current_exits \<Rightarrow>
          (let current_entries = m_entries s
           in Some (mgoto c (if current_exits \<noteq> current_entries then M_outside else T_cas current_entries) s))
      | T_cas expected \<Rightarrow>
          (let (ok, _, w) = atomic_compare_exchange_64 expected (expected + 1) (m_entries s)
           in Some (if ok then take_ticket c (mgoto c M_holding (s\<lparr>m_entries := w, m_owner := c\<rparr>)) else mgoto c M_outside s))
      | _ \<Rightarrow> None)"

definition mutex_unlock :: "u64 \<Rightarrow> mutex_state \<Rightarrow> mutex_state option" where
  "mutex_unlock c s =
     (case m_pc s c of
        M_holding \<Rightarrow> Some (mgoto c U_load (s\<lparr>m_owner := 0\<rparr>))
      | U_load \<Rightarrow> Some (mgoto c (U_store (m_exits s + 1)) s)
      | U_store next_ticket \<Rightarrow> Some (mgoto c (U_qlock next_ticket) (s\<lparr>m_exits := next_ticket, g_exits := g_exits s + 1\<rparr>))
      | U_qlock next_ticket \<Rightarrow> Some (queue_lock_acquire c (U_walk next_ticket) s)
      | U_walk next_ticket \<Rightarrow> map_option (mgoto c U_qunlock) (wake_next next_ticket s)
      | U_qunlock \<Rightarrow> Some (mgoto c M_outside (queue_lock_release s))
      | _ \<Rightarrow> None)"

definition mutex_is_locked :: "mutex_state \<Rightarrow> bool" where
  "mutex_is_locked s \<longleftrightarrow> m_entries s \<noteq> m_exits s"

definition mutex_get_owner :: "mutex_state \<Rightarrow> u64" where
  "mutex_get_owner s = m_owner s"

inductive mutex_step :: "mutex_state \<Rightarrow> mutex_state \<Rightarrow> bool" where
  mutex_call_lock: "c \<noteq> 0 \<Longrightarrow> m_pc s c = M_outside \<Longrightarrow> mutex_step s (mgoto c L_exits s)"
| mutex_call_try: "c \<noteq> 0 \<Longrightarrow> m_pc s c = M_outside \<Longrightarrow> mutex_step s (mgoto c T_exits s)"
| mutex_locking: "c \<noteq> 0 \<Longrightarrow> mutex_lock c s = Some t \<Longrightarrow> mutex_step s t"
| mutex_trying: "c \<noteq> 0 \<Longrightarrow> mutex_try_lock c s = Some t \<Longrightarrow> mutex_step s t"
| mutex_unlocking: "c \<noteq> 0 \<Longrightarrow> mutex_unlock c s = Some t \<Longrightarrow> mutex_step s t"

definition mutex_start :: "mutex_state \<Rightarrow> bool" where
  "mutex_start s \<longleftrightarrow> (\<exists>s0. s = mutex_init s0 \<and> (\<forall>c. m_pc s0 c = M_outside) \<and> g_entries s0 = 0 \<and> g_exits s0 = 0)"

section \<open>Tickets\<close>

text \<open>A task has a ticket from the atomic increment of \<open>entries\<close> to its store to \<open>exits\<close>; from its last look at \<open>exits\<close>
  on it is its turn.\<close>

fun has_turn :: "mutex_pc \<Rightarrow> bool" where
  "has_turn (L_relock t) = True"
| "has_turn (L_remove t) = True"
| "has_turn (L_reunlock t) = True"
| "has_turn L_own = True"
| "has_turn M_holding = True"
| "has_turn U_load = True"
| "has_turn (U_store n) = True"
| "has_turn p = False"

fun my_ticket :: "mutex_pc \<Rightarrow> u64 option" where
  "my_ticket (L_check t) = Some t"
| "my_ticket (L_qlock t) = Some t"
| "my_ticket (L_append t) = Some t"
| "my_ticket (L_qunlock t) = Some t"
| "my_ticket (L_wait t) = Some t"
| "my_ticket (L_block t) = Some t"
| "my_ticket (L_blocked t) = Some t"
| "my_ticket (L_relock t) = Some t"
| "my_ticket (L_remove t) = Some t"
| "my_ticket (L_reunlock t) = Some t"
| "my_ticket p = None"

definition has_ticket :: "mutex_pc \<Rightarrow> bool" where
  "has_ticket p \<longleftrightarrow> has_turn p \<or> my_ticket p \<noteq> None"

fun seen_exits :: "mutex_pc \<Rightarrow> u64 option" where
  "seen_exits (L_entries e) = Some e"
| "seen_exits (L_cas e) = Some e"
| "seen_exits (T_entries e) = Some e"
| "seen_exits (T_cas e) = Some e"
| "seen_exits p = None"

definition tickets_ok :: "mutex_state \<Rightarrow> bool" where
  "tickets_ok s \<longleftrightarrow> m_entries s = of_nat (g_entries s) \<and> m_exits s = of_nat (g_exits s) \<and> g_exits s \<le> g_entries s \<and>
     (\<forall>c. has_ticket (m_pc s c) \<longrightarrow> g_exits s \<le> tk s c \<and> tk s c < g_entries s) \<and>
     (\<forall>c. has_turn (m_pc s c) \<longrightarrow> tk s c = g_exits s) \<and>
     (\<forall>c d. has_ticket (m_pc s c) \<and> has_ticket (m_pc s d) \<and> tk s c = tk s d \<longrightarrow> c = d) \<and>
     (\<forall>c t. my_ticket (m_pc s c) = Some t \<longrightarrow> t = of_nat (tk s c)) \<and>
     (\<forall>c e. seen_exits (m_pc s c) = Some e \<longrightarrow> (\<exists>k \<le> g_exits s. e = of_nat k)) \<and>
     (\<forall>c n. m_pc s c = U_store n \<longrightarrow> n = of_nat (g_exits s + 1))"

lemma tickets_okD:
  assumes "tickets_ok s"
  shows "m_entries s = of_nat (g_entries s)" "m_exits s = of_nat (g_exits s)" "g_exits s \<le> g_entries s"
    "has_ticket (m_pc s c) \<Longrightarrow> g_exits s \<le> tk s c \<and> tk s c < g_entries s"
    "has_turn (m_pc s c) \<Longrightarrow> tk s c = g_exits s"
    "has_ticket (m_pc s c) \<Longrightarrow> has_ticket (m_pc s d) \<Longrightarrow> tk s c = tk s d \<Longrightarrow> c = d"
    "my_ticket (m_pc s c) = Some t \<Longrightarrow> t = of_nat (tk s c)"
    "seen_exits (m_pc s c) = Some e \<Longrightarrow> \<exists>k \<le> g_exits s. e = of_nat k"
    "m_pc s c = U_store n \<Longrightarrow> n = of_nat (g_exits s + 1)"
  using assms unfolding tickets_ok_def by blast+

text \<open>A move of task \<open>c\<close> that takes no ticket and serves none.\<close>

lemma tickets_move:
  assumes ok: "tickets_ok s" and pc: "m_pc t = (m_pc s)(c := p)"
    and same: "m_entries t = m_entries s" "m_exits t = m_exits s" "g_entries t = g_entries s" "g_exits t = g_exits s" "tk t = tk s"
    and p: "has_ticket p \<longrightarrow> has_ticket (m_pc s c)" "has_turn p \<longrightarrow> tk s c = g_exits s" "\<forall>x. my_ticket p = Some x \<longrightarrow> x = of_nat (tk s c)"
      "\<forall>e. seen_exits p = Some e \<longrightarrow> (\<exists>k \<le> g_exits s. e = of_nat k)" "\<forall>n. p = U_store n \<longrightarrow> n = of_nat (g_exits s + 1)"
  shows "tickets_ok t"
proof -
  note D = tickets_okD [OF ok]
  have T: "has_ticket (m_pc t d) \<Longrightarrow> has_ticket (m_pc s d)" for d using pc p(1) by (auto split: if_splits)
  show ?thesis unfolding tickets_ok_def same
  proof (intro conjI allI impI)
    show "tk s d = g_exits s" if "has_turn (m_pc t d)" for d
      using that D(5) [of d] p(2) pc by (cases "d = c") auto
    show "x = of_nat (tk s d)" if "my_ticket (m_pc t d) = Some x" for d x
      using that D(7) [of d x] p(3) pc by (cases "d = c") auto
    show "\<exists>k \<le> g_exits s. e = of_nat k" if "seen_exits (m_pc t d) = Some e" for d e
      using that D(8) [of d e] p(4) pc by (cases "d = c") auto
    show "n = of_nat (g_exits s + 1)" if "m_pc t d = U_store n" for d n
      using that D(9) [of d n] p(5) pc by (cases "d = c") auto
  qed (use D(1-3) D(4) [OF T] D(6) [OF T T] in blast)+
qed

lemma of_nat_eq: "(of_nat m :: u64) = of_nat n \<Longrightarrow> m < 2 ^ 64 \<Longrightarrow> n < 2 ^ 64 \<Longrightarrow> m = n"
proof -
  assume e: "(of_nat m :: u64) = of_nat n" and m: "m < 2 ^ 64" "n < 2 ^ 64"
  have "unat (of_nat m :: u64) = unat (of_nat n :: u64)" using e by simp
  then show "m = n" using m by (simp add: unat_of_nat_small)
qed

text \<open>A successful compare and exchange finds all tickets served.\<close>

lemma tickets_take:
  assumes ok: "tickets_ok s" and free: "\<not> has_ticket (m_pc s c)" and pc: "m_pc t = (m_pc s)(c := p)"
    and tk: "m_entries t = m_entries s + 1" "g_entries t = g_entries s + 1" "tk t = (tk s)(c := g_entries s)"
    and same: "m_exits t = m_exits s" "g_exits t = g_exits s"
    and p: "seen_exits p = None" "\<forall>n. p \<noteq> U_store n" "has_turn p \<longrightarrow> g_exits s = g_entries s" "\<forall>x. my_ticket p = Some x \<longrightarrow> x = m_entries s"
  shows "tickets_ok t"
proof -
  note D = tickets_okD [OF ok]
  show ?thesis unfolding tickets_ok_def same tk
  proof (intro conjI allI impI)
    show "((tk s)(c := g_entries s)) d = g_exits s" if "has_turn (m_pc t d)" for d
      using that D(5) [of d] p(3) pc by (cases "d = c") auto
    show "x = of_nat (((tk s)(c := g_entries s)) d)" if "my_ticket (m_pc t d) = Some x" for d x
      using that D(7) [of d x] D(1) p(4) pc by (cases "d = c") auto
    show "\<exists>k \<le> g_exits s. e = of_nat k" if "seen_exits (m_pc t d) = Some e" for d e
      using that D(8) [of d e] p(1) pc by (cases "d = c") auto
    show "n = of_nat (g_exits s + 1)" if "m_pc t d = U_store n" for d n
      using that D(9) [of d n] p(2) pc by (cases "d = c") auto
    have lt: "tk s d < g_entries s" if "has_ticket (m_pc t d)" "d \<noteq> c" for d using that D(4) [of d] pc by simp
    show "g_exits s \<le> ((tk s)(c := g_entries s)) d" "((tk s)(c := g_entries s)) d < g_entries s + 1" if "has_ticket (m_pc t d)" for d
      using that D(3) D(4) [of d] pc by (cases "d = c"; force)+
    show "d = e" if "has_ticket (m_pc t d) \<and> has_ticket (m_pc t e) \<and> ((tk s)(c := g_entries s)) d = ((tk s)(c := g_entries s)) e" for d e
    proof (cases "d = c \<or> e = c")
      case True
      then show ?thesis using that lt [of d] lt [of e] by (auto split: if_splits)
    next
      case False
      then show ?thesis using that D(6) [of d e] pc by simp
    qed
  qed (use D(1-3) in simp_all)
qed

lemma seen_exits_current:
  assumes ok: "tickets_ok s" and lt: "g_entries s < 2 ^ 64" and e: "seen_exits (m_pc s c) = Some (m_entries s)"
  shows "g_exits s = g_entries s"
proof -
  note D = tickets_okD [OF ok]
  obtain k where k: "k \<le> g_exits s" "m_entries s = of_nat k" using D(8) [OF e] by auto
  then have "k = g_entries s" using D(1,3) lt of_nat_eq [of k "g_entries s"] by simp
  then show ?thesis using k(1) D(3) by simp
qed

lemma tickets_serve:
  assumes ok: "tickets_ok s" and lt: "g_entries s < 2 ^ 64" and pc: "m_pc s c = U_store n"
  shows "tickets_ok (mgoto c (U_qlock n) (s\<lparr>m_exits := n, g_exits := g_exits s + 1\<rparr>))" (is "tickets_ok ?t")
proof -
  note D = tickets_okD [OF ok]
  have c: "tk s c = g_exits s" "has_ticket (m_pc s c)" using D(5) [of c] pc by (simp_all add: has_ticket_def)
  have n: "n = of_nat (g_exits s + 1)" using D(9) [OF pc] .
  have T: "has_ticket (m_pc ?t d) \<longleftrightarrow> has_ticket (m_pc s d) \<and> d \<noteq> c" for d
    by (simp add: mgoto_def has_ticket_def)
  have U: "g_exits s + 1 \<le> tk s d" if "has_ticket (m_pc s d)" "d \<noteq> c" for d
    using D(4) [OF that(1)] D(6) [OF that(1) c(2)] that(2) c(1) by force
  have V: "\<not> has_turn (m_pc s d)" if "d \<noteq> c" for d
    using D(5) [of d] U [OF _ that] by (auto simp: has_ticket_def)
  show ?thesis unfolding tickets_ok_def
  proof (intro conjI allI impI)
    show "tk ?t d = g_exits ?t" if "has_turn (m_pc ?t d)" for d
      using that V [of d] by (simp add: mgoto_def split: if_splits)
    show "x = of_nat (tk ?t d)" if "my_ticket (m_pc ?t d) = Some x" for d x
      using that D(7) [of d x] by (simp add: mgoto_def split: if_splits)
    show "\<exists>k \<le> g_exits ?t. e = of_nat k" if "seen_exits (m_pc ?t d) = Some e" for d e
    proof -
      have "\<exists>k \<le> g_exits s. e = of_nat k" using that D(8) [of d e] by (simp add: mgoto_def split: if_splits)
      then obtain k where "k \<le> g_exits s" "e = of_nat k" by blast
      then show ?thesis by (intro exI [of _ k]) (simp add: mgoto_def)
    qed
    show "x = of_nat (g_exits ?t + 1)" if "m_pc ?t d = U_store x" for d x
      using that V [of d] by (auto simp: mgoto_def split: if_splits)
    show "d = e" if "has_ticket (m_pc ?t d) \<and> has_ticket (m_pc ?t e) \<and> tk ?t d = tk ?t e" for d e
      using that D(6) [of d e] unfolding T by (simp add: mgoto_def)
    show "g_exits ?t \<le> tk ?t d" "tk ?t d < g_entries ?t" if "has_ticket (m_pc ?t d)" for d
      using that U [of d] D(4) [of d] unfolding T by (simp_all add: mgoto_def)
    show "g_exits ?t \<le> g_entries ?t" using D(4) [OF c(2)] c(1) by (simp add: mgoto_def)
  qed (use D(1) n in \<open>simp_all add: mgoto_def\<close>)
qed

definition same_tickets :: "mutex_state \<Rightarrow> mutex_state \<Rightarrow> bool" where
  "same_tickets s u \<longleftrightarrow> m_entries u = m_entries s \<and> m_exits u = m_exits s \<and> g_entries u = g_entries s \<and> g_exits u = g_exits s \<and>
     tk u = tk s \<and> m_pc u = m_pc s"

lemma queue_same_tickets:
  "wait_append c s = Some u \<Longrightarrow> same_tickets s u" "wait_remove c s = Some u \<Longrightarrow> same_tickets s u"
  "wake_next n s = Some u \<Longrightarrow> same_tickets s u" "same_tickets s (queue_lock_release s)"
  by (auto simp: same_tickets_def wait_append_def wait_remove_def wake_next_def queue_lock_release_def Let_def
      split: if_splits option.splits)

lemma tickets_queue:
  assumes "tickets_ok s" "same_tickets s u" "has_ticket p \<longrightarrow> has_ticket (m_pc s c)" "has_turn p \<longrightarrow> has_turn (m_pc s c)"
    "\<forall>x. my_ticket p = Some x \<longrightarrow> my_ticket (m_pc s c) = Some x" "seen_exits p = None" "\<forall>n. p \<noteq> U_store n"
  shows "tickets_ok (mgoto c p u)"
  by (rule tickets_move [OF assms(1), of _ c p])
    (use assms(2-) tickets_okD(5) [OF assms(1), of c] tickets_okD(7) [OF assms(1), of c] in \<open>auto simp: mgoto_def same_tickets_def\<close>)

lemma tickets_acquire:
  assumes "tickets_ok s" "has_ticket p \<longrightarrow> has_ticket (m_pc s c)" "has_turn p \<longrightarrow> has_turn (m_pc s c)"
    "\<forall>x. my_ticket p = Some x \<longrightarrow> my_ticket (m_pc s c) = Some x" "seen_exits p = None" "\<forall>n. p \<noteq> U_store n"
  shows "tickets_ok (queue_lock_acquire c p s)"
proof -
  have u: "same_tickets s (s\<lparr>m_queue_lock := w\<rparr>)" for w by (simp add: same_tickets_def)
  have "tickets_ok (s\<lparr>m_queue_lock := w\<rparr>)" for w using assms(1) by (simp add: tickets_ok_def)
  then show ?thesis using tickets_queue [OF assms(1) u assms(2-)] by (simp add: queue_lock_acquire_def atomic_bit_test_and_set_32_def Let_def)
qed

lemma tickets_lock:
  assumes ok: "tickets_ok s" and lt: "g_entries s < 2 ^ 64" and st: "mutex_lock c s = Some t"
  shows "tickets_ok t"
proof -
  note D = tickets_okD [OF ok]
  note move = tickets_move [OF ok, of _ c]
  note simps = mutex_lock_def mgoto_def has_ticket_def Let_def
  show ?thesis
  proof (cases "m_pc s c")
    case L_exits
    then show ?thesis using st D(2) by (intro move [of _ "L_entries (m_exits s)"]) (auto simp: simps)
  next
    case (L_entries e)
    then show ?thesis using st D(8) [of c e]
      by (intro move [of _ "if e = m_entries s then L_cas e else L_fetch"]) (auto simp: simps)
  next
    case (L_cas e)
    show ?thesis
    proof (cases "m_entries s = e")
      case True
      then have "g_exits s = g_entries s" using seen_exits_current [OF ok lt, of c] L_cas by simp
      then show ?thesis using st L_cas True
        by (intro tickets_take [OF ok, of c _ L_own]) (auto simp: simps take_ticket_def atomic_compare_exchange_64_def)
    next
      case False
      then show ?thesis using st L_cas by (intro move [of _ L_fetch]) (auto simp: simps atomic_compare_exchange_64_def)
    qed
  next
    case L_fetch
    then show ?thesis using st
      by (intro tickets_take [OF ok, of c _ "L_check (m_entries s)"]) (auto simp: simps take_ticket_def atomic_fetch_add_64_def)
  next
    case (L_check x)
    then have x: "x = of_nat (tk s c)" "g_exits s \<le> tk s c" "tk s c < g_entries s" using D(7) [of c x] D(4) [of c] by (auto simp: has_ticket_def)
    then have "m_exits s = x \<Longrightarrow> tk s c = g_exits s" using D(2,3) lt of_nat_eq [of "g_exits s" "tk s c"] by simp
    then show ?thesis using st L_check x(1)
      by (intro move [of _ "if m_exits s = x then L_own else L_qlock x"]) (auto simp: simps)
  next
    case (L_wait x)
    then have x: "x = of_nat (tk s c)" "g_exits s \<le> tk s c" "tk s c < g_entries s" using D(7) [of c x] D(4) [of c] by (auto simp: has_ticket_def)
    then have "m_exits s = x \<Longrightarrow> tk s c = g_exits s" using D(2,3) lt of_nat_eq [of "g_exits s" "tk s c"] by simp
    then show ?thesis using st L_wait x(1)
      by (intro move [of _ "if m_exits s \<noteq> x then L_block x else L_relock x"]) (auto simp: simps)
  next
    case (L_blocked x)
    then show ?thesis using st D(7) [of c x] by (intro move [of _ "L_wait x"]) (auto simp: simps split: if_splits)
  next
    case L_own
    then show ?thesis using st D(5) [of c] by (intro move [of _ M_holding]) (auto simp: simps)
  next
    case (L_block x)
    then show ?thesis using st D(7) [of c x] by (intro move [of _ "L_blocked x"]) (auto simp: simps)
  next
    case (L_qlock x)
    then show ?thesis using st tickets_acquire [OF ok, of "L_append x" c] by (simp add: simps)
  next
    case (L_relock x)
    then show ?thesis using st tickets_acquire [OF ok, of "L_remove x" c] by (simp add: simps)
  next
    case (L_append x)
    then obtain u where u: "wait_append c s = Some u" "t = mgoto c (L_qunlock x) u" using st by (auto simp: mutex_lock_def)
    show ?thesis unfolding u(2) by (rule tickets_queue [OF ok queue_same_tickets(1) [OF u(1)]]) (simp_all add: L_append has_ticket_def)
  next
    case (L_remove x)
    then obtain u where u: "wait_remove c s = Some u" "t = mgoto c (L_reunlock x) u" using st by (auto simp: mutex_lock_def)
    show ?thesis unfolding u(2) by (rule tickets_queue [OF ok queue_same_tickets(2) [OF u(1)]]) (simp_all add: L_remove has_ticket_def)
  next
    case (L_qunlock x)
    then have "t = mgoto c (L_wait x) (queue_lock_release s)" using st by (simp add: mutex_lock_def)
    then show ?thesis using tickets_queue [OF ok queue_same_tickets(4), of "L_wait x" c] L_qunlock by (simp add: has_ticket_def)
  next
    case (L_reunlock x)
    then have "t = mgoto c L_own (queue_lock_release s)" using st by (simp add: mutex_lock_def)
    then show ?thesis using tickets_queue [OF ok queue_same_tickets(4), of L_own c] L_reunlock by (simp add: has_ticket_def)
  qed (use st in \<open>simp_all add: mutex_lock_def\<close>)
qed

lemma tickets_try_lock:
  assumes ok: "tickets_ok s" and lt: "g_entries s < 2 ^ 64" and st: "mutex_try_lock c s = Some t"
  shows "tickets_ok t"
proof -
  note D = tickets_okD [OF ok]
  note move = tickets_move [OF ok, of _ c]
  note simps = mutex_try_lock_def mgoto_def has_ticket_def Let_def
  show ?thesis
  proof (cases "m_pc s c")
    case T_exits
    then show ?thesis using st D(2) by (intro move [of _ "T_entries (m_exits s)"]) (auto simp: simps)
  next
    case (T_entries e)
    then show ?thesis using st D(8) [of c e]
      by (intro move [of _ "if e \<noteq> m_entries s then M_outside else T_cas e"]) (auto simp: simps)
  next
    case (T_cas e)
    show ?thesis
    proof (cases "m_entries s = e")
      case True
      then have "g_exits s = g_entries s" using seen_exits_current [OF ok lt, of c] T_cas by simp
      then show ?thesis using st T_cas True
        by (intro tickets_take [OF ok, of c _ M_holding]) (auto simp: simps take_ticket_def atomic_compare_exchange_64_def)
    next
      case False
      then show ?thesis using st T_cas by (intro move [of _ M_outside]) (auto simp: simps atomic_compare_exchange_64_def)
    qed
  qed (use st in \<open>simp_all add: mutex_try_lock_def\<close>)
qed

lemma tickets_unlock:
  assumes ok: "tickets_ok s" and lt: "g_entries s < 2 ^ 64" and st: "mutex_unlock c s = Some t"
  shows "tickets_ok t"
proof -
  note D = tickets_okD [OF ok]
  note move = tickets_move [OF ok, of _ c]
  note simps = mutex_unlock_def mgoto_def has_ticket_def
  show ?thesis
  proof (cases "m_pc s c")
    case M_holding
    then show ?thesis using st D(5) [of c] by (intro move [of _ U_load]) (auto simp: simps)
  next
    case U_load
    then show ?thesis using st D(2) D(5) [of c] by (intro move [of _ "U_store (m_exits s + 1)"]) (auto simp: simps)
  next
    case (U_store n)
    then show ?thesis using st tickets_serve [OF ok lt U_store] by (simp add: mutex_unlock_def)
  next
    case (U_qlock n)
    then show ?thesis using st tickets_acquire [OF ok, of "U_walk n" c] by (simp add: simps)
  next
    case (U_walk n)
    then obtain u where u: "wake_next n s = Some u" "t = mgoto c U_qunlock u" using st by (auto simp: mutex_unlock_def)
    show ?thesis unfolding u(2) by (rule tickets_queue [OF ok queue_same_tickets(3) [OF u(1)]]) (simp_all add: U_walk has_ticket_def)
  next
    case U_qunlock
    then have "t = mgoto c M_outside (queue_lock_release s)" using st by (simp add: mutex_unlock_def)
    then show ?thesis using tickets_queue [OF ok queue_same_tickets(4), of M_outside c] U_qunlock by (simp add: has_ticket_def)
  qed (use st in \<open>simp_all add: mutex_unlock_def\<close>)
qed

lemma tickets_step: "mutex_step s t \<Longrightarrow> tickets_ok s \<Longrightarrow> g_entries s < 2 ^ 64 \<Longrightarrow> tickets_ok t"
proof (induction rule: mutex_step.induct)
  case (mutex_call_lock c s)
  show ?case by (rule tickets_move [OF mutex_call_lock(3), of _ c L_exits]) (simp_all add: mgoto_def has_ticket_def)
next
  case (mutex_call_try c s)
  show ?case by (rule tickets_move [OF mutex_call_try(3), of _ c T_exits]) (simp_all add: mgoto_def has_ticket_def)
qed (use tickets_lock tickets_try_lock tickets_unlock in blast)+

lemma g_entries_acquire [simp]: "g_entries (queue_lock_acquire c p s) = g_entries s" "g_entries (mgoto c p s) = g_entries s"
  by (simp_all add: queue_lock_acquire_def mgoto_def Let_def split: prod.splits)

lemma g_entries_queue: "same_tickets s u \<Longrightarrow> g_entries u = g_entries s"
  by (simp add: same_tickets_def)

lemma g_entries_mono: "mutex_step s t \<Longrightarrow> g_entries s \<le> g_entries t"
proof (induction rule: mutex_step.induct)
  case (mutex_locking c s t)
  then show ?case
    by (cases "m_pc s c") (auto simp: mutex_lock_def take_ticket_def atomic_compare_exchange_64_def atomic_fetch_add_64_def Let_def
        g_entries_queue [OF queue_same_tickets(4)] split: if_splits
        dest: g_entries_queue [OF queue_same_tickets(1)] g_entries_queue [OF queue_same_tickets(2)])
next
  case (mutex_trying c s t)
  then show ?case
    by (cases "m_pc s c") (auto simp: mutex_try_lock_def take_ticket_def Let_def atomic_compare_exchange_64_def split: if_splits)
next
  case (mutex_unlocking c s t)
  then show ?case
    by (cases "m_pc s c") (auto simp: mutex_unlock_def g_entries_queue [OF queue_same_tickets(4)]
        dest: g_entries_queue [OF queue_same_tickets(3)])
qed simp_all

section \<open>The queue lock\<close>

fun in_section :: "mutex_pc \<Rightarrow> bool" where
  "in_section (L_append t) = True"
| "in_section (L_qunlock t) = True"
| "in_section (L_remove t) = True"
| "in_section (L_reunlock t) = True"
| "in_section (U_walk n) = True"
| "in_section U_qunlock = True"
| "in_section p = False"

definition section_ok :: "mutex_state \<Rightarrow> bool" where
  "section_ok s \<longleftrightarrow> (bit (m_queue_lock s) 0 \<longleftrightarrow> (\<exists>c. in_section (m_pc s c))) \<and>
     (\<forall>c d. in_section (m_pc s c) \<and> in_section (m_pc s d) \<longrightarrow> c = d)"

lemma section_move:
  assumes ok: "section_ok s" and pc: "m_pc t = (m_pc s)(c := p)" and q: "m_queue_lock t = m_queue_lock s"
    and p: "in_section p = in_section (m_pc s c)"
  shows "section_ok t"
proof -
  have "in_section (m_pc t d) = in_section (m_pc s d)" for d using pc p by simp
  then show ?thesis using ok q unfolding section_ok_def by simp
qed

lemma section_acquire:
  assumes ok: "section_ok s" and p: "\<not> in_section (m_pc s c)" "in_section p"
  shows "section_ok (queue_lock_acquire c p s)"
proof (cases "bit (m_queue_lock s) 0")
  case True
  then show ?thesis using ok
    by (simp add: queue_lock_acquire_def atomic_bit_test_and_set_32_def section_ok_def Let_def bit_simps)
next
  case False
  then have "\<not> in_section (m_pc s d)" for d using ok by (auto simp: section_ok_def)
  then show ?thesis using False p
    by (auto simp: queue_lock_acquire_def atomic_bit_test_and_set_32_def section_ok_def Let_def bit_simps mgoto_def)
qed

lemma section_release:
  assumes ok: "section_ok s" and p: "in_section (m_pc s c)" "\<not> in_section p"
  shows "section_ok (mgoto c p (queue_lock_release s))"
proof -
  have "d \<noteq> c \<Longrightarrow> \<not> in_section (m_pc s d)" for d using ok p(1) unfolding section_ok_def by blast
  then show ?thesis using p(2) by (auto simp: section_ok_def mgoto_def queue_lock_release_def)
qed

lemma queue_same_lock:
  "wait_append c s = Some u \<Longrightarrow> m_queue_lock u = m_queue_lock s" "wait_remove c s = Some u \<Longrightarrow> m_queue_lock u = m_queue_lock s"
  "wake_next n s = Some u \<Longrightarrow> m_queue_lock u = m_queue_lock s"
  by (auto simp: wait_append_def wait_remove_def wake_next_def Let_def split: if_splits option.splits)

lemma section_step: "mutex_step s t \<Longrightarrow> section_ok s \<Longrightarrow> section_ok t"
proof (induction rule: mutex_step.induct)
  case (mutex_call_lock c s)
  show ?case by (rule section_move [OF mutex_call_lock(3), of _ c L_exits]) (simp_all add: mgoto_def mutex_call_lock)
next
  case (mutex_call_try c s)
  show ?case by (rule section_move [OF mutex_call_try(3), of _ c T_exits]) (simp_all add: mgoto_def mutex_call_try)
next
  case (mutex_locking c s t)
  note move = section_move [OF mutex_locking(3), of t c "m_pc t c"]
  note q = queue_same_tickets(1,2) [where c = c and s = s, unfolded same_tickets_def]
  show ?case
  proof (cases "m_pc s c")
    case (L_qlock x)
    then show ?thesis using mutex_locking section_acquire [of s c "L_append x"] by (simp add: mutex_lock_def)
  next
    case (L_relock x)
    then show ?thesis using mutex_locking section_acquire [of s c "L_remove x"] by (simp add: mutex_lock_def)
  next
    case (L_qunlock x)
    then show ?thesis using mutex_locking section_release [of s c "L_wait x"] by (simp add: mutex_lock_def)
  next
    case (L_reunlock x)
    then show ?thesis using mutex_locking section_release [of s c L_own] by (simp add: mutex_lock_def)
  next
    case (L_append x)
    then obtain u where u: "wait_append c s = Some u" "t = mgoto c (L_qunlock x) u" using mutex_locking(2) by (auto simp: mutex_lock_def)
    show ?thesis by (rule move) (use q(1) [OF u(1)] queue_same_lock(1) [OF u(1)] L_append in \<open>simp_all add: u(2) mgoto_def\<close>)
  next
    case (L_remove x)
    then obtain u where u: "wait_remove c s = Some u" "t = mgoto c (L_reunlock x) u" using mutex_locking(2) by (auto simp: mutex_lock_def)
    show ?thesis by (rule move) (use q(2) [OF u(1)] queue_same_lock(2) [OF u(1)] L_remove in \<open>simp_all add: u(2) mgoto_def\<close>)
  qed (use mutex_locking(2) in \<open>(intro move; auto simp: mutex_lock_def mgoto_def take_ticket_def atomic_compare_exchange_64_def
        atomic_fetch_add_64_def Let_def split: if_splits)+\<close>)
next
  case (mutex_trying c s t)
  show ?case
    by (rule section_move [OF mutex_trying(3), of t c "m_pc t c"]; cases "m_pc s c")
      (use mutex_trying(2) in \<open>auto simp: mutex_try_lock_def mgoto_def take_ticket_def atomic_compare_exchange_64_def Let_def split: if_splits\<close>)
next
  case (mutex_unlocking c s t)
  note move = section_move [OF mutex_unlocking(3), of t c "m_pc t c"]
  note q = queue_same_tickets(3) [where s = s, unfolded same_tickets_def]
  show ?case
  proof (cases "m_pc s c")
    case (U_qlock n)
    then show ?thesis using mutex_unlocking section_acquire [of s c "U_walk n"] by (simp add: mutex_unlock_def)
  next
    case U_qunlock
    then show ?thesis using mutex_unlocking section_release [of s c M_outside] by (simp add: mutex_unlock_def)
  next
    case (U_walk n)
    then obtain u where u: "wake_next n s = Some u" "t = mgoto c U_qunlock u" using mutex_unlocking(2) by (auto simp: mutex_unlock_def)
    show ?thesis by (rule move) (use q [OF u(1)] queue_same_lock(3) [OF u(1)] U_walk in \<open>simp_all add: u(2) mgoto_def\<close>)
  qed (use mutex_unlocking(2) in \<open>(intro move; auto simp: mutex_unlock_def mgoto_def)+\<close>)
qed

end
