(* ===== verification/Mutex_Contract.thy ===== *)
theory Mutex_Contract
  imports Mutex
begin

text \<open>
  The wait queue of the mutex as a list, the invariant that no wake-up is lost, and the properties of the mutex.
\<close>

section \<open>Searching the wait queue\<close>

lemma find_tail_eq: "chain data p (xs @ [x]) \<Longrightarrow> find_tail data p = Some x"
proof (induction xs arbitrary: p)
  case Nil
  then show ?case by (subst find_tail.simps) simp
next
  case (Cons y ys)
  then have "data p \<noteq> 0" "chain data (data p) (ys @ [x])" by (cases "ys @ [x]"; auto)+
  then show ?case using Cons.IH [of "data p"] by (subst find_tail.simps) simp
qed

section \<open>The wait queue as a list\<close>

fun in_queue :: "mutex_pc \<Rightarrow> bool" where
  "in_queue (L_qunlock t) = True"
| "in_queue (L_wait t) = True"
| "in_queue (L_block t) = True"
| "in_queue (L_blocked t) = True"
| "in_queue (L_relock t) = True"
| "in_queue (L_remove t) = True"
| "in_queue p = False"

fun prepared :: "mutex_pc \<Rightarrow> bool" where
  "prepared (L_qlock t) = True"
| "prepared (L_append t) = True"
| "prepared p = False"

definition waiters :: "mutex_state \<Rightarrow> u64 list \<Rightarrow> bool" where
  "waiters s W \<longleftrightarrow> chain (wait_data s) (m_wait_queue s) W \<and> (\<forall>c. c \<in> set W \<longleftrightarrow> in_queue (m_pc s c)) \<and>
     (\<forall>c. in_queue (m_pc s c) \<or> prepared (m_pc s c) \<longrightarrow> wait_reason s c = of_nat (tk s c)) \<and>
     (\<forall>c. prepared (m_pc s c) \<longrightarrow> wait_data s c = 0)"

lemma waitersD:
  assumes "waiters s W"
  shows "chain (wait_data s) (m_wait_queue s) W" "c \<in> set W \<longleftrightarrow> in_queue (m_pc s c)"
    "in_queue (m_pc s c) \<or> prepared (m_pc s c) \<Longrightarrow> wait_reason s c = of_nat (tk s c)"
    "prepared (m_pc s c) \<Longrightarrow> wait_data s c = 0"
  using assms unfolding waiters_def by blast+

text \<open>A move of task \<open>c\<close> that does not touch the queue.\<close>

definition quiet :: "u64 \<Rightarrow> mutex_state \<Rightarrow> mutex_state \<Rightarrow> bool" where
  "quiet c s t \<longleftrightarrow> (\<forall>d. d \<noteq> c \<longrightarrow> m_pc t d = m_pc s d \<and> tk t d = tk s d) \<and> m_wait_queue t = m_wait_queue s \<and>
     wait_data t = wait_data s \<and> wait_reason t = wait_reason s"

lemma waiters_quiet:
  assumes w: "waiters s W" and q: "quiet c s t" and p: "in_queue (m_pc t c) = in_queue (m_pc s c)" "prepared (m_pc t c) \<longrightarrow> prepared (m_pc s c)"
    and k: "in_queue (m_pc t c) \<or> prepared (m_pc t c) \<longrightarrow> tk t c = tk s c"
  shows "waiters t W"
proof -
  have "in_queue (m_pc t d) = in_queue (m_pc s d)" "prepared (m_pc t d) \<longrightarrow> prepared (m_pc s d)"
    "in_queue (m_pc t d) \<or> prepared (m_pc t d) \<longrightarrow> tk t d = tk s d" for d
    using p k q by (cases "d = c"; simp add: quiet_def)+
  then show ?thesis using w q unfolding waiters_def quiet_def by metis
qed

lemma waiters_append:
  assumes w: "waiters s W" and c: "m_pc s c = L_append x" "c \<noteq> 0"
  shows "\<exists>u. wait_append c s = Some u \<and> waiters (mgoto c (L_qunlock x) u) (W @ [c]) \<and> in_ready_queue u = in_ready_queue s"
proof -
  note D = waitersD [OF w]
  have cW: "c \<notin> set W" and c0: "wait_data s c = 0" using D(2) [of c] D(4) [of c] c by simp_all
  have ch1: "chain (wait_data s) c [c]" using c0 c(2) by simp
  have rest: "waiters (mgoto c (L_qunlock x) u) (W @ [c])"
    if u: "chain (wait_data u) (m_wait_queue u) (W @ [c])" "m_pc u = m_pc s" "tk u = tk s" "wait_reason u = wait_reason s"
      "\<forall>d. d \<notin> set W \<longrightarrow> wait_data u d = wait_data s d" for u
  proof -
    have "d \<notin> set W" if "prepared (m_pc s d)" for d using D(2) [of d] that by (cases "m_pc s d") auto
    then show ?thesis using u D(2,3,4) c by (auto simp: waiters_def mgoto_def split: if_splits)
  qed
  show ?thesis
  proof (cases W rule: rev_cases)
    case Nil
    then have q: "m_wait_queue s = 0" using D(1) by simp
    let ?u = "s\<lparr>m_wait_queue := c, wait_on := (wait_on s)(c := m_address s)\<rparr>"
    have "wait_append c s = Some ?u" using q by (simp add: wait_append_def)
    moreover have "waiters (mgoto c (L_qunlock x) ?u) (W @ [c])" by (rule rest) (simp_all add: Nil c0 c(2))
    ultimately show ?thesis by (intro exI [of _ ?u]) simp
  next
    case (snoc ys y)
    have q: "m_wait_queue s \<noteq> 0" using D(1) chain_head [OF D(1)] chain_nonnull [OF D(1)] snoc by (cases ys) auto
    let ?u = "s\<lparr>wait_data := (wait_data s)(y := c), wait_on := (wait_on s)(c := m_address s)\<rparr>"
    have "find_tail (wait_data s) (m_wait_queue s) = Some y" using find_tail_eq D(1) snoc by blast
    then have "wait_append c s = Some ?u" using q by (simp add: wait_append_def)
    moreover have "chain ((wait_data s)(y := c)) (m_wait_queue s) (W @ [c])"
      using chain_relink [of "wait_data s" "m_wait_queue s" W "[]" c "[c]"] D(1) snoc ch1 cW by auto
    then have "waiters (mgoto c (L_qunlock x) ?u) (W @ [c])" by (rule rest [of ?u, simplified]) (simp_all add: snoc)
    ultimately show ?thesis by (intro exI [of _ ?u]) simp
  qed
qed

lemma waiters_remove:
  assumes w: "waiters s W" and c: "m_pc s c = L_remove x"
  shows "\<exists>u. wait_remove c s = Some u \<and> waiters (mgoto c (L_reunlock x) u) (filter (\<lambda>d. d \<noteq> c) W) \<and> in_ready_queue u = in_ready_queue s"
proof -
  note D = waitersD [OF w]
  have "c \<in> set W" using D(2) [of c] c by simp
  then obtain A B where W: "W = A @ c # B" by (meson split_list)
  have dW: "c \<notin> set A" "c \<notin> set B" using chain_distinct [OF D(1)] W by auto
  then have "filter (\<lambda>d. d \<noteq> c) A = A" "filter (\<lambda>d. d \<noteq> c) B = B" by (auto simp: filter_id_conv)
  then have f: "filter (\<lambda>d. d \<noteq> c) W = A @ B" using W by simp
  have fw: "find_link (wait_data s) (m_wait_queue s) c 0 = Some (Some (last (0 # A)))"
    using D(1) W dW by (intro find_link_eq) auto
  have ch: "chain (wait_data s) (m_wait_queue s) (A @ c # B)" using D(1) W by simp
  have cB: "chain (wait_data s) (wait_data s c) B" using chain_append [OF ch] by simp
  have rest: "waiters (mgoto c (L_reunlock x) u) (A @ B)"
    if u: "chain (wait_data u) (m_wait_queue u) (A @ B)" "m_pc u = m_pc s" "tk u = tk s" "wait_reason u = wait_reason s"
      "\<forall>d. d \<notin> set W \<longrightarrow> wait_data u d = wait_data s d" for u
  proof -
    have "d \<notin> set W" if "prepared (m_pc s d)" for d using D(2) [of d] that by (cases "m_pc s d") auto
    then show ?thesis using u D(2,3,4) c W dW by (auto simp: waiters_def mgoto_def split: if_splits)
  qed
  show ?thesis
  proof (cases "A = []")
    case True
    let ?u = "s\<lparr>m_wait_queue := wait_data s c, wait_data := (wait_data s)(c := 0), wait_on := (wait_on s)(c := 0)\<rparr>"
    have "wait_remove c s = Some ?u" using fw True by (simp add: wait_remove_def)
    moreover have "waiters (mgoto c (L_reunlock x) ?u) (A @ B)" by (rule rest) (use True cB dW W in auto)
    ultimately show ?thesis unfolding f by (intro exI [of _ ?u]) simp
  next
    case False
    let ?u = "s\<lparr>wait_data := (wait_data s)(last A := wait_data s c, c := 0), wait_on := (wait_on s)(c := 0)\<rparr>"
    have l: "last A \<in> set A" using False by simp
    then have l0: "last A \<noteq> 0" using chain_nonnull [OF ch] by (metis Un_iff set_append)
    have "wait_remove c s = Some ?u" using fw False l0 by (simp add: wait_remove_def)
    moreover have "last A \<notin> set B" using last_notin_tail [OF chain_distinct [OF ch] False] by simp
    then have "chain ((wait_data s)(last A := wait_data s c)) (m_wait_queue s) (A @ B)" by (rule chain_relink [OF ch False cB])
    then have "waiters (mgoto c (L_reunlock x) ?u) (A @ B)" by (intro rest) (use dW W l in auto)
    ultimately show ?thesis unfolding f by (intro exI [of _ ?u]) simp
  qed
qed

lemma wake_next_eq:
  assumes w: "waiters s W"
  shows "\<exists>u. wake_next n s = Some u \<and> waiters u W \<and>
    in_ready_queue u = (\<lambda>c. in_ready_queue s c \<or> find (\<lambda>w. wait_reason s w = n) W = Some c)"
proof -
  note D = waitersD [OF w]
  let ?f = "find (\<lambda>w. wait_reason s w = n) W"
  have nz: "?f = Some y \<Longrightarrow> y \<noteq> 0" for y using chain_nonnull [OF D(1)] by (metis find_Some_iff nth_mem)
  have e: "wake_next n s = Some (case ?f of None \<Rightarrow> s | Some y \<Rightarrow> s\<lparr>in_ready_queue := (in_ready_queue s)(y := True)\<rparr>)"
    using find_node_eq [OF D(1), of "\<lambda>w. wait_reason s w = n"] nz by (auto simp: wake_next_def split: option.split)
  show ?thesis
  proof (cases ?f)
    case None
    then show ?thesis using e w by (intro exI [of _ s]) simp
  next
    case (Some y)
    let ?u = "s\<lparr>in_ready_queue := (in_ready_queue s)(y := True)\<rparr>"
    have "waiters ?u W" using w by (simp add: waiters_def)
    then show ?thesis using e Some by (intro exI [of _ ?u]) (auto simp: fun_eq_iff)
  qed
qed

section \<open>Wake-ups\<close>

fun asleep :: "mutex_pc \<Rightarrow> bool" where
  "asleep (L_block t) = True"
| "asleep (L_blocked t) = True"
| "asleep p = False"

definition waking :: "u64 \<Rightarrow> mutex_pc \<Rightarrow> bool" where
  "waking n p \<longleftrightarrow> p = U_qlock n \<or> p = U_walk n"

text \<open>A sleeping task whose turn has come is in a ready queue, or the task that served the last ticket has yet to wake it.\<close>

definition none_lost :: "mutex_state \<Rightarrow> bool" where
  "none_lost s \<longleftrightarrow> (\<forall>c. asleep (m_pc s c) \<and> tk s c = g_exits s \<longrightarrow> in_ready_queue s c \<or> (\<exists>d. waking (of_nat (g_exits s)) (m_pc s d)))"

definition queue_inv :: "mutex_state \<Rightarrow> bool" where
  "queue_inv s \<longleftrightarrow> (\<exists>W. waiters s W) \<and> none_lost s"

lemma none_lost_move:
  assumes n: "none_lost s" and g: "g_exits t = g_exits s"
    and o: "\<forall>d. d \<noteq> c \<longrightarrow> m_pc t d = m_pc s d \<and> tk t d = tk s d \<and> (in_ready_queue s d \<longrightarrow> in_ready_queue t d)"
    and c: "asleep (m_pc t c) \<and> tk t c = g_exits s \<longrightarrow> asleep (m_pc s c) \<and> tk s c = g_exits s \<and> (in_ready_queue s c \<longrightarrow> in_ready_queue t c)"
    and w: "waking (of_nat (g_exits s)) (m_pc s c) \<longrightarrow> waking (of_nat (g_exits s)) (m_pc t c)"
  shows "none_lost t"
proof -
  have "\<exists>d. waking (of_nat (g_exits s)) (m_pc t d)" if "waking (of_nat (g_exits s)) (m_pc s d)" for d
    using that w o by (intro exI [of _ d]) (cases "d = c"; simp)
  moreover have "asleep (m_pc s d) \<and> tk s d = g_exits s \<and> (in_ready_queue s d \<longrightarrow> in_ready_queue t d)"
    if "asleep (m_pc t d)" "tk t d = g_exits s" for d
    using that o c by (cases "d = c") auto
  ultimately show ?thesis using n unfolding none_lost_def g by blast
qed

lemma queue_inv_quiet:
  assumes i: "queue_inv s" and q: "quiet c s t" "in_ready_queue t = in_ready_queue s" "g_exits t = g_exits s"
    and p: "in_queue (m_pc t c) = in_queue (m_pc s c)" "prepared (m_pc t c) \<longrightarrow> prepared (m_pc s c)"
      "in_queue (m_pc t c) \<or> prepared (m_pc t c) \<longrightarrow> tk t c = tk s c"
      "asleep (m_pc t c) \<longrightarrow> asleep (m_pc s c) \<or> tk s c \<noteq> g_exits s"
      "\<forall>n. waking n (m_pc s c) \<longrightarrow> waking n (m_pc t c)"
  shows "queue_inv t"
proof -
  have a: "asleep x \<Longrightarrow> in_queue x" for x by (cases x) auto
  have "none_lost t"
    by (rule none_lost_move [of s t c]) (use i q p a in \<open>auto simp: queue_inv_def quiet_def\<close>)
  then show ?thesis using i waiters_quiet [OF _ q(1) p(1-3)] unfolding queue_inv_def by blast
qed

lemma queue_inv_acquire:
  assumes i: "queue_inv s" and p: "in_queue p = in_queue (m_pc s c)" "prepared p \<longrightarrow> prepared (m_pc s c)" "\<not> asleep p"
    "\<forall>n. waking n (m_pc s c) \<longrightarrow> waking n p"
  shows "queue_inv (queue_lock_acquire c p s)"
proof (rule queue_inv_quiet [OF i])
  show "quiet c s (queue_lock_acquire c p s)"
    by (simp add: quiet_def queue_lock_acquire_def mgoto_def Let_def split: prod.splits)
qed (use p in \<open>simp_all add: queue_lock_acquire_def mgoto_def Let_def split: prod.splits\<close>)

lemma queue_inv_lock:
  assumes tok: "tickets_ok s" and i: "queue_inv s" and c: "c \<noteq> 0" and st: "mutex_lock c s = Some t"
  shows "queue_inv t"
proof -
  note simps = mutex_lock_def mgoto_def quiet_def waking_def Let_def
  note quiet = queue_inv_quiet [OF i, of c t]
  obtain W where W: "waiters s W" and nl: "none_lost s" using i by (auto simp: queue_inv_def)
  note D = waitersD [OF W]
  show ?thesis
  proof (cases "m_pc s c")
    case (L_check x)
    show ?thesis
    proof (cases "m_exits s = x")
      case True
      then show ?thesis using st L_check by (intro quiet) (auto simp: simps)
    next
      case False
      have t: "t = mgoto c (L_qlock x) (s\<lparr>wait_reason := (wait_reason s)(c := x), wait_data := (wait_data s)(c := 0)\<rparr>)"
        using st L_check False by (simp add: simps)
      have cW: "c \<notin> set W" using D(2) [of c] L_check by simp
      have "waiters t W" unfolding waiters_def t
        using D cW L_check tickets_okD(7) [OF tok, of c x] by (auto simp: mgoto_def split: if_splits)
      moreover have "none_lost t" by (rule none_lost_move [OF nl, of _ c]) (simp_all add: t mgoto_def L_check waking_def)
      ultimately show ?thesis unfolding queue_inv_def by blast
    qed
  next
    case (L_wait x)
    have "m_exits s \<noteq> x \<Longrightarrow> tk s c \<noteq> g_exits s"
      using tickets_okD(2) [OF tok] tickets_okD(7) [OF tok, of c x] L_wait by auto
    then show ?thesis using st L_wait by (intro quiet) (cases "m_exits s = x"; auto simp: simps)+
  next
    case (L_blocked x)
    then have t: "t = mgoto c (L_wait x) (s\<lparr>in_ready_queue := (in_ready_queue s)(c := False)\<rparr>)" using st by (simp add: mutex_lock_def split: if_splits)
    have "waiters t W" by (rule waiters_quiet [OF W, of c]) (simp_all add: t mgoto_def quiet_def L_blocked)
    moreover have "none_lost t" by (rule none_lost_move [OF nl, of _ c]) (simp_all add: t mgoto_def L_blocked waking_def)
    ultimately show ?thesis unfolding queue_inv_def by blast
  next
    case (L_append x)
    obtain u where u: "wait_append c s = Some u" "waiters (mgoto c (L_qunlock x) u) (W @ [c])" "in_ready_queue u = in_ready_queue s"
      using waiters_append [OF W L_append c] by blast
    have t: "t = mgoto c (L_qunlock x) u" using st L_append u(1) by (simp add: mutex_lock_def)
    have "none_lost t"
      by (rule none_lost_move [OF nl, of _ c])
        (use queue_same_tickets(1) [OF u(1)] u(3) in \<open>simp_all add: t mgoto_def L_append waking_def same_tickets_def\<close>)
    then show ?thesis using u(2) t unfolding queue_inv_def by blast
  next
    case (L_remove x)
    obtain u where u: "wait_remove c s = Some u" "waiters (mgoto c (L_reunlock x) u) (filter (\<lambda>d. d \<noteq> c) W)" "in_ready_queue u = in_ready_queue s"
      using waiters_remove [OF W L_remove] by blast
    have t: "t = mgoto c (L_reunlock x) u" using st L_remove u(1) by (simp add: mutex_lock_def)
    have "none_lost t"
      by (rule none_lost_move [OF nl, of _ c])
        (use queue_same_tickets(2) [OF u(1)] u(3) in \<open>simp_all add: t mgoto_def L_remove waking_def same_tickets_def\<close>)
    then show ?thesis using u(2) t unfolding queue_inv_def by blast
  next
    case (L_qlock x)
    then show ?thesis using st queue_inv_acquire [OF i, of "L_append x" c] by (simp add: mutex_lock_def waking_def)
  next
    case (L_relock x)
    then show ?thesis using st queue_inv_acquire [OF i, of "L_remove x" c] by (simp add: mutex_lock_def waking_def)
  qed (use st in \<open>(intro quiet; auto simp: simps take_ticket_def atomic_compare_exchange_64_def atomic_fetch_add_64_def
        queue_lock_release_def split: if_splits)+\<close>)
qed

lemma queue_inv_try_lock:
  assumes i: "queue_inv s" and st: "mutex_try_lock c s = Some t"
  shows "queue_inv t"
  by (rule queue_inv_quiet [OF i, of c t]; cases "m_pc s c")
    (use st in \<open>auto simp: mutex_try_lock_def mgoto_def quiet_def waking_def Let_def take_ticket_def atomic_compare_exchange_64_def split: if_splits\<close>)

lemma queue_inv_unlock:
  assumes tok: "tickets_ok s" and lt: "g_entries s < 2 ^ 64" and i: "queue_inv s" and st: "mutex_unlock c s = Some t"
  shows "queue_inv t"
proof -
  note simps = mutex_unlock_def mgoto_def quiet_def waking_def
  note quiet = queue_inv_quiet [OF i, of c t]
  obtain W where W: "waiters s W" and nl: "none_lost s" using i by (auto simp: queue_inv_def)
  note D = waitersD [OF W]
  show ?thesis
  proof (cases "m_pc s c")
    case (U_store n)
    have n: "n = of_nat (g_exits s + 1)" using tickets_okD(9) [OF tok U_store] .
    have t: "t = mgoto c (U_qlock n) (s\<lparr>m_exits := n, g_exits := g_exits s + 1\<rparr>)" using st U_store by (simp add: mutex_unlock_def)
    have "waiters t W" by (rule waiters_quiet [OF W, of c]) (simp_all add: t mgoto_def quiet_def U_store)
    moreover have "waking (of_nat (g_exits t)) (m_pc t c)" by (simp add: t mgoto_def waking_def n)
    then have "none_lost t" unfolding none_lost_def by blast
    ultimately show ?thesis unfolding queue_inv_def by blast
  next
    case (U_qlock n)
    then show ?thesis using st queue_inv_acquire [OF i, of "U_walk n" c] by (simp add: mutex_unlock_def waking_def)
  next
    case (U_walk n)
    obtain u where u: "wake_next n s = Some u" "waiters u W"
      "in_ready_queue u = (\<lambda>c. in_ready_queue s c \<or> find (\<lambda>w. wait_reason s w = n) W = Some c)"
      using wake_next_eq [OF W, of n] by blast
    have t: "t = mgoto c U_qunlock u" using st U_walk u(1) by (simp add: mutex_unlock_def)
    note sm = queue_same_tickets(3) [OF u(1), unfolded same_tickets_def]
    have "waiters t W" by (rule waiters_quiet [OF u(2), of c]) (use sm in \<open>simp_all add: t mgoto_def quiet_def U_walk\<close>)
    moreover have "none_lost t"
    proof (cases "n = of_nat (g_exits s)")
      case False
      then show ?thesis
        by (intro none_lost_move [OF nl, of _ c]) (use sm u(3) in \<open>simp_all add: t mgoto_def U_walk waking_def\<close>)
    next
      case True
      have "in_ready_queue t d" if "asleep (m_pc t d)" "tk t d = g_exits t" for d
      proof -
        have d: "asleep (m_pc s d)" "tk s d = g_exits s" using that sm by (auto simp: t mgoto_def split: if_splits)
        have tick: "in_queue p \<Longrightarrow> has_ticket p" "asleep p \<Longrightarrow> in_queue p" for p by (cases p; simp add: has_ticket_def)+
        have dW: "d \<in> set W" using D(2) tick(2) [OF d(1)] by blast
        have dn: "wait_reason s d = n" using D(3) [of d] tick(2) [OF d(1)] d(2) True by metis
        then have "find (\<lambda>w. wait_reason s w = n) W \<noteq> None" using dW unfolding find_None_iff by blast
        then obtain w where w: "find (\<lambda>w. wait_reason s w = n) W = Some w" by blast
        then have w': "w \<in> set W" "wait_reason s w = n" unfolding find_Some_iff by auto
        then have "of_nat (tk s w) = (of_nat (tk s d) :: u64)" using D(2) [of w] D(3) [of w] d(2) True by metis
        moreover have h: "has_ticket (m_pc s w)" "has_ticket (m_pc s d)" using w' dW D(2) tick(1) by blast+
        ultimately have "tk s w = tk s d"
          using tickets_okD(4) [OF tok h(1)] tickets_okD(4) [OF tok h(2)] lt by (intro of_nat_eq) auto
        then have "w = d" using tickets_okD(6) [OF tok h] by simp
        then show ?thesis using w u(3) by (simp add: t mgoto_def)
      qed
      then show ?thesis unfolding none_lost_def by blast
    qed
    ultimately show ?thesis unfolding queue_inv_def by blast
  qed (use st in \<open>(intro quiet; auto simp: simps queue_lock_release_def)+\<close>)
qed

lemma queue_inv_step: "mutex_step s t \<Longrightarrow> tickets_ok s \<Longrightarrow> g_entries s < 2 ^ 64 \<Longrightarrow> queue_inv s \<Longrightarrow> queue_inv t"
proof (induction rule: mutex_step.induct)
  case (mutex_call_lock c s)
  show ?case by (rule queue_inv_quiet [OF mutex_call_lock(5), of c]) (simp_all add: mgoto_def quiet_def waking_def mutex_call_lock)
next
  case (mutex_call_try c s)
  show ?case by (rule queue_inv_quiet [OF mutex_call_try(5), of c]) (simp_all add: mgoto_def quiet_def waking_def mutex_call_try)
qed (use queue_inv_lock queue_inv_try_lock queue_inv_unlock in blast)+

section \<open>Reachable states\<close>

definition mutex_inv :: "mutex_state \<Rightarrow> bool" where
  "mutex_inv s \<longleftrightarrow> section_ok s \<and> (g_entries s < 2 ^ 64 \<longrightarrow> tickets_ok s \<and> queue_inv s)"

abbreviation mutex_reachable :: "mutex_state \<Rightarrow> bool" where
  "mutex_reachable \<equiv> reachable mutex_start mutex_step"

interpretation mtx: invariant_system mutex_start mutex_step mutex_inv
proof
  show "mutex_inv s" if "mutex_start s" for s
    using that by (auto simp: mutex_start_def mutex_init_def mutex_inv_def section_ok_def tickets_ok_def queue_inv_def waiters_def
        none_lost_def has_ticket_def)
  show "mutex_inv t" if "mutex_inv s" "mutex_step s t" for s t
    using that section_step [OF that(2)] g_entries_mono [OF that(2)] tickets_step [OF that(2)] queue_inv_step [OF that(2)]
    unfolding mutex_inv_def by auto
qed

text \<open>Runs: a list of calls of \<^verbatim>\<open>mutex_lock\<close> and of steps inside the routines.\<close>

datatype mutex_act = Call u64 | Lock u64 | Unlock u64

fun act :: "mutex_act \<Rightarrow> mutex_state \<Rightarrow> mutex_state option" where
  "act (Call c) s = (if c \<noteq> 0 \<and> m_pc s c = M_outside then Some (mgoto c L_exits s) else None)"
| "act (Lock c) s = (if c \<noteq> 0 then mutex_lock c s else None)"
| "act (Unlock c) s = (if c \<noteq> 0 then mutex_unlock c s else None)"

fun acts :: "mutex_act list \<Rightarrow> mutex_state \<Rightarrow> mutex_state option" where
  "acts [] s = Some s"
| "acts (a # as) s = Option.bind (act a s) (acts as)"

lemma acts_reach: "acts as s = Some t \<Longrightarrow> mutex_reachable s \<Longrightarrow> mutex_reachable t"
proof (induction as arbitrary: s)
  case Nil
  then show ?case by simp
next
  case (Cons a as)
  then obtain u where u: "act a s = Some u" "acts as u = Some t" by (auto simp: bind_eq_Some_conv)
  have "mutex_step s u"
    using u(1) by (cases a) (auto intro: mutex_step.intros split: if_splits)
  then show ?case using Cons.IH [OF u(2)] reach_step [OF Cons.prems(2)] by blast
qed

definition mutex0 :: mutex_state where
  "mutex0 = mutex_init \<lparr>m_entries = 5, m_exits = 3, m_queue_lock = 1, m_wait_queue = 7, m_owner = 7, m_address = 64, wait_reason = (\<lambda>_. 0),
     wait_data = (\<lambda>_. 0), wait_on = (\<lambda>_. 0), in_ready_queue = (\<lambda>_. False), m_pc = (\<lambda>_. M_outside), g_entries = 0, g_exits = 0, tk = (\<lambda>_. 0)\<rparr>"

lemma mutex0_reachable: "mutex_reachable mutex0"
  by (rule reach_init, unfold mutex_start_def mutex0_def, rule exI, rule conjI [OF refl]) simp

section \<open>Properties\<close>

text \<open>C27. Mutual exclusion in ticket order: at every reachable state in which fewer than 2 to the 64 tickets have been taken, the
  mutex is locked while a task is in its critical section, no other task is past the point where it takes the mutex, and
  every other task that has a ticket took it later.\<close>

theorem mutex_fifo_exclusion:
  assumes "mutex_reachable s" "g_entries s < 2 ^ 64" "m_pc s c = M_holding"
  shows "mutex_is_locked s \<and> (\<forall>d. d \<noteq> c \<longrightarrow> \<not> has_turn (m_pc s d) \<and> (has_ticket (m_pc s d) \<longrightarrow> tk s c < tk s d))"
proof -
  have ok: "tickets_ok s" using mtx.reachable_inv [OF assms(1)] assms(2) by (simp add: mutex_inv_def)
  note D = tickets_okD [OF ok]
  have c: "has_ticket (m_pc s c)" "tk s c = g_exits s" "g_exits s < g_entries s"
    using assms(3) D(4) [of c] D(5) [of c] by (auto simp: has_ticket_def)
  have "g_entries s \<noteq> g_exits s" using c(3) by simp
  then have "mutex_is_locked s" using D(1,2) of_nat_eq [of "g_entries s" "g_exits s"] assms(2) c(3) by (auto simp: mutex_is_locked_def)
  moreover have "\<not> has_turn (m_pc s d)" if "d \<noteq> c" for d
    using D(5) [of d] D(6) [OF _ c(1), of d] c(2) that by (auto simp: has_ticket_def)
  moreover have "tk s c < tk s d" if "d \<noteq> c" "has_ticket (m_pc s d)" for d
    using D(4) [OF that(2)] D(6) [OF that(2) c(1)] c(2) that(1) by force
  ultimately show ?thesis by blast
qed

theorem mutex_fifo_exclusion_witness:
  "\<exists>s :: mutex_state. m_pc s 1 = M_holding \<and> m_pc s 2 = L_check 1 \<and> mutex_is_locked s \<and> tk s 1 < tk s 2"
proof -
  let ?as = "[Call 1, Lock 1, Lock 1, Lock 1, Lock 1, Call 2, Lock 2, Lock 2, Lock 2]"
  have "map_option (\<lambda>s. (m_pc s 1, m_pc s 2, g_entries s)) (acts ?as mutex0) = Some (M_holding, L_check 1, 2)" by code_simp
  then obtain s where s: "acts ?as mutex0 = Some s" "m_pc s 1 = M_holding" "m_pc s 2 = L_check 1" "g_entries s = 2" by auto
  show ?thesis
    using mutex_fifo_exclusion [OF acts_reach [OF s(1) mutex0_reachable] _ s(2)] s(2-4) by (intro exI [of _ s]) (auto simp: has_ticket_def)
qed



end
