(* ===== verification/Blk.thy ===== *)
theory Blk
  imports Kernel_Prelude
begin

text \<open>
  The block device layer of \<^verbatim>\<open>src/src/kernel/blk/blk.c\<close>: the list of registered devices, their reference
  counts and the requests passed to the drivers.  A driver is the table of functions a device carries, so it is data
  of the model; \<open>'w\<close> is the state of the hardware behind the drivers.  A buffer argument is the list of
  bytes it holds, \<open>None\<close> for a null pointer.  The list lock is taken and released inside one routine
  and is not part of the state; messages to the console are left out.
\<close>

section \<open>Data\<close>

abbreviation (input) EIO :: int where "EIO \<equiv> 5"
abbreviation (input) EEXIST :: int where "EEXIST \<equiv> 17"
abbreviation (input) ENODEV :: int where "ENODEV \<equiv> 19"
abbreviation (input) EINVAL :: int where "EINVAL \<equiv> 22"
abbreviation (input) EROFS :: int where "EROFS \<equiv> 30"
abbreviation (input) BLK_FLAG_READ_ONLY :: u32 where "BLK_FLAG_READ_ONLY \<equiv> 2"
abbreviation (input) BLK_OP_READ :: u8 where "BLK_OP_READ \<equiv> 0"
abbreviation (input) BLK_OP_WRITE :: u8 where "BLK_OP_WRITE \<equiv> 1"
abbreviation (input) BLK_OP_FLUSH :: u8 where "BLK_OP_FLUSH \<equiv> 2"
abbreviation (input) BLK_REQ_SYNC :: u16 where "BLK_REQ_SYNC \<equiv> 1"

record blk_request =
  rq_dev :: u64
  rq_operation :: u8
  rq_flags :: u16
  rq_sector :: u64
  rq_count :: u32
  rq_status :: int
  rq_private_data :: u64

record 'w blk_ops =
  op_open :: "(u64 \<Rightarrow> 'w \<Rightarrow> int \<times> 'w) option"
  op_close :: "(u64 \<Rightarrow> 'w \<Rightarrow> 'w) option"
  op_request :: "(u64 \<Rightarrow> blk_request \<Rightarrow> u8 list \<Rightarrow> 'w \<Rightarrow> int \<times> u8 list \<times> 'w) option"
  op_ioctl :: "(u64 \<Rightarrow> u32 \<Rightarrow> u64 \<Rightarrow> 'w \<Rightarrow> int \<times> 'w) option"
  op_flush :: "(u64 \<Rightarrow> 'w \<Rightarrow> int \<times> 'w) option"

record 'w blk_device =
  d_name :: string
  d_major :: u16
  d_minor :: u16
  d_flags :: u32
  d_block_size :: u32
  d_num_blocks :: u64
  d_ops :: "'w blk_ops option"
  d_open_count :: u32
  d_next :: u64

record 'w blk =
  blk_devices :: "u64 \<Rightarrow> 'w blk_device"
  blk_device_list :: u64
  world :: 'w

definition upd_dev :: "u64 \<Rightarrow> ('w blk_device \<Rightarrow> 'w blk_device) \<Rightarrow> ('w, 'a) blk_scheme \<Rightarrow> ('w, 'a) blk_scheme" where
  "upd_dev p f s = s\<lparr>blk_devices := (blk_devices s)(p := f (blk_devices s p))\<rparr>"

text \<open>The operations table of a device; reading it through a null pointer halts.\<close>

definition ops_of :: "u64 \<Rightarrow> ('w, 'a) blk_scheme \<Rightarrow> 'w blk_ops result" where
  "ops_of dev s = (case d_ops (blk_devices s dev) of None \<Rightarrow> Inl Null_Deref | Some ops \<Rightarrow> Inr ops)"

definition call_request ::
  "u64 \<Rightarrow> blk_request \<Rightarrow> u8 list \<Rightarrow> ('w, 'a) blk_scheme \<Rightarrow> (int \<times> u8 list \<times> ('w, 'a) blk_scheme) result" where
  "call_request dev req buffer s =
     rbind (ops_of dev s) (\<lambda>ops.
       case op_request ops of
         None \<Rightarrow> Inl Null_Deref
       | Some request \<Rightarrow>
           let (ret, buffer, w) = request dev req buffer (world s) in Inr (ret, buffer, s\<lparr>world := w\<rparr>))"

section \<open>Registration\<close>

definition blk_init :: "('w, 'a) blk_scheme \<Rightarrow> ('w, 'a) blk_scheme" where
  "blk_init s = s\<lparr>blk_device_list := 0\<rparr>"

abbreviation dev_next :: "('w, 'a) blk_scheme \<Rightarrow> u64 \<Rightarrow> u64" where
  "dev_next s p \<equiv> d_next (blk_devices s p)"

definition blk_find_device :: "u16 \<Rightarrow> u16 \<Rightarrow> ('w, 'a) blk_scheme \<Rightarrow> u64 result" where
  "blk_find_device major minor s =
     returns (find_node (dev_next s) (\<lambda>p. d_major (blk_devices s p) = major \<and> d_minor (blk_devices s p) = minor) (blk_device_list s))"

definition blk_find_device_by_name :: "string option \<Rightarrow> ('w, 'a) blk_scheme \<Rightarrow> u64 result" where
  "blk_find_device_by_name nm s =
     (case nm of
        None \<Rightarrow> Inr 0
      | Some nm \<Rightarrow> returns (find_node (dev_next s) (\<lambda>p. d_name (blk_devices s p) = nm) (blk_device_list s)))"

definition blk_register_device :: "u64 \<Rightarrow> ('w, 'a) blk_scheme \<Rightarrow> (int \<times> ('w, 'a) blk_scheme) result" where
  "blk_register_device dev s =
     (if dev = 0 \<or> d_ops (blk_devices s dev) = None then Inr (- EINVAL, s)
      else if op_request (the (d_ops (blk_devices s dev))) = None then Inr (- EINVAL, s)
      else rbind (blk_find_device (d_major (blk_devices s dev)) (d_minor (blk_devices s dev)) s) (\<lambda>existing.
        if existing \<noteq> 0 then Inr (- EEXIST, s)
        else
          let s = upd_dev dev (\<lambda>d. d\<lparr>d_open_count := 0\<rparr>) s;
              s = upd_dev dev (\<lambda>d. d\<lparr>d_next := blk_device_list s\<rparr>) s
          in Inr (0, s\<lparr>blk_device_list := dev\<rparr>)))"

definition blk_unregister_device :: "u64 \<Rightarrow> ('w, 'a) blk_scheme \<Rightarrow> ('w, 'a) blk_scheme result" where
  "blk_unregister_device dev s =
     (if dev = 0 then Inr s
      else if d_open_count (blk_devices s dev) > 0 then Inr s
      else rbind (returns (find_link (dev_next s) (blk_device_list s) dev 0)) (\<lambda>found.
        case found of
          None \<Rightarrow> Inr s
        | Some prev \<Rightarrow>
            let n = d_next (blk_devices s dev)
            in Inr (if prev = 0 then s\<lparr>blk_device_list := n\<rparr> else upd_dev prev (\<lambda>d. d\<lparr>d_next := n\<rparr>) s)))"

text \<open>\<open>fn\<close> is the caller's function; it may change the state.\<close>

partial_function (option) for_each_device ::
  "(u64 \<Rightarrow> ('w, 'a) blk_scheme \<Rightarrow> int \<times> ('w, 'a) blk_scheme) \<Rightarrow> u64 \<Rightarrow> ('w, 'a) blk_scheme \<Rightarrow> (int \<times> ('w, 'a) blk_scheme) option" where
  "for_each_device fn dev s =
     (if dev = 0 then Some (0, s)
      else
        let n = d_next (blk_devices s dev);
            (ret, s) = fn dev s
        in if ret \<noteq> 0 then Some (ret, s) else for_each_device fn n s)"

definition blk_for_each_device ::
  "(u64 \<Rightarrow> ('w, 'a) blk_scheme \<Rightarrow> int \<times> ('w, 'a) blk_scheme) option \<Rightarrow> ('w, 'a) blk_scheme \<Rightarrow> (int \<times> ('w, 'a) blk_scheme) result" where
  "blk_for_each_device fn s =
     (case fn of None \<Rightarrow> Inr (- EINVAL, s) | Some fn \<Rightarrow> returns (for_each_device fn (blk_device_list s) s))"

section \<open>Use\<close>

definition blk_open :: "u64 \<Rightarrow> ('w, 'a) blk_scheme \<Rightarrow> (int \<times> ('w, 'a) blk_scheme) result" where
  "blk_open dev s =
     (if dev = 0 then Inr (- ENODEV, s)
      else
        let opened = (\<lambda>s. Inr (0, upd_dev dev (\<lambda>d. d\<lparr>d_open_count := d_open_count d + 1\<rparr>) s))
        in if d_open_count (blk_devices s dev) = 0
           then rbind (ops_of dev s) (\<lambda>ops.
             case op_open ops of
               None \<Rightarrow> opened s
             | Some open_fn \<Rightarrow>
                 let (ret, w) = open_fn dev (world s); s = s\<lparr>world := w\<rparr>
                 in if ret \<noteq> 0 then Inr (ret, s) else opened s)
           else opened s)"

definition blk_close :: "u64 \<Rightarrow> ('w, 'a) blk_scheme \<Rightarrow> ('w, 'a) blk_scheme result" where
  "blk_close dev s =
     (if dev = 0 \<or> d_open_count (blk_devices s dev) = 0 then Inr s
      else
        let s = upd_dev dev (\<lambda>d. d\<lparr>d_open_count := d_open_count d - 1\<rparr>) s
        in if d_open_count (blk_devices s dev) = 0
           then rbind (ops_of dev s) (\<lambda>ops.
             case op_close ops of None \<Rightarrow> Inr s | Some close_fn \<Rightarrow> Inr (s\<lparr>world := close_fn dev (world s)\<rparr>))
           else Inr s)"

definition blk_read ::
  "u64 \<Rightarrow> u64 \<Rightarrow> u32 \<Rightarrow> u8 list option \<Rightarrow> ('w, 'a) blk_scheme \<Rightarrow> (int \<times> u8 list option \<times> ('w, 'a) blk_scheme) result" where
  "blk_read dev sector count buffer s =
     (case buffer of
        None \<Rightarrow> Inr (- EINVAL, None, s)
      | Some bytes \<Rightarrow>
          if dev = 0 then Inr (- EINVAL, buffer, s)
          else if d_open_count (blk_devices s dev) = 0 then Inr (- ENODEV, buffer, s)
          else if sector + ucast count > d_num_blocks (blk_devices s dev) then Inr (- EINVAL, buffer, s)
          else
            let req = \<lparr>rq_dev = dev, rq_operation = BLK_OP_READ, rq_flags = 0, rq_sector = sector, rq_count = count, rq_status = 0,
                       rq_private_data = 0\<rparr>
            in rbind (call_request dev req bytes s) (\<lambda>(ret, bytes, s). Inr (ret, Some bytes, s)))"

definition blk_write ::
  "u64 \<Rightarrow> u64 \<Rightarrow> u32 \<Rightarrow> u8 list option \<Rightarrow> ('w, 'a) blk_scheme \<Rightarrow> (int \<times> ('w, 'a) blk_scheme) result" where
  "blk_write dev sector count buffer s =
     (case buffer of
        None \<Rightarrow> Inr (- EINVAL, s)
      | Some bytes \<Rightarrow>
          if dev = 0 then Inr (- EINVAL, s)
          else if d_open_count (blk_devices s dev) = 0 then Inr (- ENODEV, s)
          else if d_flags (blk_devices s dev) AND BLK_FLAG_READ_ONLY \<noteq> 0 then Inr (- EROFS, s)
          else if sector + ucast count > d_num_blocks (blk_devices s dev) then Inr (- EINVAL, s)
          else
            let req = \<lparr>rq_dev = dev, rq_operation = BLK_OP_WRITE, rq_flags = 0, rq_sector = sector, rq_count = count, rq_status = 0,
                       rq_private_data = 0\<rparr>
            in rbind (call_request dev req bytes s) (\<lambda>(ret, _, s). Inr (ret, s)))"

definition blk_flush :: "u64 \<Rightarrow> ('w, 'a) blk_scheme \<Rightarrow> (int \<times> ('w, 'a) blk_scheme) result" where
  "blk_flush dev s =
     (if dev = 0 then Inr (- EINVAL, s)
      else if d_open_count (blk_devices s dev) = 0 then Inr (- ENODEV, s)
      else rbind (ops_of dev s) (\<lambda>ops.
        case op_flush ops of
          Some flush_fn \<Rightarrow> (let (ret, w) = flush_fn dev (world s) in Inr (ret, s\<lparr>world := w\<rparr>))
        | None \<Rightarrow>
            let req = \<lparr>rq_dev = dev, rq_operation = BLK_OP_FLUSH, rq_flags = BLK_REQ_SYNC, rq_sector = 0, rq_count = 0, rq_status = 0,
                       rq_private_data = 0\<rparr>
            in rbind (call_request dev req [] s) (\<lambda>(ret, _, s). Inr (ret, s))))"

definition blk_ioctl :: "u64 \<Rightarrow> u32 \<Rightarrow> u64 \<Rightarrow> ('w, 'a) blk_scheme \<Rightarrow> (int \<times> ('w, 'a) blk_scheme) result" where
  "blk_ioctl dev cmd arg s =
     (if dev = 0 then Inr (- EINVAL, s)
      else if d_open_count (blk_devices s dev) = 0 then Inr (- ENODEV, s)
      else rbind (ops_of dev s) (\<lambda>ops.
        case op_ioctl ops of
          Some ioctl_fn \<Rightarrow> (let (ret, w) = ioctl_fn dev cmd arg (world s) in Inr (ret, s\<lparr>world := w\<rparr>))
        | None \<Rightarrow> Inr (- EINVAL, s)))"

definition blk_sector_to_bytes :: "u64 \<Rightarrow> u64 \<Rightarrow> ('w, 'a) blk_scheme \<Rightarrow> u64" where
  "blk_sector_to_bytes dev sector s = sector * ucast (d_block_size (blk_devices s dev))"

definition blk_bytes_to_sector :: "u64 \<Rightarrow> u64 \<Rightarrow> ('w, 'a) blk_scheme \<Rightarrow> u64 result" where
  "blk_bytes_to_sector dev bytes s =
     (if d_block_size (blk_devices s dev) = 0 then Inl Divide_Error else Inr (bytes div ucast (d_block_size (blk_devices s dev))))"

definition blk_get_capacity :: "u64 \<Rightarrow> ('w, 'a) blk_scheme \<Rightarrow> u64" where
  "blk_get_capacity dev s = d_num_blocks (blk_devices s dev) * ucast (d_block_size (blk_devices s dev))"

section \<open>The device list\<close>

text \<open>The devices registered are the list \<open>D\<close>, no two of them with the same numbers, each with a request function.\<close>

definition blk_inv :: "('w, 'a) blk_scheme \<Rightarrow> u64 list \<Rightarrow> bool" where
  "blk_inv s D \<longleftrightarrow> chain (dev_next s) (blk_device_list s) D \<and>
     distinct (map (\<lambda>p. (d_major (blk_devices s p), d_minor (blk_devices s p))) D) \<and>
     (\<forall>p \<in> set D. \<exists>ops. d_ops (blk_devices s p) = Some ops \<and> op_request ops \<noteq> None)"

lemma blk_inv_find:
  assumes "blk_inv s D"
  shows "blk_find_device major minor s =
    Inr (case find (\<lambda>p. d_major (blk_devices s p) = major \<and> d_minor (blk_devices s p) = minor) D of None \<Rightarrow> 0 | Some p \<Rightarrow> p)"
  using assms find_node_eq [of "dev_next s" "blk_device_list s" D] by (simp add: blk_inv_def blk_find_device_def)

lemma blk_register_device_inv:
  assumes inv: "blk_inv s D" and dev: "dev \<noteq> 0" "dev \<notin> set D" and ops: "d_ops (blk_devices s dev) = Some ops" "op_request ops \<noteq> None"
    and new: "\<forall>p \<in> set D. (d_major (blk_devices s p), d_minor (blk_devices s p)) \<noteq> (d_major (blk_devices s dev), d_minor (blk_devices s dev))"
  shows "\<exists>u. blk_register_device dev s = Inr (0, u) \<and> blk_inv u (dev # D)"
proof -
  let ?same = "\<lambda>p. d_major (blk_devices s p) = d_major (blk_devices s dev) \<and> d_minor (blk_devices s p) = d_minor (blk_devices s dev)"
  let ?s1 = "upd_dev dev (\<lambda>d. d\<lparr>d_open_count := 0\<rparr>) s"
  let ?u = "(upd_dev dev (\<lambda>d. d\<lparr>d_next := blk_device_list s\<rparr>) ?s1)\<lparr>blk_device_list := dev\<rparr>"
  have "find ?same D = None" using new by (auto simp: find_None_iff)
  then have res: "blk_register_device dev s = Inr (0, ?u)"
    using blk_inv_find [OF inv, of "d_major (blk_devices s dev)" "d_minor (blk_devices s dev)"] dev ops
    by (simp add: blk_register_device_def Let_def upd_dev_def)
  have same: "d_major (blk_devices ?u p) = d_major (blk_devices s p)" "d_minor (blk_devices ?u p) = d_minor (blk_devices s p)"
    "d_ops (blk_devices ?u p) = d_ops (blk_devices s p)" for p by (simp_all add: upd_dev_def)
  have "chain (dev_next ?u) (blk_device_list s) D = chain (dev_next s) (blk_device_list s) D"
    by (rule chain_cong) (use dev(2) in \<open>auto simp: upd_dev_def\<close>)
  then have "chain (dev_next ?u) (blk_device_list ?u) (dev # D)" using inv dev(1) by (simp add: blk_inv_def upd_dev_def)
  then have "blk_inv ?u (dev # D)" using inv new ops unfolding blk_inv_def same by auto
  then show ?thesis using res by blast
qed

end
