(* ===== verification/Bcache.thy ===== *)
theory Bcache
  imports Blk
begin

text \<open>
  The buffer cache of \<^verbatim>\<open>src/src/kernel/blk/bcache.c\<close>, as one caller after another uses it.  A buffer
  pointer is a number: 0 is NULL, \<open>i + 1\<close> is \<^verbatim>\<open>&bcache.buf[i]\<close>, \<open>HEAD\<close> is \<^verbatim>\<open>&bcache.head\<close>.  The lock of a
  buffer stays held from \<^verbatim>\<open>bread\<close> to \<^verbatim>\<open>brelse\<close> and is part of the state; waiting for a lock that is held, or for a busy
  buffer, has no end when nobody else runs.  The cache lock is released by every routine that takes it and
  is not part of the state.
\<close>

section \<open>Data\<close>

abbreviation (input) B_VALID :: u32 where "B_VALID \<equiv> 1"
abbreviation (input) B_DIRTY :: u32 where "B_DIRTY \<equiv> 2"
abbreviation (input) B_BUSY :: u32 where "B_BUSY \<equiv> 4"
abbreviation (input) BSIZE :: u64 where "BSIZE \<equiv> 4096"
abbreviation (input) NBUF :: nat where "NBUF \<equiv> 256"
abbreviation (input) HEAD :: nat where "HEAD \<equiv> 257"

record buf =
  b_flags :: u32
  b_dev :: u64
  b_blockno :: u64
  b_refcnt :: u32
  b_pincount :: u32
  b_prev :: nat
  b_next :: nat
  b_qnext :: nat
  b_data :: "u8 list option"
  b_locked :: bool

record 'w bcache = "'w blk" +
  bufs :: "nat \<Rightarrow> buf"
  bhash :: "nat \<Rightarrow> nat"
  hits :: u64
  misses :: u64
  evictions :: u64
  writes :: u64
  reads :: u64

definition upd_buf :: "nat \<Rightarrow> (buf \<Rightarrow> buf) \<Rightarrow> ('w, 'a) bcache_scheme \<Rightarrow> ('w, 'a) bcache_scheme" where
  "upd_buf p f s = s\<lparr>bufs := (bufs s)(p := f (bufs s p))\<rparr>"

definition has_flag :: "u32 \<Rightarrow> nat \<Rightarrow> ('w, 'a) bcache_scheme \<Rightarrow> bool" where
  "has_flag f b s \<longleftrightarrow> b_flags (bufs s b) AND f \<noteq> 0"

definition buf_acquire :: "nat \<Rightarrow> ('w, 'a) bcache_scheme \<Rightarrow> ('w, 'a) bcache_scheme result" where
  "buf_acquire b s = (if b_locked (bufs s b) then Inl Diverges else Inr (upd_buf b (\<lambda>x. x\<lparr>b_locked := True\<rparr>) s))"

definition buf_release :: "nat \<Rightarrow> ('w, 'a) bcache_scheme \<Rightarrow> ('w, 'a) bcache_scheme" where
  "buf_release b s = upd_buf b (\<lambda>x. x\<lparr>b_locked := False\<rparr>) s"

definition hash_block :: "u64 \<Rightarrow> u64 \<Rightarrow> nat" where
  "hash_block dev blockno = unat ((drop_bit 4 dev XOR blockno) AND 63)"

text \<open>The sectors of a block: first sector and count.\<close>

definition block_sectors :: "u64 \<Rightarrow> u64 \<Rightarrow> ('w, 'a) bcache_scheme \<Rightarrow> (u64 \<times> u32) result" where
  "block_sectors dev blockno s =
     (let bs = d_block_size (blk_devices s dev)
      in if bs = 0 then Inl Divide_Error else Inr ((blockno * BSIZE) div ucast bs, 4096 div bs))"

definition write_block :: "nat \<Rightarrow> ('w, 'a) bcache_scheme \<Rightarrow> (int \<times> ('w, 'a) bcache_scheme) result" where
  "write_block b s =
     rbind (block_sectors (b_dev (bufs s b)) (b_blockno (bufs s b)) s) (\<lambda>(sector, count).
       blk_write (b_dev (bufs s b)) sector count (b_data (bufs s b)) s)"

section \<open>Lists\<close>

abbreviation qnext :: "('w, 'a) bcache_scheme \<Rightarrow> nat \<Rightarrow> nat" where
  "qnext s p \<equiv> b_qnext (bufs s p)"

definition bcache_lookup :: "u64 \<Rightarrow> u64 \<Rightarrow> ('w, 'a) bcache_scheme \<Rightarrow> nat result" where
  "bcache_lookup dev blockno s =
     returns (find_node (qnext s) (\<lambda>b. b_dev (bufs s b) = dev \<and> b_blockno (bufs s b) = blockno) (bhash s (hash_block dev blockno)))"

definition lru_unlink :: "nat \<Rightarrow> ('w, 'a) bcache_scheme \<Rightarrow> ('w, 'a) bcache_scheme" where
  "lru_unlink b s =
     (let s = upd_buf (b_prev (bufs s b)) (\<lambda>x. x\<lparr>b_next := b_next (bufs s b)\<rparr>) s
      in upd_buf (b_next (bufs s b)) (\<lambda>x. x\<lparr>b_prev := b_prev (bufs s b)\<rparr>) s)"

definition lru_push_front :: "nat \<Rightarrow> ('w, 'a) bcache_scheme \<Rightarrow> ('w, 'a) bcache_scheme" where
  "lru_push_front b s =
     (let s = upd_buf b (\<lambda>x. x\<lparr>b_next := b_next (bufs s HEAD)\<rparr>) s;
          s = upd_buf b (\<lambda>x. x\<lparr>b_prev := HEAD\<rparr>) s;
          s = upd_buf (b_next (bufs s HEAD)) (\<lambda>x. x\<lparr>b_prev := b\<rparr>) s
      in upd_buf HEAD (\<lambda>x. x\<lparr>b_next := b\<rparr>) s)"

definition lru_push_back :: "nat \<Rightarrow> ('w, 'a) bcache_scheme \<Rightarrow> ('w, 'a) bcache_scheme" where
  "lru_push_back b s =
     (let s = upd_buf b (\<lambda>x. x\<lparr>b_prev := b_prev (bufs s HEAD)\<rparr>) s;
          s = upd_buf b (\<lambda>x. x\<lparr>b_next := HEAD\<rparr>) s;
          s = upd_buf (b_prev (bufs s HEAD)) (\<lambda>x. x\<lparr>b_next := b\<rparr>) s
      in upd_buf HEAD (\<lambda>x. x\<lparr>b_prev := b\<rparr>) s)"

definition lru_move_front :: "nat \<Rightarrow> ('w, 'a) bcache_scheme \<Rightarrow> ('w, 'a) bcache_scheme" where
  "lru_move_front b s = lru_push_front b (lru_unlink b s)"

definition unhash :: "nat \<Rightarrow> ('w, 'a) bcache_scheme \<Rightarrow> ('w, 'a) bcache_scheme result" where
  "unhash b s =
     (let h = hash_block (b_dev (bufs s b)) (b_blockno (bufs s b))
      in rbind (returns (find_link (qnext s) (bhash s h) b 0)) (\<lambda>found.
           Inr (case found of
                  None \<Rightarrow> s
                | Some pp \<Rightarrow> if pp = 0 then s\<lparr>bhash := (bhash s)(h := qnext s b)\<rparr>
                             else upd_buf pp (\<lambda>x. x\<lparr>b_qnext := qnext s b\<rparr>) s)))"

definition forget :: "nat \<Rightarrow> ('w, 'a) bcache_scheme \<Rightarrow> ('w, 'a) bcache_scheme" where
  "forget b s = upd_buf b (\<lambda>x. x\<lparr>b_dev := 0, b_blockno := 0, b_flags := 0, b_qnext := 0\<rparr>) s"

section \<open>Operations\<close>

text \<open>\<open>data i\<close> and \<open>lock i\<close> are the results of the two allocations for buffer \<open>i\<close>; a buffer that gets none stays out of
  the list.\<close>

definition init_buf :: "(nat \<Rightarrow> u8 list option) \<Rightarrow> (nat \<Rightarrow> bool) \<Rightarrow> nat \<Rightarrow> ('w, 'a) bcache_scheme \<Rightarrow> ('w, 'a) bcache_scheme" where
  "init_buf data lock i s =
     (let b = i + 1; s = upd_buf b (\<lambda>x. x\<lparr>b_data := data i\<rparr>) s
      in if data i = None then s
         else if \<not> lock i then s
         else lru_push_front b (upd_buf b (\<lambda>x. x\<lparr>b_locked := False, b_flags := 0, b_dev := 0, b_blockno := 0, b_refcnt := 0,
                b_pincount := 0, b_qnext := 0\<rparr>) s))"

definition bcache_init :: "(nat \<Rightarrow> u8 list option) \<Rightarrow> (nat \<Rightarrow> bool) \<Rightarrow> ('w, 'a) bcache_scheme \<Rightarrow> ('w, 'a) bcache_scheme" where
  "bcache_init data lock s =
     (let s = upd_buf HEAD (\<lambda>x. x\<lparr>b_prev := HEAD, b_next := HEAD\<rparr>) s;
          s = fold (init_buf data lock) [0..<NBUF] s
      in s\<lparr>bhash := (\<lambda>h. if h < 64 then 0 else bhash s h), hits := 0, misses := 0, evictions := 0, writes := 0, reads := 0\<rparr>)"

partial_function (option) find_victim :: "('w, 'a) bcache_scheme \<Rightarrow> nat \<Rightarrow> nat option option" where
  "find_victim s b =
     (if b = HEAD then Some None
      else if b_refcnt (bufs s b) = 0 \<and> b_pincount (bufs s b) = 0 then Some (Some b)
      else find_victim s (b_prev (bufs s b)))"

definition write_victim :: "nat \<Rightarrow> ('w, 'a) bcache_scheme \<Rightarrow> ('w, 'a) bcache_scheme result" where
  "write_victim b s =
     (if has_flag B_DIRTY b s
      then rbind (buf_acquire b s) (\<lambda>s.
           rbind (if b_dev (bufs s b) \<noteq> 0
                  then rbind (write_block b s) (\<lambda>(_, s). Inr (s\<lparr>writes := writes s + 1\<rparr>)) else Inr s) (\<lambda>s.
             Inr (buf_release b (upd_buf b (\<lambda>x. x\<lparr>b_flags := b_flags x AND NOT B_DIRTY\<rparr>) s))))
      else Inr s)"

definition bcache_evict :: "('w, 'a) bcache_scheme \<Rightarrow> (nat \<times> ('w, 'a) bcache_scheme) result" where
  "bcache_evict s =
     rbind (returns (find_victim s (b_prev (bufs s HEAD)))) (\<lambda>found.
       case found of
         None \<Rightarrow> Inr (0, s)
       | Some b \<Rightarrow>
           rbind (write_victim b s) (\<lambda>s.
           rbind (if b_dev (bufs s b) \<noteq> 0 then unhash b s else Inr s) (\<lambda>s.
             let s = forget b s in Inr (b, s\<lparr>evictions := evictions s + 1\<rparr>))))"

definition brelse :: "nat \<Rightarrow> ('w, 'a) bcache_scheme \<Rightarrow> ('w, 'a) bcache_scheme" where
  "brelse b s =
     (if b = 0 then s
      else
        let s = buf_release b s;
            s = upd_buf b (\<lambda>x. x\<lparr>b_refcnt := b_refcnt x - 1\<rparr>) s
        in if b_refcnt (bufs s b) = 0 then lru_push_back b (lru_unlink b s) else s)"

definition bread_hit :: "nat \<Rightarrow> ('w, 'a) bcache_scheme \<Rightarrow> (nat \<times> ('w, 'a) bcache_scheme) result" where
  "bread_hit b s =
     (let s = upd_buf b (\<lambda>x. x\<lparr>b_refcnt := b_refcnt x + 1\<rparr>) s;
          s = lru_move_front b s;
          s = s\<lparr>hits := hits s + 1\<rparr>
      in if has_flag B_BUSY b s then Inl Diverges
         else rbind (buf_acquire b s) (\<lambda>s. Inr (b, s)))"

definition bread_install :: "nat \<Rightarrow> u64 \<Rightarrow> u64 \<Rightarrow> ('w, 'a) bcache_scheme \<Rightarrow> ('w, 'a) bcache_scheme" where
  "bread_install b dev blockno s =
     (let s = upd_buf b (\<lambda>x. x\<lparr>b_dev := dev, b_blockno := blockno, b_flags := B_BUSY, b_refcnt := 1\<rparr>) s;
          h = hash_block dev blockno;
          s = upd_buf b (\<lambda>x. x\<lparr>b_qnext := bhash s h\<rparr>) s;
          s = s\<lparr>bhash := (bhash s)(h := b)\<rparr>
      in lru_move_front b s)"

definition bread :: "u64 \<Rightarrow> u64 \<Rightarrow> ('w, 'a) bcache_scheme \<Rightarrow> (nat \<times> ('w, 'a) bcache_scheme) result" where
  "bread dev blockno s =
     (if dev = 0 then Inr (0, s)
      else rbind (bcache_lookup dev blockno s) (\<lambda>b.
        if b \<noteq> 0 then bread_hit b s
        else rbind (bcache_evict (s\<lparr>misses := misses s + 1\<rparr>)) (\<lambda>(b, s).
          if b = 0 then Inr (0, s)
          else
            let s = bread_install b dev blockno s
            in rbind (buf_acquire b s) (\<lambda>s.
               rbind (block_sectors dev blockno s) (\<lambda>(sector, count).
               rbind (blk_read dev sector count (b_data (bufs s b)) s) (\<lambda>(ret, data, s).
                 let s = upd_buf b (\<lambda>x. x\<lparr>b_data := data\<rparr>) s
                 in if ret = 0
                    then
                      let s = upd_buf b (\<lambda>x. x\<lparr>b_flags := (b_flags x OR B_VALID) AND NOT B_BUSY\<rparr>) s
                      in Inr (b, s\<lparr>reads := reads s + 1\<rparr>)
                    else
                      let s = upd_buf b (\<lambda>x. x\<lparr>b_flags := b_flags x AND NOT B_BUSY\<rparr>) s
                      in Inr (0, brelse b (buf_release b s))))))))"

definition bwrite :: "nat \<Rightarrow> bool \<Rightarrow> ('w, 'a) bcache_scheme \<Rightarrow> (int \<times> ('w, 'a) bcache_scheme) result" where
  "bwrite b sync s =
     (if b = 0 \<or> b_dev (bufs s b) = 0 then Inr (- EINVAL, s)
      else
        let s = upd_buf b (\<lambda>x. x\<lparr>b_flags := b_flags x OR B_DIRTY\<rparr>) s
        in if sync
           then rbind (write_block b s) (\<lambda>(ret, s).
                  Inr (ret, if ret = 0
                            then (upd_buf b (\<lambda>x. x\<lparr>b_flags := b_flags x AND NOT B_DIRTY\<rparr>) s)\<lparr>writes := writes s + 1\<rparr> else s))
           else Inr (0, s))"

definition bpin :: "nat \<Rightarrow> ('w, 'a) bcache_scheme \<Rightarrow> ('w, 'a) bcache_scheme" where
  "bpin b s = (if b = 0 then s else upd_buf b (\<lambda>x. x\<lparr>b_pincount := b_pincount x + 1\<rparr>) s)"

definition bunpin :: "nat \<Rightarrow> ('w, 'a) bcache_scheme \<Rightarrow> ('w, 'a) bcache_scheme" where
  "bunpin b s =
     (if b = 0 then s else if b_pincount (bufs s b) > 0 then upd_buf b (\<lambda>x. x\<lparr>b_pincount := b_pincount x - 1\<rparr>) s else s)"

definition sync_buf :: "u64 \<Rightarrow> nat \<Rightarrow> nat \<times> ('w, 'a) bcache_scheme \<Rightarrow> (nat \<times> ('w, 'a) bcache_scheme) result" where
  "sync_buf dev b es =
     (case es of (errors, s) \<Rightarrow>
        if \<not> has_flag B_DIRTY b s then Inr (errors, s)
        else if dev \<noteq> 0 \<and> b_dev (bufs s b) \<noteq> dev then Inr (errors, s)
        else if b_dev (bufs s b) = 0 then Inr (errors, s)
        else rbind (buf_acquire b s) (\<lambda>s.
             rbind (write_block b (upd_buf b (\<lambda>x. x\<lparr>b_refcnt := b_refcnt x + 1\<rparr>) s)) (\<lambda>(ret, s).
               let (errors, s) = (if ret = 0
                     then (errors, (upd_buf b (\<lambda>x. x\<lparr>b_flags := b_flags x AND NOT B_DIRTY\<rparr>) s)\<lparr>writes := writes s + 1\<rparr>)
                     else (errors + 1, s))
               in Inr (errors, buf_release b (upd_buf b (\<lambda>x. x\<lparr>b_refcnt := b_refcnt x - 1\<rparr>) s)))))"

fun sync_bufs :: "u64 \<Rightarrow> nat list \<Rightarrow> nat \<times> ('w, 'a) bcache_scheme \<Rightarrow> (nat \<times> ('w, 'a) bcache_scheme) result" where
  "sync_bufs dev [] es = Inr es"
| "sync_bufs dev (b # bs) es = rbind (sync_buf dev b es) (sync_bufs dev bs)"

definition bsync :: "u64 \<Rightarrow> ('w, 'a) bcache_scheme \<Rightarrow> (int \<times> ('w, 'a) bcache_scheme) result" where
  "bsync dev s =
     rbind (sync_bufs dev [1..<NBUF + 1] (0, s)) (\<lambda>(errors, s). Inr (if errors > 0 then - EIO else 0, s))"

definition bcache_flush :: "('w, 'a) bcache_scheme \<Rightarrow> (int \<times> ('w, 'a) bcache_scheme) result" where
  "bcache_flush s = bsync 0 s"

definition invalidate_buf :: "u64 \<Rightarrow> nat \<Rightarrow> ('w, 'a) bcache_scheme \<Rightarrow> ('w, 'a) bcache_scheme result" where
  "invalidate_buf dev b s =
     (if b_dev (bufs s b) \<noteq> dev then Inr s
      else if b_refcnt (bufs s b) > 0 \<or> b_pincount (bufs s b) > 0 then Inr s
      else rbind (if has_flag B_DIRTY b s
                  then rbind (buf_acquire b s) (\<lambda>s. rbind (write_block b s) (\<lambda>(_, s). Inr (buf_release b s)))
                  else Inr s) (\<lambda>s.
           rbind (unhash b s) (\<lambda>s. Inr (forget b s))))"

fun invalidate_bufs :: "u64 \<Rightarrow> nat list \<Rightarrow> ('w, 'a) bcache_scheme \<Rightarrow> ('w, 'a) bcache_scheme result" where
  "invalidate_bufs dev [] s = Inr s"
| "invalidate_bufs dev (b # bs) s = rbind (invalidate_buf dev b s) (invalidate_bufs dev bs)"

definition bcache_invalidate :: "u64 \<Rightarrow> ('w, 'a) bcache_scheme \<Rightarrow> ('w, 'a) bcache_scheme result" where
  "bcache_invalidate dev s = (if dev = 0 then Inr s else invalidate_bufs dev [1..<NBUF + 1] s)"

definition bcache_stats :: "('w, 'a) bcache_scheme \<Rightarrow> u64 \<times> u64 \<times> u64" where
  "bcache_stats s = (hits s, misses s, evictions s)"

end
