(* ===== verification/Bcache_Inv.thy ===== *)
theory Bcache_Inv
  imports Bcache
begin

text \<open>
  The lists of the buffer cache as lists: the circular doubly linked list of buffers, the hash chains, and the
  invariant \<open>cache_ok\<close> that relates them.
\<close>

section \<open>Circular doubly linked lists\<close>

text \<open>\<open>seg nx pv p xs q\<close>: from \<open>p\<close> the links \<open>nx\<close> visit \<open>xs\<close> and reach \<open>q\<close>, and \<open>pv\<close> leads back.\<close>

fun seg :: "('p \<Rightarrow> 'p) \<Rightarrow> ('p \<Rightarrow> 'p) \<Rightarrow> 'p \<Rightarrow> 'p list \<Rightarrow> 'p \<Rightarrow> bool" where
  "seg nx pv p [] q \<longleftrightarrow> nx p = q \<and> pv q = p"
| "seg nx pv p (x # xs) q \<longleftrightarrow> nx p = x \<and> pv x = p \<and> seg nx pv x xs q"

definition ring :: "('p \<Rightarrow> 'p) \<Rightarrow> ('p \<Rightarrow> 'p) \<Rightarrow> 'p \<Rightarrow> 'p list \<Rightarrow> bool" where
  "ring nx pv h L \<longleftrightarrow> seg nx pv h L h \<and> distinct (h # L)"

lemma seg_append: "seg nx pv p (A @ x # B) q \<longleftrightarrow> seg nx pv p A x \<and> seg nx pv x B q"
  by (induction A arbitrary: p) auto

lemma seg_last: "seg nx pv p A q \<Longrightarrow> pv q = last (p # A)"
  by (induction A arbitrary: p) auto

lemma seg_first: "seg nx pv p A q \<Longrightarrow> nx p = hd (A @ [q])"
  by (cases A) auto

lemma seg_cong:
  "(\<And>y. y \<in> set (p # xs) \<Longrightarrow> nx' y = nx y) \<Longrightarrow> (\<And>y. y \<in> set (xs @ [q]) \<Longrightarrow> pv' y = pv y) \<Longrightarrow> seg nx' pv' p xs q = seg nx pv p xs q"
  by (induction xs arbitrary: p) auto

lemma seg_retarget:
  "seg nx pv p A x \<Longrightarrow> distinct (p # A) \<Longrightarrow> y \<notin> set A \<Longrightarrow> seg (nx(last (p # A) := y)) (pv(y := last (p # A))) p A y"
proof (induction A arbitrary: p)
  case Nil
  then show ?case by simp
next
  case (Cons a A)
  have "last (a # A) \<in> set (a # A)" by (rule last_in_set) simp
  then have l: "last (a # A) \<noteq> p" using Cons.prems(2) by auto
  define e where "e = last (a # A)"
  have "seg (nx(e := y)) (pv(y := e)) a A y" unfolding e_def using Cons by (intro Cons.IH) auto
  moreover have "last (p # a # A) = e" by (simp add: e_def)
  moreover have "(nx(e := y)) p = a" "(pv(y := e)) a = p" using Cons.prems l by (auto simp: e_def)
  ultimately show ?case by (simp del: fun_upd_apply)
qed

lemma ring_unlink:
  assumes r: "ring nx pv h (A @ x # B)"
  shows "ring (nx(pv x := nx x)) (pv(nx x := pv x)) h (A @ B)"
proof -
  have s: "seg nx pv h A x" "seg nx pv x B h" and d: "distinct (h # A @ x # B)" using r by (auto simp: ring_def seg_append)
  have p: "pv x = last (h # A)" and n: "nx x = hd (B @ [h])" using seg_last [OF s(1)] seg_first [OF s(2)] by simp_all
  have m: "last (h # A) \<in> set (h # A)" by (rule last_in_set) simp
  have "nx x \<notin> set A" using d n by (cases B) auto
  then have t: "seg (nx(pv x := nx x)) (pv(nx x := pv x)) h A (nx x)"
    unfolding p using d by (intro seg_retarget [OF s(1)]) auto
  show ?thesis
  proof (cases B)
    case Nil
    then show ?thesis using t n d by (simp add: ring_def)
  next
    case (Cons b B')
    have "seg (nx(pv x := nx x)) (pv(nx x := pv x)) b B' h = seg nx pv b B' h"
      by (rule seg_cong) (use d m Cons n p in auto)
    then show ?thesis using t n d s(2) Cons by (simp add: ring_def seg_append)
  qed
qed

lemma ring_push_front:
  assumes r: "ring nx pv h L" and b: "b \<notin> set (h # L)"
  shows "ring (nx(b := nx h, h := b)) (pv(b := h, nx h := b)) h (b # L)"
proof -
  have s: "seg nx pv h L h" "distinct (h # L)" using r by (auto simp: ring_def)
  have n: "nx h = hd (L @ [h])" by (rule seg_first [OF s(1)])
  have "seg (nx(b := nx h, h := b)) (pv(b := h, nx h := b)) b L h"
  proof (cases L)
    case Nil
    then show ?thesis using n b by simp
  next
    case (Cons a L')
    have "seg (nx(b := nx h, h := b)) (pv(b := h, nx h := b)) a L' h = seg nx pv a L' h"
      by (rule seg_cong) (use s(2) b Cons n in auto)
    then show ?thesis using s n b Cons by simp
  qed
  moreover have "nx h \<noteq> b" using n b by (cases L) auto
  ultimately show ?thesis using s(2) b by (auto simp: ring_def)
qed

lemma ring_push_back:
  assumes r: "ring nx pv h L" and b: "b \<notin> set (h # L)"
  shows "ring (nx(b := h, pv h := b)) (pv(b := pv h, h := b)) h (L @ [b])"
proof -
  have s: "seg nx pv h L h" "distinct (h # L)" using r by (auto simp: ring_def)
  have p: "pv h = last (h # L)" by (rule seg_last [OF s(1)])
  have m: "last (h # L) \<in> set (h # L)" by (rule last_in_set) simp
  have "seg (nx(pv h := b)) (pv(b := pv h)) h L b" unfolding p using s b by (intro seg_retarget [OF s(1)]) auto
  moreover have "seg (nx(b := h, pv h := b)) (pv(b := pv h, h := b)) h L b = seg (nx(pv h := b)) (pv(b := pv h)) h L b"
    by (rule seg_cong) (use b s(2) m p in auto)
  moreover have "pv h \<noteq> b" using p m b by metis
  ultimately show ?thesis using s(2) b by (auto simp: ring_def seg_append)
qed

lemma ring_cong: "(\<And>y. y \<in> set (h # L) \<Longrightarrow> nx' y = nx y \<and> pv' y = pv y) \<Longrightarrow> ring nx' pv' h L = ring nx pv h L"
  unfolding ring_def by (subst seg_cong [of h L nx' nx h pv' pv]) auto

section \<open>The buffer list\<close>

abbreviation nx :: "('w, 'a) bcache_scheme \<Rightarrow> nat \<Rightarrow> nat" where
  "nx s p \<equiv> b_next (bufs s p)"

abbreviation pv :: "('w, 'a) bcache_scheme \<Rightarrow> nat \<Rightarrow> nat" where
  "pv s p \<equiv> b_prev (bufs s p)"

lemma bufs_upd_buf [simp]: "bufs (upd_buf p f s) = (bufs s)(p := f (bufs s p))"
  by (simp add: upd_buf_def)

lemma upd_buf_frame [simp]:
  "blk_devices (upd_buf p f s) = blk_devices s" "world (upd_buf p f s) = world s" "bhash (upd_buf p f s) = bhash s"
  "blk_device_list (upd_buf p f s) = blk_device_list s"
  by (simp_all add: upd_buf_def)

text \<open>Operations on the list change the links only.\<close>

definition bare :: "buf \<Rightarrow> buf" where
  "bare x = x\<lparr>b_next := 0, b_prev := 0\<rparr>"

definition links_only :: "('w, 'a) bcache_scheme \<Rightarrow> ('w, 'a) bcache_scheme \<Rightarrow> bool" where
  "links_only s u \<longleftrightarrow> blk_devices u = blk_devices s \<and> world u = world s \<and> bhash u = bhash s \<and> (\<forall>p. bare (bufs u p) = bare (bufs s p))"

lemma bare_fields:
  assumes "bare x = bare y"
  shows "b_flags x = b_flags y" "b_dev x = b_dev y" "b_blockno x = b_blockno y" "b_refcnt x = b_refcnt y" "b_pincount x = b_pincount y"
    "b_qnext x = b_qnext y" "b_data x = b_data y" "b_locked x = b_locked y"
  using assms [unfolded bare_def, THEN arg_cong [of _ _ b_flags]] assms [unfolded bare_def, THEN arg_cong [of _ _ b_dev]]
    assms [unfolded bare_def, THEN arg_cong [of _ _ b_blockno]] assms [unfolded bare_def, THEN arg_cong [of _ _ b_refcnt]]
    assms [unfolded bare_def, THEN arg_cong [of _ _ b_pincount]] assms [unfolded bare_def, THEN arg_cong [of _ _ b_qnext]]
    assms [unfolded bare_def, THEN arg_cong [of _ _ b_data]] assms [unfolded bare_def, THEN arg_cong [of _ _ b_locked]]
  by simp_all

lemma links_only_refl [simp]: "links_only s s"
  by (simp add: links_only_def)

lemma links_only_trans: "links_only s u \<Longrightarrow> links_only u v \<Longrightarrow> links_only s v"
  by (simp add: links_only_def)

lemma links_only_upd:
  "links_only s u \<Longrightarrow> links_only s (upd_buf p (\<lambda>x. x\<lparr>b_next := n\<rparr>) u)" "links_only s u \<Longrightarrow> links_only s (upd_buf p (\<lambda>x. x\<lparr>b_prev := n\<rparr>) u)"
  by (simp_all add: links_only_def bare_def)

lemma lru_steps: "links_only s (lru_unlink b s)" "links_only s (lru_push_front b s)" "links_only s (lru_push_back b s)"
  by (simp_all add: lru_unlink_def lru_push_front_def lru_push_back_def Let_def links_only_upd)

lemma lru_move_front_links: "links_only s (lru_move_front b s)"
  unfolding lru_move_front_def by (rule links_only_trans [OF lru_steps(1) lru_steps(2)])

lemma lru_unlink_ring:
  assumes "ring (nx s) (pv s) HEAD (A @ b # B)"
  shows "ring (nx (lru_unlink b s)) (pv (lru_unlink b s)) HEAD (A @ B)"
proof -
  have d: "distinct (HEAD # A @ b # B)" and sg: "seg (nx s) (pv s) HEAD A b" using assms by (auto simp: ring_def seg_append)
  have "last (HEAD # A) \<in> set (HEAD # A)" by (rule last_in_set) simp
  then have "pv s b \<noteq> b" using seg_last [OF sg] d by auto
  then have "nx (lru_unlink b s) = (nx s)(pv s b := nx s b)" "pv (lru_unlink b s) = (pv s)(nx s b := pv s b)"
    by (auto simp: lru_unlink_def Let_def fun_eq_iff)
  then show ?thesis using ring_unlink [OF assms] by metis
qed

lemma lru_push_front_ring:
  assumes "ring (nx s) (pv s) HEAD L" "b \<notin> set (HEAD # L)"
  shows "ring (nx (lru_push_front b s)) (pv (lru_push_front b s)) HEAD (b # L)"
proof -
  have "b \<noteq> HEAD" using assms(2) by simp
  then have "nx (lru_push_front b s) = (nx s)(b := nx s HEAD, HEAD := b)" "pv (lru_push_front b s) = (pv s)(b := HEAD, nx s HEAD := b)"
    by (auto simp: lru_push_front_def Let_def fun_eq_iff)
  then show ?thesis using ring_push_front [OF assms] by metis
qed

lemma lru_push_back_ring:
  assumes "ring (nx s) (pv s) HEAD L" "b \<notin> set (HEAD # L)"
  shows "ring (nx (lru_push_back b s)) (pv (lru_push_back b s)) HEAD (L @ [b])"
proof -
  have "b \<noteq> HEAD" using assms(2) by simp
  then have "nx (lru_push_back b s) = (nx s)(b := HEAD, pv s HEAD := b)" "pv (lru_push_back b s) = (pv s)(b := pv s HEAD, HEAD := b)"
    by (auto simp: lru_push_back_def Let_def fun_eq_iff)
  then show ?thesis using ring_push_back [OF assms] by metis
qed

lemma lru_move_front_ring:
  assumes "ring (nx s) (pv s) HEAD (A @ b # B)"
  shows "ring (nx (lru_move_front b s)) (pv (lru_move_front b s)) HEAD (b # A @ B)"
  unfolding lru_move_front_def
  by (rule lru_push_front_ring [OF lru_unlink_ring [OF assms]]) (use assms in \<open>auto simp: ring_def\<close>)

section \<open>Invariant\<close>

abbreviation key :: "('w, 'a) bcache_scheme \<Rightarrow> nat \<Rightarrow> u64 \<times> u64" where
  "key s b \<equiv> (b_dev (bufs s b), b_blockno (bufs s b))"

definition hash_ok :: "('w, 'a) bcache_scheme \<Rightarrow> nat list \<Rightarrow> (nat \<Rightarrow> nat list) \<Rightarrow> bool" where
  "hash_ok s L H \<longleftrightarrow> (\<forall>h. chain (qnext s) (bhash s h) (H h) \<and>
     (\<forall>b. b \<in> set (H h) \<longleftrightarrow> b \<in> set L \<and> b_dev (bufs s b) \<noteq> 0 \<and> hash_block (b_dev (bufs s b)) (b_blockno (bufs s b)) = h))"

text \<open>The buffers in use are \<open>L\<close>, most recently used first; \<open>H h\<close> is the hash chain of bucket \<open>h\<close>; no block is cached twice.\<close>

definition cache_ok :: "('w, 'a) bcache_scheme \<Rightarrow> nat list \<Rightarrow> (nat \<Rightarrow> nat list) \<Rightarrow> bool" where
  "cache_ok s L H \<longleftrightarrow> ring (nx s) (pv s) HEAD L \<and> set L \<subseteq> {1..NBUF} \<and> hash_ok s L H \<and>
     (\<forall>b \<in> set L. \<forall>c \<in> set L. b_dev (bufs s b) \<noteq> 0 \<and> key s b = key s c \<longrightarrow> b = c) \<and>
     (\<forall>b \<in> set L. \<not> has_flag B_BUSY b s \<and> (b_refcnt (bufs s b) = 0 \<longrightarrow> \<not> b_locked (bufs s b)))"

lemma cache_okD:
  assumes "cache_ok s L H"
  shows "ring (nx s) (pv s) HEAD L" "set L \<subseteq> {1..NBUF}" "hash_ok s L H"
    "b \<in> set L \<Longrightarrow> c \<in> set L \<Longrightarrow> b_dev (bufs s b) \<noteq> 0 \<Longrightarrow> key s b = key s c \<Longrightarrow> b = c"
    "b \<in> set L \<Longrightarrow> \<not> has_flag B_BUSY b s" "b \<in> set L \<Longrightarrow> b_refcnt (bufs s b) = 0 \<Longrightarrow> \<not> b_locked (bufs s b)"
    "distinct L" "0 \<notin> set L" "HEAD \<notin> set L"
  using assms unfolding cache_ok_def by (blast | auto simp: ring_def)+

lemma hash_okD:
  assumes "hash_ok s L H"
  shows "chain (qnext s) (bhash s h) (H h)"
    "b \<in> set (H h) \<longleftrightarrow> b \<in> set L \<and> b_dev (bufs s b) \<noteq> 0 \<and> hash_block (b_dev (bufs s b)) (b_blockno (bufs s b)) = h"
  using assms unfolding hash_ok_def by blast+

lemma bcache_lookup_eq:
  assumes ok: "cache_ok s L H" and dev: "dev \<noteq> 0"
  shows "b \<in> set L \<Longrightarrow> key s b = (dev, blockno) \<Longrightarrow> bcache_lookup dev blockno s = Inr b"
    "\<forall>b \<in> set L. key s b \<noteq> (dev, blockno) \<Longrightarrow> bcache_lookup dev blockno s = Inr 0"
proof -
  let ?h = "hash_block dev blockno" and ?P = "\<lambda>b. b_dev (bufs s b) = dev \<and> b_blockno (bufs s b) = blockno"
  note H = hash_okD [OF cache_okD(3) [OF ok]]
  have e: "bcache_lookup dev blockno s = Inr (case find ?P (H ?h) of None \<Rightarrow> 0 | Some x \<Rightarrow> x)"
    unfolding bcache_lookup_def find_node_eq [OF H(1)] by simp
  show "bcache_lookup dev blockno s = Inr b" if b: "b \<in> set L" "key s b = (dev, blockno)"
  proof -
    have "b \<in> set (H ?h)" using H(2) b dev by simp
    then have "find ?P (H ?h) \<noteq> None" using b(2) unfolding find_None_iff by auto
    then obtain c where c: "find ?P (H ?h) = Some c" by blast
    then have "c \<in> set (H ?h)" "?P c" unfolding find_Some_iff by auto
    then have "c = b" using cache_okD(4) [OF ok b(1), of c] H(2) b dev by auto
    then show ?thesis using e c by simp
  qed
  show "bcache_lookup dev blockno s = Inr 0" if "\<forall>b \<in> set L. key s b \<noteq> (dev, blockno)"
  proof -
    have "find ?P (H ?h) = None" using that H(2) unfolding find_None_iff by auto
    then show ?thesis using e by simp
  qed
qed

lemma find_victim_eq:
  "seg (nx s) (pv s) HEAD A q \<Longrightarrow> HEAD \<notin> set A \<Longrightarrow>
   find_victim s (pv s q) = Some (find (\<lambda>b. b_refcnt (bufs s b) = 0 \<and> b_pincount (bufs s b) = 0) (rev A))"
proof (induction A arbitrary: q rule: rev_induct)
  case Nil
  then show ?case by (subst find_victim.simps) simp
next
  case (snoc a A)
  then have a: "pv s q = a" "seg (nx s) (pv s) HEAD A a" "a \<noteq> HEAD" by (auto simp: seg_append)
  show ?case unfolding a(1) using a(3) snoc.IH [OF a(2)] snoc.prems(2) by (subst find_victim.simps) simp
qed

lemma cache_ok_cong:
  assumes ok: "cache_ok s L H" and r: "ring (nx u) (pv u) HEAD L'" "set L' = set L" and h: "bhash u = bhash s"
    and same: "\<And>p. p \<in> set L \<Longrightarrow> b_dev (bufs u p) = b_dev (bufs s p) \<and>
      (b_dev (bufs s p) \<noteq> 0 \<longrightarrow> qnext u p = qnext s p \<and> b_blockno (bufs u p) = b_blockno (bufs s p))"
    and fl: "\<And>p. p \<in> set L \<Longrightarrow> \<not> has_flag B_BUSY p u \<and> (b_refcnt (bufs u p) = 0 \<longrightarrow> \<not> b_locked (bufs u p))"
  shows "cache_ok u L' H"
proof -
  note D = cache_okD [OF ok]
  note H = hash_okD [OF D(3)]
  have "chain (qnext u) (bhash u h) (H h)" for h
  proof -
    have "chain (qnext u) (bhash s h) (H h) = chain (qnext s) (bhash s h) (H h)" by (rule chain_cong) (use H(2) same in blast)
    then show ?thesis using H(1) [of h] h by simp
  qed
  moreover have "b \<in> set (H h) \<longleftrightarrow> b \<in> set L' \<and> b_dev (bufs u b) \<noteq> 0 \<and> hash_block (b_dev (bufs u b)) (b_blockno (bufs u b)) = h" for b h
    unfolding r(2) using H(2) [of b h] same [of b] by (cases "b \<in> set L"; cases "b_dev (bufs s b) = 0"; simp)
  ultimately have "hash_ok u L' H" unfolding hash_ok_def by blast
  moreover have "b = c" if "b \<in> set L'" "c \<in> set L'" "b_dev (bufs u b) \<noteq> 0" "key u b = key u c" for b c
  proof -
    have m: "b \<in> set L" "c \<in> set L" using that(1,2) r(2) by simp_all
    have e: "b_dev (bufs u b) = b_dev (bufs s b)" "key u b = key s b" "key u c = key s c"
      using same [OF m(1)] same [OF m(2)] that(3,4) by auto
    then have "key s b = key s c" using that(4) by metis
    then show ?thesis using D(4) [OF m] that(3) e(1) by metis
  qed
  ultimately show ?thesis using r D(2) fl unfolding cache_ok_def by blast
qed

lemma buf_flags_cong: "b_flags (bufs u p) = b_flags (bufs s p) \<Longrightarrow> has_flag f p u = has_flag f p s"
  by (simp add: has_flag_def)

text \<open>Taking a buffer out of its hash chain.\<close>

lemma unhash_forget:
  assumes ok: "cache_ok s L H" and b: "b \<in> set L" "b_dev (bufs s b) \<noteq> 0" and free: "b_refcnt (bufs s b) = 0"
  defines "h \<equiv> hash_block (b_dev (bufs s b)) (b_blockno (bufs s b))"
  shows "\<exists>u. unhash b s = Inr u \<and> cache_ok (forget b u) L (H(h := filter (\<lambda>c. c \<noteq> b) (H h))) \<and>
    (\<forall>p. p \<noteq> b \<longrightarrow> (\<exists>n. bufs u p = (bufs s p)\<lparr>b_qnext := n\<rparr>)) \<and> bufs u b = bufs s b \<and> world u = world s \<and> blk_devices u = blk_devices s"
proof -
  note D = cache_okD [OF ok]
  note H = hash_okD [OF D(3)]
  have "b \<in> set (H h)" using H(2) b by (simp add: h_def)
  then obtain A B where AB: "H h = A @ b # B" by (meson split_list)
  have ch: "chain (qnext s) (bhash s h) (A @ b # B)" using H(1) [of h] AB by simp
  have d: "b \<notin> set A" "b \<notin> set B" using chain_distinct [OF ch] by auto
  then have "filter (\<lambda>c. c \<noteq> b) A = A" "filter (\<lambda>c. c \<noteq> b) B = B" by (auto simp: filter_id_conv)
  then have f: "filter (\<lambda>c. c \<noteq> b) (H h) = A @ B" using AB by simp
  define pp where "pp = last (0 # A)"
  note unl = chain_unlink [OF ch, folded pp_def]
  have fl: "find_link (qnext s) (bhash s h) b 0 = Some (Some pp)"
    unfolding pp_def by (rule find_link_eq) (use ch d in auto)
  define u where "u = (if pp = 0 then s\<lparr>bhash := (bhash s)(h := qnext s b)\<rparr> else upd_buf pp (\<lambda>x. x\<lparr>b_qnext := qnext s b\<rparr>) s)"
  have res: "unhash b s = Inr u" using fl by (simp add: unhash_def Let_def h_def u_def)
  have ppA: "pp \<noteq> 0 \<Longrightarrow> pp \<in> set A" using unl(2) by (metis last_ConsR last_in_set pp_def)
  have ppb: "pp \<noteq> b" using ppA d D(8) b(1) by metis
  have oth: "\<exists>n. bufs u p = (bufs s p)\<lparr>b_qnext := n\<rparr>" for p
  proof (cases "p = pp \<and> pp \<noteq> 0")
    case True
    then show ?thesis by (intro exI [of _ "qnext s b"]) (simp add: u_def)
  next
    case False
    then show ?thesis by (intro exI [of _ "qnext s p"]) (cases "pp = 0"; simp add: u_def)
  qed
  have keep: "b_dev (bufs u p) = b_dev (bufs s p)" "b_blockno (bufs u p) = b_blockno (bufs s p)" "b_flags (bufs u p) = b_flags (bufs s p)"
    "b_refcnt (bufs u p) = b_refcnt (bufs s p)" "b_locked (bufs u p) = b_locked (bufs s p)" "nx u p = nx s p" "pv u p = pv s p" for p
    by (simp_all add: u_def)
  have ub: "bufs u b = bufs s b" using ppb by (simp add: u_def)
  let ?v = "forget b u" and ?H = "H(h := A @ B)"
  have q: "qnext u = (if pp = 0 then qnext s else (qnext s)(pp := qnext s b))" "bhash u = (if pp = 0 then (bhash s)(h := qnext s b) else bhash s)"
    by (auto simp: u_def fun_eq_iff)
  have qv: "qnext ?v = (qnext u)(b := 0)" "bhash ?v = bhash u" by (auto simp: forget_def fun_eq_iff)
  have "chain (qnext ?v) (bhash ?v k) (?H k)" for k
  proof (cases "k = h")
    case True
    have "chain (qnext u) (bhash u h) (A @ B)" using unl(1) q by (auto split: if_splits)
    then show ?thesis using True d by (simp add: qv)
  next
    case False
    have n: "b \<notin> set (H k)" "pp \<noteq> 0 \<Longrightarrow> pp \<notin> set (H k)"
      using H(2) [of b k] H(2) [of pp k] H(2) [of pp h] ppA AB False by (auto simp: h_def)
    have "bhash u k = bhash s k" using False q(2) by auto
    then show ?thesis using H(1) [of k] n False by (cases "pp = 0") (simp_all add: qv q(1))
  qed
  moreover have "c \<in> set (?H k) \<longleftrightarrow> c \<in> set L \<and> b_dev (bufs ?v c) \<noteq> 0 \<and> hash_block (b_dev (bufs ?v c)) (b_blockno (bufs ?v c)) = k" for c k
  proof (cases "c = b")
    case True
    then show ?thesis using d H(2) [of b k] by (auto simp: forget_def h_def)
  next
    case False
    then show ?thesis using H(2) [of c k] AB keep [of c] by (auto simp: forget_def)
  qed
  ultimately have hv: "hash_ok ?v L ?H" unfolding hash_ok_def by blast
  have rv: "ring (nx ?v) (pv ?v) HEAD L" using D(1) keep(6,7) by (subst ring_cong [of HEAD L _ "nx s" _ "pv s"]) (auto simp: forget_def)
  have uniq: "c = e" if "c \<in> set L" "e \<in> set L" "b_dev (bufs ?v c) \<noteq> 0" "key ?v c = key ?v e" for c e
    using that D(4) [of c e] keep(1,2) by (auto simp: forget_def split: if_splits)
  have "\<not> has_flag B_BUSY c ?v \<and> (b_refcnt (bufs ?v c) = 0 \<longrightarrow> \<not> b_locked (bufs ?v c))" if "c \<in> set L" for c
    using D(5,6) [OF that] keep(3-5) [of c] by (auto simp: forget_def has_flag_def)
  then have "cache_ok ?v L ?H" using rv D(2) hv uniq unfolding cache_ok_def by blast
  moreover have "world u = world s" "blk_devices u = blk_devices s" by (simp_all add: u_def)
  ultimately show ?thesis using res oth ub f by auto
qed

end
