(* ===== verification/Bcache_Contract.thy ===== *)
theory Bcache_Contract
  imports Bcache_Inv
begin

text \<open>
  What the buffer cache promises over a disk that stores what is written to it: reading returns the current contents of a
  block, eviction loses nothing, synchronising makes the disk current.
\<close>

section \<open>Disks\<close>

definition block_request :: "u8 \<Rightarrow> u64 \<Rightarrow> u64 \<Rightarrow> ('w, 'a) blk_scheme \<Rightarrow> blk_request" where
  "block_request op dev blockno s =
     (let bs = d_block_size (blk_devices s dev)
      in \<lparr>rq_dev = dev, rq_operation = op, rq_flags = 0, rq_sector = (blockno * BSIZE) div ucast bs, rq_count = 4096 div bs,
          rq_status = 0, rq_private_data = 0\<rparr>)"

definition in_range :: "u64 \<Rightarrow> u64 \<Rightarrow> ('w, 'a) blk_scheme \<Rightarrow> bool" where
  "in_range dev blockno s \<longleftrightarrow> unat blockno * 4096 < 2 ^ 64 \<and>
     rq_sector (block_request 0 dev blockno s) + ucast (rq_count (block_request 0 dev blockno s)) \<le> d_num_blocks (blk_devices s dev)"

text \<open>An open, writable device whose driver stores blocks: \<open>rd w dev blockno\<close> is the block on the medium.\<close>

definition disk_ok :: "('w \<Rightarrow> u64 \<Rightarrow> u64 \<Rightarrow> u8 list) \<Rightarrow> u64 \<Rightarrow> ('w, 'a) blk_scheme \<Rightarrow> bool" where
  "disk_ok rd dev s \<longleftrightarrow> dev \<noteq> 0 \<and> d_open_count (blk_devices s dev) \<noteq> 0 \<and> d_flags (blk_devices s dev) AND BLK_FLAG_READ_ONLY = 0 \<and>
     d_block_size (blk_devices s dev) \<noteq> 0 \<and>
     (\<exists>ops request. d_ops (blk_devices s dev) = Some ops \<and> op_request ops = Some request \<and>
        (\<forall>w blockno d. in_range dev blockno s \<and> length d = 4096 \<longrightarrow>
           request dev (block_request BLK_OP_READ dev blockno s) d w = (0, rd w dev blockno, w) \<and> length (rd w dev blockno) = 4096 \<and>
           (\<exists>w'. request dev (block_request BLK_OP_WRITE dev blockno s) d w = (0, d, w') \<and>
                 rd w' = (rd w)(dev := (rd w dev)(blockno := d)))))"

lemma disk_ok_cong: "blk_devices u = blk_devices s \<Longrightarrow> disk_ok rd dev u = disk_ok rd dev s \<and> in_range dev blockno u = in_range dev blockno s"
  by (simp add: disk_ok_def in_range_def block_request_def)

lemma write_block_ok:
  assumes "disk_ok rd (b_dev (bufs s b)) s" "in_range (b_dev (bufs s b)) (b_blockno (bufs s b)) s" "b_data (bufs s b) = Some d" "length d = 4096"
  shows "\<exists>w. write_block b s = Inr (0, s\<lparr>world := w\<rparr>) \<and>
    rd w = (rd (world s))(b_dev (bufs s b) := (rd (world s) (b_dev (bufs s b)))(b_blockno (bufs s b) := d))"
proof -
  let ?dev = "b_dev (bufs s b)" and ?bno = "b_blockno (bufs s b)"
  obtain ops request where o: "d_ops (blk_devices s ?dev) = Some ops" "op_request ops = Some request"
    "\<exists>w'. request ?dev (block_request BLK_OP_WRITE ?dev ?bno s) d (world s) = (0, d, w') \<and>
       rd w' = (rd (world s))(?dev := (rd (world s) ?dev)(?bno := d))"
    using assms(1,2,4) unfolding disk_ok_def by blast
  obtain w where w: "request ?dev (block_request BLK_OP_WRITE ?dev ?bno s) d (world s) = (0, d, w)"
    "rd w = (rd (world s))(?dev := (rd (world s) ?dev)(?bno := d))" using o(3) by blast
  have "write_block b s = Inr (0, s\<lparr>world := w\<rparr>)"
    using assms o(1,2) w(1)
    by (simp add: write_block_def block_sectors_def blk_write_def call_request_def ops_of_def disk_ok_def in_range_def block_request_def
        Let_def not_less)
  then show ?thesis using w(2) by blast
qed

lemma blk_read_ok:
  assumes "disk_ok rd dev s" "in_range dev blockno s" "length d = 4096"
  shows "\<exists>sector count. block_sectors dev blockno s = Inr (sector, count) \<and>
    blk_read dev sector count (Some d) s = Inr (0, Some (rd (world s) dev blockno), s)"
    and "length (rd w dev blockno) = 4096"
proof -
  obtain ops request where o: "d_ops (blk_devices s dev) = Some ops" "op_request ops = Some request"
    "\<And>w. request dev (block_request BLK_OP_READ dev blockno s) d w = (0, rd w dev blockno, w) \<and> length (rd w dev blockno) = 4096"
    using assms unfolding disk_ok_def by blast
  show "length (rd w dev blockno) = 4096" using o(3) by blast
  show "\<exists>sector count. block_sectors dev blockno s = Inr (sector, count) \<and>
    blk_read dev sector count (Some d) s = Inr (0, Some (rd (world s) dev blockno), s)"
    using assms(1,2) o(1,2) o(3) [of "world s"]
    by (simp add: block_sectors_def blk_read_def call_request_def ops_of_def disk_ok_def in_range_def block_request_def Let_def not_less)
qed

section \<open>Coherence\<close>

text \<open>Every buffer holds a block of bytes; a cached block that is not dirty agrees with the medium.\<close>

definition buf_coherent :: "('w \<Rightarrow> u64 \<Rightarrow> u64 \<Rightarrow> u8 list) \<Rightarrow> ('w, 'a) bcache_scheme \<Rightarrow> nat \<Rightarrow> bool" where
  "buf_coherent rd s b \<longleftrightarrow>
     (\<exists>d. b_data (bufs s b) = Some d \<and> length d = 4096 \<and>
        (if b_dev (bufs s b) = 0 then \<not> has_flag B_DIRTY b s
         else disk_ok rd (b_dev (bufs s b)) s \<and> in_range (b_dev (bufs s b)) (b_blockno (bufs s b)) s \<and>
              (has_flag B_DIRTY b s \<or> d = rd (world s) (b_dev (bufs s b)) (b_blockno (bufs s b)))))"

definition coherent :: "('w \<Rightarrow> u64 \<Rightarrow> u64 \<Rightarrow> u8 list) \<Rightarrow> ('w, 'a) bcache_scheme \<Rightarrow> nat list \<Rightarrow> bool" where
  "coherent rd s L \<longleftrightarrow> (\<forall>b \<in> set L. buf_coherent rd s b)"

text \<open>The current contents of a block: what the cache has, else what is on the medium.\<close>

definition contents :: "('w \<Rightarrow> u64 \<Rightarrow> u64 \<Rightarrow> u8 list) \<Rightarrow> ('w, 'a) bcache_scheme \<Rightarrow> nat list \<Rightarrow> u64 \<Rightarrow> u64 \<Rightarrow> u8 list \<Rightarrow> bool" where
  "contents rd s L dev blockno d \<longleftrightarrow>
     (\<exists>b \<in> set L. key s b = (dev, blockno) \<and> b_data (bufs s b) = Some d) \<or>
     (\<forall>b \<in> set L. key s b \<noteq> (dev, blockno)) \<and> d = rd (world s) dev blockno"

lemma contents_cong:
  assumes "set L' = set L" "world u = world s" "\<And>p. p \<in> set L \<Longrightarrow> key u p = key s p \<and> b_data (bufs u p) = b_data (bufs s p)"
  shows "contents rd u L' dev blockno d = contents rd s L dev blockno d"
  using assms unfolding contents_def by auto

lemma buf_coherent_cong:
  assumes "blk_devices u = blk_devices s" "b_dev (bufs u b) = b_dev (bufs s b)" "b_blockno (bufs u b) = b_blockno (bufs s b)"
    "b_data (bufs u b) = b_data (bufs s b)" "has_flag B_DIRTY b u = has_flag B_DIRTY b s"
    "rd (world u) (b_dev (bufs s b)) (b_blockno (bufs s b)) = rd (world s) (b_dev (bufs s b)) (b_blockno (bufs s b))"
  shows "buf_coherent rd u b = buf_coherent rd s b"
  unfolding buf_coherent_def assms(2-6) using disk_ok_cong [OF assms(1)] by (cases "b_dev (bufs s b) = 0") simp_all

lemma flag_bits: "has_flag 2 b s \<longleftrightarrow> bit (b_flags (bufs s b)) 1" "has_flag 4 b s \<longleftrightarrow> bit (b_flags (bufs s b)) 2"
proof -
  have "(x :: u32) AND 2 \<noteq> 0 \<longleftrightarrow> bit x 1" "x AND 4 \<noteq> 0 \<longleftrightarrow> bit x 2" for x
    using and_exp_eq_0_iff_not_bit [of x 1] and_exp_eq_0_iff_not_bit [of x 2] by simp_all
  then show "has_flag 2 b s \<longleftrightarrow> bit (b_flags (bufs s b)) 1" "has_flag 4 b s \<longleftrightarrow> bit (b_flags (bufs s b)) 2"
    by (simp_all add: has_flag_def)
qed

lemma dirty_bits [simp]:
  "\<not> bit ((x :: u32) AND - 3) (Suc 0)" "bit ((x :: u32) AND - 3) 2 \<longleftrightarrow> bit x 2" "bit ((x :: u32) OR 2) (Suc 0)" "bit ((x :: u32) OR 2) 2 \<longleftrightarrow> bit x 2"
proof -
  have m: "(- 3 :: u32) = NOT 2" by simp
  show "\<not> bit (x AND - 3) (Suc 0)" "bit (x AND - 3) 2 \<longleftrightarrow> bit x 2" unfolding m by (simp_all add: bit_simps bit_numeral_simps del: minus_numeral_eq_not_sub_one)
  show "bit (x OR 2) (Suc 0)" "bit (x OR 2) 2 \<longleftrightarrow> bit x 2" by (simp_all add: bit_simps bit_numeral_simps)
qed

section \<open>Eviction\<close>

text \<open>A buffer whose block has just been written to the medium.\<close>

lemma cleaned_ok:
  assumes ok: "cache_ok s L H" and co: "coherent rd s L" and b: "b \<in> set L" "b_dev (bufs s b) \<noteq> 0"
    and d: "b_data (bufs s b) = Some d"
    and w: "rd (world u) = (rd (world s))(b_dev (bufs s b) := (rd (world s) (b_dev (bufs s b)))(b_blockno (bufs s b) := d))"
    and ub: "\<And>p. bufs u p = (if p = b then (bufs s b)\<lparr>b_locked := False, b_flags := b_flags (bufs s b) AND NOT B_DIRTY\<rparr> else bufs s p)"
      "blk_devices u = blk_devices s" "bhash u = bhash s"
  shows "cache_ok u L H \<and> coherent rd u L \<and> \<not> has_flag B_DIRTY b u \<and> (\<forall>dv no e. contents rd u L dv no e = contents rd s L dv no e)"
proof -
  note D = cache_okD [OF ok]
  have keys: "key u p = key s p" "b_data (bufs u p) = b_data (bufs s p)" for p by (simp_all add: ub)
  have clean: "\<not> has_flag B_DIRTY b u" unfolding flag_bits ub(1) by simp
  have "ring (nx u) (pv u) HEAD L" using D(1) by (subst ring_cong [of HEAD L _ "nx s" _ "pv s"]) (auto simp: ub(1))
  then have oku: "cache_ok u L H"
    by (rule cache_ok_cong [OF ok]) (use D(5,6) b in \<open>auto simp: ub(1,3) flag_bits\<close>)
  have rdo: "rd (world u) (b_dev (bufs s p)) (b_blockno (bufs s p)) = rd (world s) (b_dev (bufs s p)) (b_blockno (bufs s p))"
    if "p \<in> set L" "p \<noteq> b" for p
    using D(4) [OF b(1) that(1) b(2)] that(2) w by auto
  have "buf_coherent rd u p" if p: "p \<in> set L" for p
  proof -
    have c: "buf_coherent rd s p" using co p by (simp add: coherent_def)
    show ?thesis
    proof (cases "p = b")
      case True
      then show ?thesis using c d b(2) w disk_ok_cong [OF ub(2)] unfolding buf_coherent_def by (intro exI [of _ d]) (simp add: ub(1))
    next
      case False
      then have e: "bufs u p = bufs s p" "has_flag 2 p u = has_flag 2 p s" by (simp_all add: ub(1) has_flag_def)
      then show ?thesis using c buf_coherent_cong [OF ub(2), of p rd] rdo [OF p False] by (simp add: e)
    qed
  qed
  then have cou: "coherent rd u L" by (simp add: coherent_def)
  have "contents rd u L dv bno e = contents rd s L dv bno e" for dv bno e
  proof (cases "\<exists>p \<in> set L. key s p = (dv, bno)")
    case True
    then show ?thesis unfolding contents_def keys by blast
  next
    case False
    then have "rd (world u) dv bno = rd (world s) dv bno" using b(1) w by auto
    then show ?thesis unfolding contents_def keys by simp
  qed
  then show ?thesis using oku cou clean by blast
qed

lemma write_victim_ok:
  assumes ok: "cache_ok s L H" and co: "coherent rd s L" and b: "b \<in> set L" "b_refcnt (bufs s b) = 0"
  shows "\<exists>u. write_victim b s = Inr u \<and> cache_ok u L H \<and> coherent rd u L \<and> \<not> has_flag B_DIRTY b u \<and> blk_devices u = blk_devices s \<and>
    (\<forall>p. key u p = key s p \<and> b_refcnt (bufs u p) = b_refcnt (bufs s p)) \<and> (\<forall>dev bno d. contents rd u L dev bno d = contents rd s L dev bno d)"
proof (cases "has_flag B_DIRTY b s")
  case False
  then show ?thesis using ok co by (intro exI [of _ s]) (simp add: write_victim_def)
next
  case True
  have bc: "buf_coherent rd s b" using co b(1) by (simp add: coherent_def)
  then have dev: "b_dev (bufs s b) \<noteq> 0" using True by (auto simp: buf_coherent_def split: if_splits)
  then obtain d where d: "b_data (bufs s b) = Some d" "length d = 4096" "disk_ok rd (b_dev (bufs s b)) s"
    "in_range (b_dev (bufs s b)) (b_blockno (bufs s b)) s" using bc by (auto simp: buf_coherent_def)
  let ?s = "upd_buf b (\<lambda>x. x\<lparr>b_locked := True\<rparr>) s"
  have "\<exists>w. write_block b ?s = Inr (0, ?s\<lparr>world := w\<rparr>) \<and>
      rd w = (rd (world ?s))(b_dev (bufs ?s b) := (rd (world ?s) (b_dev (bufs ?s b)))(b_blockno (bufs ?s b) := d))"
    by (rule write_block_ok) (use d disk_ok_cong [of ?s s] in simp_all)
  then obtain w where w: "write_block b ?s = Inr (0, ?s\<lparr>world := w\<rparr>)"
    "rd w = (rd (world s))(b_dev (bufs s b) := (rd (world s) (b_dev (bufs s b)))(b_blockno (bufs s b) := d))" by auto
  define u where "u = buf_release b (upd_buf b (\<lambda>x. x\<lparr>b_flags := b_flags x AND NOT B_DIRTY\<rparr>) (?s\<lparr>world := w, writes := writes s + 1\<rparr>))"
  have "\<not> b_locked (bufs s b)" using cache_okD(6) [OF ok b] .
  then have res: "write_victim b s = Inr u"
    using True dev w(1) by (simp add: write_victim_def buf_acquire_def u_def upd_buf_def)
  have ub: "bufs u p = (if p = b then (bufs s b)\<lparr>b_locked := False, b_flags := b_flags (bufs s b) AND NOT B_DIRTY\<rparr> else bufs s p)"
    "world u = w" "blk_devices u = blk_devices s" "bhash u = bhash s" for p
    by (simp_all add: u_def buf_release_def upd_buf_def)
  have "cache_ok u L H \<and> coherent rd u L \<and> \<not> has_flag B_DIRTY b u \<and> (\<forall>dv no e. contents rd u L dv no e = contents rd s L dv no e)"
    by (rule cleaned_ok [OF ok co b(1) dev d(1)]) (use w(2) ub in auto)
  then show ?thesis using res ub(1,3) by (intro exI [of _ u]) simp
qed

lemma cache_ok_same: "bufs u = bufs s \<Longrightarrow> bhash u = bhash s \<Longrightarrow> cache_ok u L H = cache_ok s L H"
  unfolding cache_ok_def hash_ok_def has_flag_def by (simp only:)

lemma evict_ok:
  assumes ok: "cache_ok s L H" and co: "coherent rd s L"
    and v: "find (\<lambda>b. b_refcnt (bufs s b) = 0 \<and> b_pincount (bufs s b) = 0) (rev L) = Some b"
  shows "\<exists>u H'. bcache_evict s = Inr (b, u) \<and> b \<in> set L \<and> b_dev (bufs u b) = 0 \<and> cache_ok u L H' \<and> coherent rd u L \<and>
    blk_devices u = blk_devices s \<and> b_refcnt (bufs u b) = 0 \<and> (\<forall>p. key u p = key s p \<or> b_dev (bufs u p) = 0) \<and>
    (\<forall>dev bno d. dev \<noteq> 0 \<longrightarrow> contents rd u L dev bno d = contents rd s L dev bno d)"
proof -
  note D = cache_okD [OF ok]
  have bL: "b \<in> set L" and b0: "b_refcnt (bufs s b) = 0" using find_mem [OF v] by simp_all
  have fv: "find_victim s (pv s HEAD) = Some (Some b)"
    using find_victim_eq [of s L HEAD] D(1,9) v by (simp add: ring_def)
  obtain s1 where s1: "write_victim b s = Inr s1" "cache_ok s1 L H" "coherent rd s1 L" "\<not> has_flag B_DIRTY b s1" "blk_devices s1 = blk_devices s"
    "\<forall>p. key s1 p = key s p \<and> b_refcnt (bufs s1 p) = b_refcnt (bufs s p)" "\<forall>dev bno d. contents rd s1 L dev bno d = contents rd s L dev bno d"
    using write_victim_ok [OF ok co bL b0] by blast
  have bz: "b \<noteq> 0" using bL D(8) by metis
  have bc: "buf_coherent rd s1 b" using s1(3) bL by (simp add: coherent_def)
  have fin: "\<exists>u H'. bcache_evict s = Inr (b, u) \<and> b \<in> set L \<and> b_dev (bufs u b) = 0 \<and> cache_ok u L H' \<and> coherent rd u L \<and>
    blk_devices u = blk_devices s \<and> b_refcnt (bufs u b) = 0 \<and> (\<forall>p. key u p = key s p \<or> b_dev (bufs u p) = 0) \<and>
    (\<forall>dev bno d. dev \<noteq> 0 \<longrightarrow> contents rd u L dev bno d = contents rd s L dev bno d)"
    if s2: "(if b_dev (bufs s1 b) \<noteq> 0 then unhash b s1 else Inr s1) = Inr s2" "cache_ok (forget b s2) L H2" "bufs s2 b = bufs s1 b"
      "\<forall>p. p \<noteq> b \<longrightarrow> (\<exists>n. bufs s2 p = (bufs s1 p)\<lparr>b_qnext := n\<rparr>)" "world s2 = world s1" "blk_devices s2 = blk_devices s1" for s2 H2
  proof -
    let ?u = "(forget b s2)\<lparr>evictions := evictions s2 + 1\<rparr>"
    have r: "bcache_evict s = Inr (b, ?u)"
      unfolding bcache_evict_def fv using s1(1) s2(1) by (simp add: Let_def forget_def upd_buf_def)
    have ok': "cache_ok ?u L H2" using s2(2) cache_ok_same [of ?u "forget b s2" L H2] by simp
    have ub: "bufs ?u b = (bufs s1 b)\<lparr>b_dev := 0, b_blockno := 0, b_flags := 0, b_qnext := 0\<rparr>" using s2(3) by (simp add: forget_def)
    have uo: "\<exists>n. bufs ?u p = (bufs s1 p)\<lparr>b_qnext := n\<rparr>" if "p \<noteq> b" for p using s2(4) that by (simp add: forget_def)
    have wu: "world ?u = world s1" "blk_devices ?u = blk_devices s1" using s2(5,6) by (simp_all add: forget_def)
    have keep: "key ?u p = key s1 p" "b_data (bufs ?u p) = b_data (bufs s1 p)" "has_flag f p ?u = has_flag f p s1" if "p \<noteq> b" for p f
      using uo [OF that] by (auto simp: has_flag_def)
    have "buf_coherent rd ?u p" if "p \<in> set L" for p
    proof (cases "p = b")
      case True
      then show ?thesis using bc ub by (auto simp: buf_coherent_def has_flag_def)
    next
      case False
      then show ?thesis using s1(3) that keep [OF False] buf_coherent_cong [of ?u s1 p rd] wu by (simp add: coherent_def)
    qed
    then have "coherent rd ?u L" by (simp add: coherent_def)
    moreover have "contents rd ?u L dv bno d = contents rd s L dv bno d" if dv: "dv \<noteq> 0" for dv bno d
    proof -
      have "contents rd ?u L dv bno d = contents rd s1 L dv bno d"
      proof (cases "key s1 b = (dv, bno)")
        case True
        then have db: "b_data (bufs s1 b) = Some (rd (world s1) dv bno)" using bc s1(4) dv by (auto simp: buf_coherent_def)
        have bd: "b_dev (bufs s1 b) \<noteq> 0" using True dv by simp
        have only: "p = b" if "p \<in> set L" "key s1 p = (dv, bno)" for p
          using cache_okD(4) [OF s1(2) bL that(1) bd] True that(2) by metis
        have no: "key ?u p \<noteq> (dv, bno)" if "p \<in> set L" for p
        proof (cases "p = b")
          case True
          then show ?thesis using ub dv by simp
        next
          case False
          then show ?thesis using keep(1) [OF False] only [OF that] by metis
        qed
        have "contents rd ?u L dv bno d \<longleftrightarrow> d = rd (world s1) dv bno" using no wu(1) unfolding contents_def by metis
        moreover have "contents rd s1 L dv bno d \<longleftrightarrow> d = rd (world s1) dv bno"
          using only db True bL unfolding contents_def by (metis option.inject)
        ultimately show ?thesis by simp
      next
        case False
        have "key ?u p = (dv, bno) \<longleftrightarrow> key s1 p = (dv, bno)" "key ?u p = (dv, bno) \<longrightarrow> b_data (bufs ?u p) = b_data (bufs s1 p)" for p
          using keep(1,2) [of p] False dv ub by (cases "p = b"; simp)+
        then show ?thesis unfolding contents_def wu(1) by metis
      qed
      then show ?thesis using s1(7) by simp
    qed
    moreover have "key ?u p = key s p \<or> b_dev (bufs ?u p) = 0" for p
      using keep(1) [of p] s1(6) ub by (cases "p = b") auto
    moreover have "b_dev (bufs ?u b) = 0" "b_refcnt (bufs ?u b) = 0" using ub s1(6) b0 by simp_all
    moreover have "blk_devices ?u = blk_devices s" using wu(2) s1(5) by (rule trans)
    ultimately show ?thesis using r ok' bL by (intro exI [of _ ?u] exI [of _ H2]) blast
  qed
  show ?thesis
  proof (cases "b_dev (bufs s1 b) = 0")
    case True
    have "cache_ok (forget b s1) L H"
    proof (rule cache_ok_cong [OF s1(2)])
      show "ring (nx (forget b s1)) (pv (forget b s1)) HEAD L"
        using cache_okD(1) [OF s1(2)] by (subst ring_cong [of HEAD L _ "nx s1" _ "pv s1"]) (auto simp: forget_def)
      show "b_dev (bufs (forget b s1) p) = b_dev (bufs s1 p) \<and>
        (b_dev (bufs s1 p) \<noteq> 0 \<longrightarrow> qnext (forget b s1) p = qnext s1 p \<and> b_blockno (bufs (forget b s1) p) = b_blockno (bufs s1 p))" for p
        using True by (simp add: forget_def)
      show "\<not> has_flag B_BUSY p (forget b s1) \<and> (b_refcnt (bufs (forget b s1) p) = 0 \<longrightarrow> \<not> b_locked (bufs (forget b s1) p))" if "p \<in> set L" for p
        using cache_okD(5,6) [OF s1(2) that] by (auto simp: forget_def has_flag_def)
    qed (simp_all add: forget_def)
    moreover have "\<exists>n. bufs s1 p = (bufs s1 p)\<lparr>b_qnext := n\<rparr>" for p by (rule exI [of _ "qnext s1 p"]) simp
    ultimately show ?thesis using True by (intro fin [of s1 H]) simp_all
  next
    case False
    obtain s2 where s2: "unhash b s1 = Inr s2"
      "cache_ok (forget b s2) L (H(hash_block (b_dev (bufs s1 b)) (b_blockno (bufs s1 b)) := filter (\<lambda>c. c \<noteq> b) (H (hash_block (b_dev (bufs s1 b)) (b_blockno (bufs s1 b))))))"
      "\<forall>p. p \<noteq> b \<longrightarrow> (\<exists>n. bufs s2 p = (bufs s1 p)\<lparr>b_qnext := n\<rparr>)" "bufs s2 b = bufs s1 b" "world s2 = world s1" "blk_devices s2 = blk_devices s1"
      using unhash_forget [OF s1(2) bL False] s1(6) b0 by auto
    then show ?thesis using False by (intro fin [of s2]) simp_all
  qed
qed

section \<open>Reading\<close>

lemma install_ok:
  assumes ok: "cache_ok s L H" and b: "b \<in> set L" "b_dev (bufs s b) = 0" and dev: "dev \<noteq> 0"
    and new: "\<forall>p \<in> set L. key s p \<noteq> (dev, bno)"
    and v: "bhash v = bhash u" "\<forall>p. p \<noteq> b \<longrightarrow> bufs v p = bufs u p"
      "bufs v b = (bufs u b)\<lparr>b_flags := 1, b_locked := True, b_data := d\<rparr>" and u: "u = bread_install b dev bno s"
  shows "\<exists>A B. L = A @ b # B \<and> cache_ok v (b # A @ B) (H(hash_block dev bno := b # H (hash_block dev bno))) \<and>
    (\<forall>p. p \<noteq> b \<longrightarrow> bare (bufs v p) = bare (bufs s p)) \<and> key v b = (dev, bno) \<and> b_refcnt (bufs v b) = 1"
proof -
  let ?h = "hash_block dev bno"
  note D = cache_okD [OF ok]
  note HO = hash_okD [OF D(3)]
  obtain A B where L: "L = A @ b # B" using b(1) by (meson split_list)
  define i where "i = (upd_buf b (\<lambda>x. x\<lparr>b_qnext := bhash s ?h\<rparr>)
     (upd_buf b (\<lambda>x. x\<lparr>b_dev := dev, b_blockno := bno, b_flags := B_BUSY, b_refcnt := 1\<rparr>) s))\<lparr>bhash := (bhash s)(?h := b)\<rparr>"
  have ui: "u = lru_move_front b i" unfolding u bread_install_def i_def by (simp add: Let_def)
  have li: "links_only i u" unfolding ui by (rule lru_move_front_links)
  have ib: "bufs i p = (if p = b then (bufs s b)\<lparr>b_dev := dev, b_blockno := bno, b_flags := 4, b_refcnt := 1, b_qnext := bhash s ?h\<rparr> else bufs s p)" for p
    by (simp add: i_def)
  have "ring (nx i) (pv i) HEAD (A @ b # B)" using D(1) L by (subst ring_cong [of HEAD "A @ b # B" _ "nx s" _ "pv s"]) (auto simp: ib)
  then have "ring (nx u) (pv u) HEAD (b # A @ B)" unfolding ui by (rule lru_move_front_ring)
  moreover have vu: "nx v p = nx u p" "pv v p = pv u p" "bare (bufs v p) = (if p = b then (bare (bufs u b))\<lparr>b_flags := 1, b_locked := True, b_data := d\<rparr> else bare (bufs u p))" for p
    using v(2,3) by (cases "p = b"; simp add: bare_def)+
  ultimately have ring: "ring (nx v) (pv v) HEAD (b # A @ B)" by simp
  have bi: "bare (bufs u p) = bare (bufs i p)" for p using li by (simp add: links_only_def)
  have vo: "bare (bufs v p) = bare (bufs s p)" if "p \<noteq> b" for p using vu(3) [of p] bi [of p] ib [of p] that by simp
  have vb: "bare (bufs v b) = (bare (bufs s b))\<lparr>b_dev := dev, b_blockno := bno, b_flags := 1, b_refcnt := 1, b_qnext := bhash s ?h, b_locked := True, b_data := d\<rparr>"
    using vu(3) [of b] bi [of b] ib [of b] by (simp add: bare_def)
  have fb: "b_dev (bufs v b) = dev" "b_blockno (bufs v b) = bno" "b_flags (bufs v b) = 1" "b_refcnt (bufs v b) = 1" "qnext v b = bhash s ?h"
    using bare_fields [of "bufs v b" "(bufs s b)\<lparr>b_dev := dev, b_blockno := bno, b_flags := 1, b_refcnt := 1, b_qnext := bhash s ?h, b_locked := True, b_data := d\<rparr>"] vb
    by (simp_all add: bare_def)
  have fo: "b_dev (bufs v p) = b_dev (bufs s p)" "b_blockno (bufs v p) = b_blockno (bufs s p)" "has_flag f p v = has_flag f p s"
    "b_refcnt (bufs v p) = b_refcnt (bufs s p)" "qnext v p = qnext s p" "b_locked (bufs v p) = b_locked (bufs s p)" if "p \<noteq> b" for p f
    using bare_fields [OF vo [OF that]] by (simp_all add: has_flag_def)
  have hv: "bhash v = (bhash s)(?h := b)" using v(1) li by (simp add: links_only_def i_def)
  have bn: "b \<notin> set (H h)" for h using HO(2) [of b h] b(2) by simp
  have b0: "b \<noteq> 0" using b(1) D(8) by metis
  have "chain (qnext v) (bhash v h) ((H(?h := b # H ?h)) h)" for h
  proof -
    have "chain (qnext v) p (H h) = chain (qnext s) p (H h)" for p by (rule chain_cong) (use fo(5) bn in metis)
    then show ?thesis using HO(1) [of h] hv fb(5) b0 by (cases "h = ?h") simp_all
  qed
  moreover have "p \<in> set ((H(?h := b # H ?h)) h) \<longleftrightarrow> p \<in> set (b # A @ B) \<and> b_dev (bufs v p) \<noteq> 0 \<and> hash_block (b_dev (bufs v p)) (b_blockno (bufs v p)) = h" for p h
  proof (cases "p = b")
    case True
    then show ?thesis using fb dev bn by auto
  next
    case False
    then show ?thesis using HO(2) [of p h] fo(1,2) [OF False] L by auto
  qed
  ultimately have hash: "hash_ok v (b # A @ B) (H(?h := b # H ?h))" unfolding hash_ok_def by blast
  have sL: "set (b # A @ B) = set L" using L by auto
  have uniq: "p = q" if "p \<in> set L" "q \<in> set L" "b_dev (bufs v p) \<noteq> 0" "key v p = key v q" for p q
  proof (cases "p = b \<or> q = b")
    case True
    have "key v p = (dev, bno)" using True that(4) fb(1,2) by auto
    then have "x = b" if "x = p \<or> x = q" for x
      using that fo(1,2) [of x] new \<open>p \<in> set L\<close> \<open>q \<in> set L\<close> \<open>key v p = key v q\<close> by (cases "x = b") auto
    then show ?thesis by metis
  next
    case False
    then have "key v p = key s p" "key v q = key s q" "b_dev (bufs v p) = b_dev (bufs s p)" using fo(1,2) by simp_all
    then show ?thesis using D(4) [OF that(1,2)] that(3,4) by metis
  qed
  have "\<not> has_flag B_BUSY p v \<and> (b_refcnt (bufs v p) = 0 \<longrightarrow> \<not> b_locked (bufs v p))" if "p \<in> set L" for p
    using D(5,6) [OF that] fb(3,4) fo(3,4,6) [of p] by (cases "p = b") (auto simp: has_flag_def)
  then have "cache_ok v (b # A @ B) (H(?h := b # H ?h))" using ring hash uniq D(2) unfolding cache_ok_def sL by blast
  then show ?thesis using L vo fb by (intro exI [of _ A] exI [of _ B]) simp
qed

definition read_result ::
  "('w \<Rightarrow> u64 \<Rightarrow> u64 \<Rightarrow> u8 list) \<Rightarrow> u64 \<Rightarrow> u64 \<Rightarrow> nat list \<Rightarrow> ('w, 'a) bcache_scheme \<Rightarrow> nat \<Rightarrow> ('w, 'a) bcache_scheme \<Rightarrow> bool" where
  "read_result rd dev bno L s b u \<longleftrightarrow>
     (\<exists>L' H'. set L' = set L \<and> b \<in> set L \<and> cache_ok u L' H' \<and> coherent rd u L' \<and> key u b = (dev, bno) \<and> b_locked (bufs u b) \<and>
        (\<exists>d. b_data (bufs u b) = Some d \<and> contents rd s L dev bno d) \<and>
        (\<forall>dv no e. dv \<noteq> 0 \<longrightarrow> contents rd u L' dv no e = contents rd s L dv no e))"

lemma bread_hit_ok:
  assumes ok: "cache_ok s L H" and co: "coherent rd s L" and b: "b \<in> set L" "b_refcnt (bufs s b) = 0"
    and dev: "b_dev (bufs s b) \<noteq> 0"
  shows "\<exists>u. bread_hit b s = Inr (b, u) \<and> read_result rd (b_dev (bufs s b)) (b_blockno (bufs s b)) L s b u"
proof -
  note D = cache_okD [OF ok]
  obtain A B where L: "L = A @ b # B" using b(1) by (meson split_list)
  define i where "i = upd_buf b (\<lambda>x. x\<lparr>b_refcnt := b_refcnt x + 1\<rparr>) s"
  define m where "m = lru_move_front b i"
  define u where "u = upd_buf b (\<lambda>x. x\<lparr>b_locked := True\<rparr>) (m\<lparr>hits := hits m + 1\<rparr>)"
  have lm: "links_only i m" unfolding m_def by (rule lru_move_front_links)
  have bm: "bare (bufs m p) = bare (bufs i p)" for p using lm by (simp add: links_only_def)
  have "ring (nx i) (pv i) HEAD (A @ b # B)" using D(1) L by (subst ring_cong [of HEAD "A @ b # B" _ "nx s" _ "pv s"]) (auto simp: i_def)
  then have "ring (nx m) (pv m) HEAD (b # A @ B)" unfolding m_def by (rule lru_move_front_ring)
  then have ring: "ring (nx u) (pv u) HEAD (b # A @ B)"
    by (subst ring_cong [of HEAD "b # A @ B" _ "nx m" _ "pv m"]) (auto simp: u_def)
  have fm: "b_flags (bufs m p) = b_flags (bufs s p)" "b_dev (bufs m p) = b_dev (bufs s p)" "b_blockno (bufs m p) = b_blockno (bufs s p)"
    "qnext m p = qnext s p" "b_data (bufs m p) = b_data (bufs s p)" "b_locked (bufs m p) = b_locked (bufs s p)"
    "b_refcnt (bufs m p) = (if p = b then 1 else b_refcnt (bufs s p))" for p
    using bare_fields [OF bm [of p]] b(2) by (simp_all add: i_def)
  have fu: "b_dev (bufs u p) = b_dev (bufs s p)" "b_blockno (bufs u p) = b_blockno (bufs s p)" "qnext u p = qnext s p"
    "b_data (bufs u p) = b_data (bufs s p)" "has_flag f p u = has_flag f p s" "b_refcnt (bufs u p) = (if p = b then 1 else b_refcnt (bufs s p))"
    "b_locked (bufs u p) = (p = b \<or> b_locked (bufs s p))" for p f
    by (simp_all add: u_def has_flag_def fm)
  have wu: "world u = world s" "blk_devices u = blk_devices s" "bhash u = bhash s" using lm by (simp_all add: u_def links_only_def i_def)
  have "bread_hit b s = Inr (b, u)"
    using D(5) [OF b(1)] D(6) [OF b] fm(1) [of b] fm(6) [of b]
    by (simp add: bread_hit_def Let_def i_def [symmetric] m_def [symmetric] has_flag_def buf_acquire_def u_def)
  moreover have sL: "set (b # A @ B) = set L" using L by auto
  moreover have "cache_ok u (b # A @ B) H"
    by (rule cache_ok_cong [OF ok ring sL wu(3)]) (use D(5,6) in \<open>auto simp: fu\<close>)
  moreover have "coherent rd u (b # A @ B)"
    using co buf_coherent_cong [of u s] wu fu unfolding coherent_def sL by simp
  moreover obtain d where "b_data (bufs s b) = Some d" using co b(1) by (auto simp: coherent_def buf_coherent_def)
  moreover have "contents rd u (b # A @ B) dv no e = contents rd s L dv no e" for dv no e
    by (rule contents_cong) (use sL wu fu in auto)
  ultimately show ?thesis using b(1) fu unfolding read_result_def
    by (intro exI [of _ u] conjI exI [of _ "b # A @ B"] exI [of _ H]) (auto simp: contents_def)
qed

lemma bread_miss_ok:
  assumes ok: "cache_ok s L H" and co: "coherent rd s L" and disk: "disk_ok rd dev s" "in_range dev bno s"
    and new: "\<forall>p \<in> set L. key s p \<noteq> (dev, bno)"
    and v: "find (\<lambda>b. b_refcnt (bufs s b) = 0 \<and> b_pincount (bufs s b) = 0) (rev L) = Some b"
  shows "\<exists>u. bread dev bno s = Inr (b, u) \<and> read_result rd dev bno L s b u"
proof -
  have dev: "dev \<noteq> 0" using disk by (simp add: disk_ok_def)
  let ?s = "s\<lparr>misses := misses s + 1\<rparr>"
  have oks: "cache_ok ?s L H" using ok cache_ok_same [of ?s s L H] by simp
  have cos: "coherent rd ?s L" using co buf_coherent_cong [of ?s s] by (simp add: coherent_def has_flag_def)
  obtain s1 H1 where s1: "bcache_evict ?s = Inr (b, s1)" "b \<in> set L" "b_dev (bufs s1 b) = 0" "cache_ok s1 L H1" "coherent rd s1 L"
    "blk_devices s1 = blk_devices s" "b_refcnt (bufs s1 b) = 0" "\<forall>p. key s1 p = key s p \<or> b_dev (bufs s1 p) = 0"
    "\<forall>dev bno d. dev \<noteq> 0 \<longrightarrow> contents rd s1 L dev bno d = contents rd ?s L dev bno d"
    using evict_ok [OF oks cos, of b] v by auto
  have cs: "contents rd ?s L dv no e = contents rd s L dv no e" for dv no e by (rule contents_cong) auto
  have new1: "\<forall>p \<in> set L. key s1 p \<noteq> (dev, bno)" using s1(8) new dev by (metis fst_conv)
  define i where "i = bread_install b dev bno s1"
  have li: "blk_devices i = blk_devices s1" "world i = world s1" "b_locked (bufs i p) = b_locked (bufs s1 p)" "b_data (bufs i p) = b_data (bufs s1 p)"
    "b_flags (bufs i b) = 4" for p
  proof -
    define j where "j = (upd_buf b (\<lambda>x. x\<lparr>b_qnext := bhash s1 (hash_block dev bno)\<rparr>)
       (upd_buf b (\<lambda>x. x\<lparr>b_dev := dev, b_blockno := bno, b_flags := B_BUSY, b_refcnt := 1\<rparr>) s1))\<lparr>bhash := (bhash s1)(hash_block dev bno := b)\<rparr>"
    have "links_only j i" unfolding i_def bread_install_def j_def by (simp add: Let_def lru_move_front_links)
    then show "blk_devices i = blk_devices s1" "world i = world s1" "b_locked (bufs i p) = b_locked (bufs s1 p)" "b_data (bufs i p) = b_data (bufs s1 p)"
      "b_flags (bufs i b) = 4"
      using bare_fields [of "bufs i p" "bufs j p"] bare_fields [of "bufs i b" "bufs j b"] by (simp_all add: links_only_def j_def)
  qed
  obtain d0 where d0: "b_data (bufs s1 b) = Some d0" "length d0 = 4096" using s1(2,5) by (auto simp: coherent_def buf_coherent_def)
  let ?s3 = "upd_buf b (\<lambda>x. x\<lparr>b_locked := True\<rparr>) i" and ?d = "rd (world s1) dev bno"
  have disk3: "disk_ok rd dev ?s3" "in_range dev bno ?s3"
    using disk_ok_cong [of ?s3 s rd dev bno] disk li(1) s1(6) by simp_all
  obtain sector count where rdb: "block_sectors dev bno ?s3 = Inr (sector, count)"
    "blk_read dev sector count (Some d0) ?s3 = Inr (0, Some ?d, ?s3)"
    using blk_read_ok(1) [OF disk3 d0(2)] li(2) by auto
  define v where "v = (upd_buf b (\<lambda>x. x\<lparr>b_flags := (b_flags x OR B_VALID) AND NOT B_BUSY\<rparr>) (upd_buf b (\<lambda>x. x\<lparr>b_data := Some ?d\<rparr>) ?s3))\<lparr>reads := reads i + 1\<rparr>"
  have b0: "b \<noteq> 0" using s1(2) cache_okD(8) [OF ok] by metis
  have "\<not> b_locked (bufs s1 b)" using cache_okD(6) [OF s1(4,2,7)] .
  then have res: "bread dev bno s = Inr (b, v)"
    using dev bcache_lookup_eq(2) [OF ok dev new] s1(1) b0 rdb d0(1) li(3,4) [of b]
    by (simp add: bread_def Let_def i_def [symmetric] buf_acquire_def v_def upd_buf_def)
  have vb: "bufs v b = (bufs i b)\<lparr>b_flags := 1, b_locked := True, b_data := Some ?d\<rparr>" using li(5) by (simp add: v_def)
  obtain A B where AB: "L = A @ b # B" "cache_ok v (b # A @ B) (H1(hash_block dev bno := b # H1 (hash_block dev bno)))"
    "\<forall>p. p \<noteq> b \<longrightarrow> bare (bufs v p) = bare (bufs s1 p)" "key v b = (dev, bno)" "b_refcnt (bufs v b) = 1"
    using install_ok [OF s1(4,2,3) dev new1 _ _ vb i_def] by (auto simp: v_def)
  have sL: "set (b # A @ B) = set L" using AB(1) by auto
  have wv: "world v = world s1" "blk_devices v = blk_devices s1" by (simp_all add: v_def li)
  have fo: "key v p = key s1 p" "b_data (bufs v p) = b_data (bufs s1 p)" "has_flag f p v = has_flag f p s1" if "p \<noteq> b" for p f
    using bare_fields [of "bufs v p" "bufs s1 p"] AB(3) that by (auto simp: has_flag_def)
  have vd: "b_data (bufs v b) = Some ?d" "\<not> has_flag B_DIRTY b v" "b_locked (bufs v b)" using vb by (simp_all add: has_flag_def)
  have "buf_coherent rd v p" if p: "p \<in> set L" for p
  proof (cases "p = b")
    case True
    have "length ?d = 4096" using blk_read_ok(2) [OF disk3 d0(2)] .
    then show ?thesis unfolding buf_coherent_def using True AB(4) dev vd disk disk_ok_cong [of v s rd dev bno] wv s1(6) by auto
  next
    case False
    then show ?thesis using s1(5) p fo [OF False] buf_coherent_cong [of v s1 p rd] wv by (simp add: coherent_def)
  qed
  then have cov: "coherent rd v (b # A @ B)" unfolding coherent_def sL by blast
  have c1: "contents rd s1 L dev bno ?d" using new1 unfolding contents_def by blast
  have cv: "contents rd v (b # A @ B) dv no e = contents rd s L dv no e" if dv: "dv \<noteq> 0" for dv no e
  proof (cases "(dv, no) = (dev, bno)")
    case True
    have "p = b" if "p \<in> set L" "key v p = (dev, bno)" for p using fo(1) [of p] new1 that by metis
    then have "contents rd v (b # A @ B) dev bno e \<longleftrightarrow> e = ?d" using AB(4) vd(1) s1(2) unfolding contents_def sL by (metis option.inject)
    moreover have "contents rd s1 L dev bno e \<longleftrightarrow> e = ?d" using new1 unfolding contents_def by blast
    ultimately show ?thesis using True s1(9) cs dev by simp
  next
    case False
    have "key v p = (dv, no) \<longleftrightarrow> key s1 p = (dv, no)" "key v p = (dv, no) \<longrightarrow> b_data (bufs v p) = b_data (bufs s1 p)" for p
      using fo(1,2) [of p] AB(4) False s1(3) dv by (cases "p = b"; force)+
    then have "contents rd v (b # A @ B) dv no e = contents rd s1 L dv no e" unfolding contents_def sL wv(1) by metis
    then show ?thesis using s1(9) cs dv by simp
  qed
  have "contents rd s L dev bno ?d" using c1 s1(9) cs dev by simp
  then show ?thesis
    using res sL s1(2) AB(2,4) cov vd cv unfolding read_result_def by (intro exI [of _ v] conjI exI) auto
qed

section \<open>Synchronising\<close>



section \<open>Release\<close>

lemma brelse_ok:
  assumes ok: "cache_ok s L H" and co: "coherent rd s L" and b: "b \<in> set L" "b_refcnt (bufs s b) = 1"
  shows "\<exists>A B. L = A @ b # B \<and> cache_ok (brelse b s) (A @ B @ [b]) H \<and> coherent rd (brelse b s) (A @ B @ [b]) \<and>
    b_refcnt (bufs (brelse b s) b) = 0 \<and> b_pincount (bufs (brelse b s) b) = b_pincount (bufs s b)"
proof -
  note D = cache_okD [OF ok]
  obtain A B where L: "L = A @ b # B" using b(1) by (meson split_list)
  define i where "i = upd_buf b (\<lambda>x. x\<lparr>b_refcnt := b_refcnt x - 1\<rparr>) (buf_release b s)"
  define m where "m = lru_unlink b i"
  define u where "u = lru_push_back b m"
  have b0: "b \<noteq> 0" using b(1) D(8) by metis
  have u: "brelse b s = u" using b0 b(2) by (simp add: brelse_def Let_def i_def u_def m_def buf_release_def)
  have lu: "links_only i u" unfolding u_def m_def by (rule links_only_trans [OF lru_steps(1) lru_steps(3)])
  have bu: "bare (bufs u p) = bare (bufs i p)" for p using lu by (simp add: links_only_def)
  have "ring (nx i) (pv i) HEAD (A @ b # B)"
    using D(1) L by (subst ring_cong [of HEAD "A @ b # B" _ "nx s" _ "pv s"]) (auto simp: i_def buf_release_def)
  then have "ring (nx m) (pv m) HEAD (A @ B)" unfolding m_def by (rule lru_unlink_ring)
  then have "ring (nx u) (pv u) HEAD ((A @ B) @ [b])" unfolding u_def
    by (rule lru_push_back_ring) (use D(7,9) L in auto)
  then have ring: "ring (nx u) (pv u) HEAD (A @ B @ [b])" by simp
  have fu: "b_dev (bufs u p) = b_dev (bufs s p)" "b_blockno (bufs u p) = b_blockno (bufs s p)" "qnext u p = qnext s p"
    "b_data (bufs u p) = b_data (bufs s p)" "has_flag f p u = has_flag f p s" "b_refcnt (bufs u p) = (if p = b then 0 else b_refcnt (bufs s p))"
    "b_locked (bufs u p) = (p \<noteq> b \<and> b_locked (bufs s p))" "b_pincount (bufs u p) = b_pincount (bufs s p)" for p f
    using bare_fields [OF bu [of p]] b(2) by (simp_all add: i_def buf_release_def has_flag_def)
  have wu: "world u = world s" "blk_devices u = blk_devices s" "bhash u = bhash s"
    using lu by (simp_all add: links_only_def i_def buf_release_def)
  have sL: "set (A @ B @ [b]) = set L" using L by auto
  have "cache_ok u (A @ B @ [b]) H"
    by (rule cache_ok_cong [OF ok ring sL wu(3)]) (use D(5,6) in \<open>auto simp: fu\<close>)
  moreover have "coherent rd u (A @ B @ [b])"
    using co buf_coherent_cong [of u s] wu fu unfolding coherent_def sL by simp
  ultimately show ?thesis unfolding u using L fu(6,8) [of b] by (intro exI [of _ A] exI [of _ B]) simp
qed

section \<open>A small cache\<close>

text \<open>Two empty buffers and a device of eight blocks of 4096 bytes kept in memory.\<close>

type_synonym ram = "u64 \<Rightarrow> u64 \<Rightarrow> u8 list"

definition ram_block :: "ram \<Rightarrow> u64 \<Rightarrow> u64 \<Rightarrow> u8 list" where
  "ram_block w dev blockno = take 4096 (w dev blockno @ replicate 4096 0)"

definition ram_request :: "u64 \<Rightarrow> blk_request \<Rightarrow> u8 list \<Rightarrow> ram \<Rightarrow> int \<times> u8 list \<times> ram" where
  "ram_request dev req d w =
     (if rq_operation req = BLK_OP_READ then (0, ram_block w dev (rq_sector req), w)
      else (0, d, w(dev := (w dev)(rq_sector req := d))))"

definition buf0 :: buf where
  "buf0 = \<lparr>b_flags = 0, b_dev = 0, b_blockno = 0, b_refcnt = 0, b_pincount = 0, b_prev = 0, b_next = 0, b_qnext = 0,
     b_data = Some (replicate 4096 0), b_locked = False\<rparr>"

definition cache0 :: "ram bcache" where
  "cache0 = \<lparr>blk_devices = (\<lambda>_. \<lparr>d_name = ''ram'', d_major = 1, d_minor = 0, d_flags = 0, d_block_size = 4096, d_num_blocks = 8,
       d_ops = Some \<lparr>op_open = None, op_close = None, op_request = Some ram_request, op_ioctl = None, op_flush = None\<rparr>,
       d_open_count = 1, d_next = 0\<rparr>),
     blk_device_list = 0x100, world = (\<lambda>_ _. [7]),
     bufs = (\<lambda>_. buf0)(1 := buf0\<lparr>b_prev := HEAD, b_next := 2\<rparr>, 2 := buf0\<lparr>b_prev := 1, b_next := HEAD\<rparr>,
       HEAD := buf0\<lparr>b_prev := 2, b_next := 1\<rparr>),
     bhash = (\<lambda>_. 0), hits = 0, misses = 0, evictions = 0, writes = 0, reads = 0\<rparr>"

lemma cache0_ok: "cache_ok cache0 [1, 2] (\<lambda>_. [])" "coherent ram_block cache0 [1, 2]"
  by (simp_all add: cache_ok_def ring_def hash_ok_def coherent_def buf_coherent_def cache0_def buf0_def has_flag_def)

lemma ram_sector: "unat (blockno :: u64) * 4096 < 2 ^ 64 \<Longrightarrow> blockno * 4096 div 4096 = blockno"
proof -
  assume a: "unat blockno * 4096 < 2 ^ 64"
  then have "unat (blockno * 4096) = unat blockno * 4096" by (simp add: unat_word_ariths)
  then have "unat (blockno * 4096 div 4096) = unat blockno" by (simp add: unat_div)
  then show ?thesis by (simp add: word_unat_eq_iff)
qed

lemma cache0_disk: "disk_ok ram_block 0x100 cache0"
proof -
  have "ram_block (w(0x100 := (w 0x100)(n := d))) = (ram_block w)(0x100 := (ram_block w 0x100)(n := d))" if "length d = 4096" for w n d
    using that by (auto simp: ram_block_def fun_eq_iff)
  moreover have "length (ram_block w a n) = 4096" for w a n by (simp add: ram_block_def)
  ultimately show ?thesis
    by (auto simp: disk_ok_def cache0_def in_range_def block_request_def Let_def ram_request_def ram_sector)
qed

text \<open>The same cache after block 3 was read into the first buffer and changed there.\<close>

definition cache1 :: "ram bcache" where
  "cache1 = (upd_buf 1 (\<lambda>x. x\<lparr>b_flags := B_VALID OR B_DIRTY, b_dev := 0x100, b_blockno := 3, b_data := Some (replicate 4096 9)\<rparr>) cache0)
     \<lparr>bhash := (\<lambda>_. 0)(hash_block 0x100 3 := 1)\<rparr>"

lemma cache1_ok: "cache_ok cache1 [1, 2] ((\<lambda>_. [])(hash_block 0x100 3 := [1]))" "coherent ram_block cache1 [1, 2]"
proof -
  show "cache_ok cache1 [1, 2] ((\<lambda>_. [])(hash_block 0x100 3 := [1]))"
    by (auto simp: cache_ok_def ring_def hash_ok_def cache1_def cache0_def buf0_def has_flag_def)
  have "disk_ok ram_block 0x100 cache1" "in_range 0x100 3 cache1"
    using cache0_disk disk_ok_cong [of cache1 cache0 ram_block "0x100"] 
    by (simp_all add: cache1_def in_range_def block_request_def cache0_def)
  then show "coherent ram_block cache1 [1, 2]"
    by (simp add: coherent_def buf_coherent_def) (simp add: cache1_def cache0_def buf0_def has_flag_def)
qed

section \<open>Properties\<close>

text \<open>C29. Reading through the cache is reading the disk as last written: in a well-formed cache that agrees with its disks, \<open>bread\<close> of
  a block within the device returns a locked buffer of that block, cached already or taken by evicting another one. The
  buffer holds the current contents of the block, the cache stays well formed and coherent, and no block of any device
  changes its contents: an evicted dirty block has reached its disk. The hypotheses ask that nobody else holds the buffer of
  this block and that one buffer can be evicted.
\<close>

theorem bread_coherent:
  assumes "cache_ok s L H" "coherent rd s L" "disk_ok rd dev s" "in_range dev bno s"
    "\<forall>p \<in> set L. key s p = (dev, bno) \<longrightarrow> b_refcnt (bufs s p) = 0"
    "\<exists>p \<in> set L. b_refcnt (bufs s p) = 0 \<and> b_pincount (bufs s p) = 0"
  shows "\<exists>b u. bread dev bno s = Inr (b, u) \<and> read_result rd dev bno L s b u"
proof (cases "\<exists>b \<in> set L. key s b = (dev, bno)")
  case True
  then obtain b where b: "b \<in> set L" "key s b = (dev, bno)" by blast
  have dev: "dev \<noteq> 0" using assms(3) by (simp add: disk_ok_def)
  have "b \<noteq> 0" using b(1) cache_okD(8) [OF assms(1)] by metis
  then have "bread dev bno s = bread_hit b s"
    using bcache_lookup_eq(1) [OF assms(1) dev b] dev by (simp add: bread_def)
  moreover have "b_refcnt (bufs s b) = 0" using assms(5) b by blast
  ultimately show ?thesis using bread_hit_ok [OF assms(1,2) b(1)] b(2) dev by auto
next
  case False
  have "find (\<lambda>b. b_refcnt (bufs s b) = 0 \<and> b_pincount (bufs s b) = 0) (rev L) \<noteq> None"
    using assms(6) unfolding find_None_iff by auto
  then obtain v where "find (\<lambda>b. b_refcnt (bufs s b) = 0 \<and> b_pincount (bufs s b) = 0) (rev L) = Some v" by blast
  then show ?thesis using bread_miss_ok [OF assms(1-4)] False by blast
qed

theorem bread_coherent_witness:
  "(\<exists>b u. bread 0x100 3 cache0 = Inr (b, u) \<and> read_result ram_block 0x100 3 [1, 2] cache0 b u) \<and>
   (\<exists>b u. bread 0x100 3 cache1 = Inr (b, u) \<and> read_result ram_block 0x100 3 [1, 2] cache1 b u)"
proof
  show "\<exists>b u. bread 0x100 3 cache0 = Inr (b, u) \<and> read_result ram_block 0x100 3 [1, 2] cache0 b u"
    by (rule bread_coherent [OF cache0_ok cache0_disk]) (simp_all add: in_range_def block_request_def cache0_def buf0_def)
  have "disk_ok ram_block 0x100 cache1" using cache0_disk disk_ok_cong [of cache1 cache0] by (simp add: cache1_def)
  then show "\<exists>b u. bread 0x100 3 cache1 = Inr (b, u) \<and> read_result ram_block 0x100 3 [1, 2] cache1 b u"
    by (rule bread_coherent [OF cache1_ok]) (simp_all add: in_range_def block_request_def cache1_def cache0_def buf0_def)
qed



text \<open>C31. The buffer released last is evicted first: when the only holder releases an unpinned buffer, the next eviction takes
  exactly this buffer, whatever else could be evicted, because \<open>brelse\<close> puts it at the end of the list at which
  \<open>bcache_evict\<close> starts. The comments of the cache promise that the least recently used buffer goes.
\<close>

theorem brelse_evicted_first:
  assumes "cache_ok s L H" "coherent rd s L" "b \<in> set L" "b_refcnt (bufs s b) = 1" "b_pincount (bufs s b) = 0"
  shows "\<exists>u. bcache_evict (brelse b s) = Inr (b, u)"
proof -
  obtain A B where r: "cache_ok (brelse b s) (A @ B @ [b]) H" "coherent rd (brelse b s) (A @ B @ [b])"
    "b_refcnt (bufs (brelse b s) b) = 0" "b_pincount (bufs (brelse b s) b) = 0"
    using brelse_ok [OF assms(1-4)] assms(5) by auto
  have "find (\<lambda>x. b_refcnt (bufs (brelse b s) x) = 0 \<and> b_pincount (bufs (brelse b s) x) = 0) (rev (A @ B @ [b])) = Some b"
    using r(3,4) by simp
  then show ?thesis using evict_ok [OF r(1,2)] by blast
qed

theorem brelse_evicted_first_witness:
  "\<exists>u. bcache_evict (brelse 1 (upd_buf 1 (\<lambda>x. x\<lparr>b_refcnt := 1\<rparr>) cache1)) = Inr (1, u)"
proof -
  let ?s = "upd_buf 1 (\<lambda>x. x\<lparr>b_refcnt := 1\<rparr>) cache1"
  have "cache_ok ?s [1, 2] ((\<lambda>_. [])(hash_block 0x100 3 := [1]))"
    by (rule cache_ok_cong [OF cache1_ok(1)]) (auto simp: ring_def cache1_def cache0_def buf0_def has_flag_def)
  moreover have "coherent ram_block ?s [1, 2]"
    using cache1_ok(2) buf_coherent_cong [of ?s cache1 _ ram_block] by (simp add: coherent_def has_flag_def)
  ultimately show ?thesis by (rule brelse_evicted_first) (simp_all add: cache1_def cache0_def buf0_def)
qed

end
