(* ===== verification/Pmm.thy ===== *)
theory Pmm
  imports Kernel_Prelude
begin

text \<open>
  The physical page allocator, \<^verbatim>\<open>src/src/kernel/mm/pmm.c\<close> and the macros of
  \<^verbatim>\<open>src/src/include/mm/pmm.h\<close>.

  Memory is a store of 64-bit words indexed by the kernel virtual address of the direct map
  (\<^verbatim>\<open>PHYS_TO_VIRT\<close>); a free frame keeps the pointer to the next free frame in its first word, as
  \<^verbatim>\<open>page_frame_t\<close> does.  The three zones are a list indexed by the zone number.  Each operation
  runs with its zone lock held, so an operation is one state transformer.  Console output is not
  modelled.  The state record is extensible: later components add their own fields to it and
  keep sharing the same memory.
\<close>

section \<open>Data\<close>

abbreviation (input) PAGE_SIZE :: u64 where "PAGE_SIZE \<equiv> 4096"
abbreviation (input) PMM_ZONE_DMA :: int where "PMM_ZONE_DMA \<equiv> 0"
abbreviation (input) PMM_ZONE_DMA32 :: int where "PMM_ZONE_DMA32 \<equiv> 1"
abbreviation (input) PMM_ZONE_NORMAL :: int where "PMM_ZONE_NORMAL \<equiv> 2"
abbreviation (input) PMM_ZONE_COUNT :: int where "PMM_ZONE_COUNT \<equiv> 3"
abbreviation (input) PMM_DMA_LIMIT :: u64 where "PMM_DMA_LIMIT \<equiv> 0x1000000"
abbreviation (input) PMM_DMA32_LIMIT :: u64 where "PMM_DMA32_LIMIT \<equiv> 0x100000000"
abbreviation (input) PMM_ALLOC_ZERO :: u32 where "PMM_ALLOC_ZERO \<equiv> 1"
abbreviation (input) PMM_ALLOC_DMA :: u32 where "PMM_ALLOC_DMA \<equiv> 2"
abbreviation (input) PMM_ALLOC_DMA32 :: u32 where "PMM_ALLOC_DMA32 \<equiv> 4"
abbreviation (input) LIMINE_MEMMAP_USABLE :: u64 where "LIMINE_MEMMAP_USABLE \<equiv> 0"

record pmm_watermarks =
  wm_min :: u64
  wm_low :: u64
  wm_high :: u64

record pmm_zone_stats =
  alloc_count :: u64
  free_count :: u64
  alloc_failed :: u64

record pmm_zone =
  z_name :: string
  start_addr :: u64
  end_addr :: u64
  total_pages :: u64
  free_pages :: u64
  free_stack :: u64
  watermark_min :: u64
  watermark_low :: u64
  watermark_high :: u64
  z_stats :: pmm_zone_stats

record pmm =
  mem :: "u64 \<Rightarrow> u64"
  hhdm_offset :: u64
  zones :: "pmm_zone list"
  total_memory_bytes :: u64
  usable_memory_bytes :: u64

record limine_memmap_entry =
  e_base :: u64
  e_length :: u64
  e_type :: u64

definition PHYS_TO_VIRT :: "'a pmm_scheme \<Rightarrow> u64 \<Rightarrow> u64" where
  "PHYS_TO_VIRT s addr = addr + hhdm_offset s"

definition VIRT_TO_PHYS :: "'a pmm_scheme \<Rightarrow> u64 \<Rightarrow> u64" where
  "VIRT_TO_PHYS s addr = addr - hhdm_offset s"

definition PAGE_ALIGN_UP :: "u64 \<Rightarrow> u64" where
  "PAGE_ALIGN_UP addr = (addr + PAGE_SIZE - 1) AND NOT (PAGE_SIZE - 1)"

definition PAGE_ALIGN_DOWN :: "u64 \<Rightarrow> u64" where
  "PAGE_ALIGN_DOWN addr = addr AND NOT (PAGE_SIZE - 1)"

definition IS_PAGE_ALIGNED :: "u64 \<Rightarrow> bool" where
  "IS_PAGE_ALIGNED addr \<longleftrightarrow> addr AND (PAGE_SIZE - 1) = 0"

definition zone_upd :: "nat \<Rightarrow> (pmm_zone \<Rightarrow> pmm_zone) \<Rightarrow> 'a pmm_scheme \<Rightarrow> 'a pmm_scheme" where
  "zone_upd i f s = s\<lparr>zones := (zones s)[i := f (zones s ! i)]\<rparr>"

definition memset_page :: "(u64 \<Rightarrow> u64) \<Rightarrow> u64 \<Rightarrow> u64 \<Rightarrow> u64" where
  "memset_page m p = (\<lambda>x. if x - p < PAGE_SIZE then 0 else m x)"

section \<open>Operations\<close>

definition pmm_addr_to_zone :: "u64 \<Rightarrow> nat" where
  "pmm_addr_to_zone addr =
     (if addr < PMM_DMA_LIMIT then 0
      else if addr < PMM_DMA32_LIMIT then 1
      else 2)"

definition pmm_calculate_watermarks :: "pmm_zone \<Rightarrow> pmm_zone" where
  "pmm_calculate_watermarks zone =
     (let wmin = total_pages zone div 128;
          wmin = (if wmin < 128 then 128 else wmin);
          wmin = (if wmin > 1024 then 1024 else wmin)
      in zone\<lparr>watermark_min := wmin, watermark_low := wmin * 2, watermark_high := wmin * 3\<rparr>)"

definition pmm_add_page_to_zone :: "nat \<Rightarrow> u64 \<Rightarrow> 'a pmm_scheme \<Rightarrow> 'a pmm_scheme" where
  "pmm_add_page_to_zone i phys_addr s =
     (let frame = PHYS_TO_VIRT s phys_addr;
          s = s\<lparr>mem := (mem s)(frame := free_stack (zones s ! i))\<rparr>
      in zone_upd i (\<lambda>z. z\<lparr>free_stack := frame,
                            total_pages := total_pages z + 1,
                            free_pages := free_pages z + 1\<rparr>) s)"

definition pmm_add_region :: "u64 \<Rightarrow> u64 \<Rightarrow> 'a pmm_scheme \<Rightarrow> 'a pmm_scheme" where
  "pmm_add_region base len s =
     (let aligned_base = PAGE_ALIGN_UP base;
          lost = aligned_base - base
      in if lost \<ge> len then s
         else let len = PAGE_ALIGN_DOWN (len - lost)
              in if len = 0 then s
                 else let num_pages = len div PAGE_SIZE
                      in fold (\<lambda>i s. let phys_addr = aligned_base + of_nat i * PAGE_SIZE
                                     in pmm_add_page_to_zone (pmm_addr_to_zone phys_addr) phys_addr s)
                              [0..<unat num_pages] s)"

definition pmm_zone_reset :: "string \<Rightarrow> u64 \<Rightarrow> u64 \<Rightarrow> pmm_zone \<Rightarrow> pmm_zone" where
  "pmm_zone_reset nm a b z =
     z\<lparr>z_name := nm, start_addr := a, end_addr := b, total_pages := 0, free_pages := 0,
       free_stack := 0\<rparr>"

definition pmm_init_entry :: "limine_memmap_entry \<Rightarrow> 'a pmm_scheme \<Rightarrow> 'a pmm_scheme" where
  "pmm_init_entry e s =
     (let s = s\<lparr>total_memory_bytes := total_memory_bytes s + e_length e\<rparr>
      in if e_type e = LIMINE_MEMMAP_USABLE
         then pmm_add_region (e_base e) (e_length e)
                (s\<lparr>usable_memory_bytes := usable_memory_bytes s + e_length e\<rparr>)
         else s)"

definition pmm_init ::
  "u64 option \<Rightarrow> limine_memmap_entry list option \<Rightarrow> 'a pmm_scheme \<Rightarrow> 'a pmm_scheme result" where
  "pmm_init hhdm_response memmap_response s =
     (case hhdm_response of
        None \<Rightarrow> Inl Panic
      | Some offset \<Rightarrow>
          let s = s\<lparr>hhdm_offset := offset\<rparr>;
              s = zone_upd 0 (pmm_zone_reset ''DMA'' 0 PMM_DMA_LIMIT) s;
              s = zone_upd 1 (pmm_zone_reset ''DMA32'' PMM_DMA_LIMIT PMM_DMA32_LIMIT) s;
              s = zone_upd 2 (pmm_zone_reset ''normal'' PMM_DMA32_LIMIT (- 1)) s
          in case memmap_response of
               None \<Rightarrow> Inl Panic
             | Some entries \<Rightarrow>
                 let s = fold pmm_init_entry entries s
                 in Inr (fold (\<lambda>i. zone_upd i pmm_calculate_watermarks) [0..<3] s))"

definition pmm_alloc_page_zone :: "int \<Rightarrow> 'a pmm_scheme \<Rightarrow> u64 \<times> 'a pmm_scheme" where
  "pmm_alloc_page_zone zone_idx s =
     (if zone_idx < 0 \<or> zone_idx \<ge> PMM_ZONE_COUNT then (0, s)
      else
        let i = nat zone_idx; zone = zones s ! i
        in if free_stack zone = 0
           then (0, zone_upd i (\<lambda>z. z\<lparr>z_stats := (z_stats z)\<lparr>alloc_failed := alloc_failed (z_stats z) + 1\<rparr>\<rparr>) s)
           else
             let frame = free_stack zone;
                 s = zone_upd i (\<lambda>z. z\<lparr>free_stack := mem s frame,
                                       free_pages := free_pages z - 1,
                                       z_stats := (z_stats z)\<lparr>alloc_count := alloc_count (z_stats z) + 1\<rparr>\<rparr>) s;
                 phys_addr = VIRT_TO_PHYS s frame
             in (phys_addr, s\<lparr>mem := memset_page (mem s) frame\<rparr>))"

definition pmm_alloc_page :: "'a pmm_scheme \<Rightarrow> u64 \<times> 'a pmm_scheme" where
  "pmm_alloc_page s =
     (let (addr, s) = pmm_alloc_page_zone PMM_ZONE_NORMAL s
      in if addr \<noteq> 0 then (addr, s)
         else let (addr, s) = pmm_alloc_page_zone PMM_ZONE_DMA32 s
              in if addr \<noteq> 0 then (addr, s)
                 else let (addr, s) = pmm_alloc_page_zone PMM_ZONE_DMA s
                      in if addr \<noteq> 0 then (addr, s) else (0, s))"

definition pmm_free_page :: "u64 \<Rightarrow> 'a pmm_scheme \<Rightarrow> 'a pmm_scheme" where
  "pmm_free_page phys_addr s =
     (if phys_addr = 0 then s
      else if \<not> IS_PAGE_ALIGNED phys_addr then s
      else
        let i = pmm_addr_to_zone phys_addr;
            frame = PHYS_TO_VIRT s phys_addr;
            s = s\<lparr>mem := (mem s)(frame := free_stack (zones s ! i))\<rparr>
        in zone_upd i (\<lambda>z. z\<lparr>free_stack := frame,
                              free_pages := free_pages z + 1,
                              z_stats := (z_stats z)\<lparr>free_count := free_count (z_stats z) + 1\<rparr>\<rparr>) s)"

definition pmm_alloc_page_flags :: "u32 \<Rightarrow> 'a pmm_scheme \<Rightarrow> u64 \<times> 'a pmm_scheme" where
  "pmm_alloc_page_flags flags s =
     (let (addr, s) =
            (if flags AND PMM_ALLOC_DMA \<noteq> 0 then pmm_alloc_page_zone PMM_ZONE_DMA s
             else if flags AND PMM_ALLOC_DMA32 \<noteq> 0 then
               let (addr, s) = pmm_alloc_page_zone PMM_ZONE_DMA32 s
               in if addr = 0 then pmm_alloc_page_zone PMM_ZONE_DMA s else (addr, s)
             else pmm_alloc_page s)
      in if addr = 0 then (0, s)
         else if flags AND PMM_ALLOC_ZERO \<noteq> 0
              then (addr, s\<lparr>mem := memset_page (mem s) (PHYS_TO_VIRT s addr)\<rparr>)
              else (addr, s))"

text \<open>
  Contiguous allocation.  The inner \<^verbatim>\<open>for\<close> loop that compares addresses, the loop that unlinks the
  run, and the outer \<^verbatim>\<open>while\<close> over the free stack, which follows pointers and so need not stop:
  its result is \<open>None\<close> if it does not.
\<close>

fun run_is_contiguous :: "'a pmm_scheme \<Rightarrow> u64 \<Rightarrow> nat \<Rightarrow> nat \<Rightarrow> u64 \<Rightarrow> bool" where
  "run_is_contiguous s start i 0 check = True"
| "run_is_contiguous s start i (Suc n) check =
     (if check = 0 then True
      else if VIRT_TO_PHYS s check \<noteq> start + of_nat i * PAGE_SIZE then False
      else run_is_contiguous s start (Suc i) n (mem s check))"

fun unlink_run ::
  "nat \<Rightarrow> nat \<Rightarrow> u64 \<Rightarrow> u64 \<Rightarrow> 'a pmm_scheme \<Rightarrow> 'a pmm_scheme result" where
  "unlink_run z 0 prev to_remove s = Inr s"
| "unlink_run z (Suc n) prev to_remove s =
     (if to_remove = 0 then Inl Null_Deref
      else
        let nxt = mem s to_remove;
            s = (if prev = 0 then zone_upd z (\<lambda>z. z\<lparr>free_stack := nxt\<rparr>) s
                 else s\<lparr>mem := (mem s)(prev := nxt)\<rparr>);
            s = zone_upd z (\<lambda>z. z\<lparr>free_pages := free_pages z - 1\<rparr>) s
        in unlink_run z n prev nxt s)"

partial_function (option) pmm_find_run ::
  "nat \<Rightarrow> u64 \<Rightarrow> u64 \<Rightarrow> u64 \<Rightarrow> 'a pmm_scheme \<Rightarrow> (u64 \<times> 'a pmm_scheme) result option" where
  "pmm_find_run z count prev current s =
     (if current = 0
      then Some (Inr (0, zone_upd z (\<lambda>z. z\<lparr>z_stats := (z_stats z)\<lparr>alloc_failed := alloc_failed (z_stats z) + 1\<rparr>\<rparr>) s))
      else
        let start = VIRT_TO_PHYS s current
        in if run_is_contiguous s start 0 (unat count) current
           then Some (rbind (unlink_run z (unat count) prev current s)
                  (\<lambda>s. let s = zone_upd z (\<lambda>z. z\<lparr>z_stats := (z_stats z)\<lparr>alloc_count := alloc_count (z_stats z) + count\<rparr>\<rparr>) s
                       in Inr (start, fold (\<lambda>i s. s\<lparr>mem := memset_page (mem s)
                                  (PHYS_TO_VIRT s (start + of_nat i * PAGE_SIZE))\<rparr>) [0..<unat count] s)))
           else pmm_find_run z count current (mem s current) s)"

definition pmm_alloc_pages :: "u64 \<Rightarrow> int \<Rightarrow> 'a pmm_scheme \<Rightarrow> (u64 \<times> 'a pmm_scheme) result option" where
  "pmm_alloc_pages count zone_idx s =
     (if count = 0 then Some (Inr (0, s))
      else if count = 1 then Some (Inr (pmm_alloc_page_zone zone_idx s))
      else if zone_idx < 0 \<or> zone_idx \<ge> PMM_ZONE_COUNT then Some (Inr (0, s))
      else
        let i = nat zone_idx; zone = zones s ! i
        in if free_pages zone < count
           then Some (Inr (0, zone_upd i (\<lambda>z. z\<lparr>z_stats := (z_stats z)\<lparr>alloc_failed := alloc_failed (z_stats z) + 1\<rparr>\<rparr>) s))
           else pmm_find_run i count 0 (free_stack zone) s)"

definition pmm_free_pages :: "u64 \<Rightarrow> u64 \<Rightarrow> 'a pmm_scheme \<Rightarrow> 'a pmm_scheme" where
  "pmm_free_pages phys_addr count s =
     fold (\<lambda>i. pmm_free_page (phys_addr + of_nat i * PAGE_SIZE)) [0..<unat count] s"

text \<open>Queries.  An out-parameter is the struct it points to, \<open>None\<close> when the pointer is NULL.\<close>

definition pmm_get_watermarks ::
  "'a pmm_scheme \<Rightarrow> int \<Rightarrow> pmm_watermarks option \<Rightarrow> pmm_watermarks option" where
  "pmm_get_watermarks s zone wm =
     (if zone < 0 \<or> zone \<ge> PMM_ZONE_COUNT \<or> wm = None then wm
      else let z = zones s ! nat zone
           in Some \<lparr>wm_min = watermark_min z, wm_low = watermark_low z, wm_high = watermark_high z\<rparr>)"

definition pmm_is_low_memory :: "'a pmm_scheme \<Rightarrow> int \<Rightarrow> bool" where
  "pmm_is_low_memory s zone =
     (if zone < 0 \<or> zone \<ge> PMM_ZONE_COUNT then True
      else free_pages (zones s ! nat zone) < watermark_low (zones s ! nat zone))"

definition pmm_get_stats ::
  "'a pmm_scheme \<Rightarrow> int \<Rightarrow> pmm_zone_stats option \<Rightarrow> pmm_zone_stats option" where
  "pmm_get_stats s zone stats =
     (if zone < 0 \<or> zone \<ge> PMM_ZONE_COUNT \<or> stats = None then stats
      else Some (z_stats (zones s ! nat zone)))"

definition pmm_get_total_pages :: "'a pmm_scheme \<Rightarrow> u64" where
  "pmm_get_total_pages s = fold (\<lambda>i total. total + total_pages (zones s ! i)) [0..<3] 0"

definition pmm_get_free_pages :: "'a pmm_scheme \<Rightarrow> u64" where
  "pmm_get_free_pages s = fold (\<lambda>i total. total + free_pages (zones s ! i)) [0..<3] 0"

definition pmm_get_used_pages :: "'a pmm_scheme \<Rightarrow> u64" where
  "pmm_get_used_pages s = pmm_get_total_pages s - pmm_get_free_pages s"

definition pmm_get_zone_free_pages :: "'a pmm_scheme \<Rightarrow> int \<Rightarrow> u64" where
  "pmm_get_zone_free_pages s zone =
     (if zone < 0 \<or> zone \<ge> PMM_ZONE_COUNT then 0 else free_pages (zones s ! nat zone))"

definition pmm_get_zone_total_pages :: "'a pmm_scheme \<Rightarrow> int \<Rightarrow> u64" where
  "pmm_get_zone_total_pages s zone =
     (if zone < 0 \<or> zone \<ge> PMM_ZONE_COUNT then 0 else total_pages (zones s ! nat zone))"

section \<open>Pages\<close>

lemma IS_PAGE_ALIGNED_mask: "IS_PAGE_ALIGNED a \<longleftrightarrow> a AND mask 12 = 0"
  by (simp add: IS_PAGE_ALIGNED_def mask_12)

lemma IS_PAGE_ALIGNED_iff: "IS_PAGE_ALIGNED a \<longleftrightarrow> 2 ^ 12 dvd unat a"
  by (simp only: IS_PAGE_ALIGNED_mask and_mask_eq_0_iff)

lemma page_aligned_diff: "IS_PAGE_ALIGNED a \<Longrightarrow> IS_PAGE_ALIGNED b \<Longrightarrow> IS_PAGE_ALIGNED (a - b)"
  unfolding IS_PAGE_ALIGNED_iff by (rule dvd_unat_diff) auto

lemma page_aligned_add: "IS_PAGE_ALIGNED a \<Longrightarrow> IS_PAGE_ALIGNED b \<Longrightarrow> IS_PAGE_ALIGNED (a + b)"
  unfolding IS_PAGE_ALIGNED_iff by (rule dvd_unat_add) auto

lemma aligned_below_page: "IS_PAGE_ALIGNED a \<Longrightarrow> a < PAGE_SIZE \<Longrightarrow> a = 0"
  unfolding IS_PAGE_ALIGNED_iff by (auto simp: word_less_nat_alt unat_eq_zero[symmetric] dest: dvd_imp_le)

lemma aligned_in_page:
  "IS_PAGE_ALIGNED p \<Longrightarrow> IS_PAGE_ALIGNED q \<Longrightarrow> q - p < PAGE_SIZE \<Longrightarrow> q = p"
  by (drule (1) page_aligned_diff [rotated]) (auto dest: aligned_below_page)

lemma PAGE_ALIGN_DOWN_unat: "unat (PAGE_ALIGN_DOWN a) = unat a - unat a mod 4096"
  using unat_and_not_mask [of a 12] by (simp add: PAGE_ALIGN_DOWN_def mask_12)

lemma PAGE_ALIGN_DOWN_aligned: "IS_PAGE_ALIGNED (PAGE_ALIGN_DOWN a)"
  by (simp add: IS_PAGE_ALIGNED_iff PAGE_ALIGN_DOWN_unat dvd_minus_mod)

lemma PAGE_ALIGN_UP_aligned: "IS_PAGE_ALIGNED (PAGE_ALIGN_UP a)"
  using PAGE_ALIGN_DOWN_aligned [of "a + PAGE_SIZE - 1"]
  by (simp add: PAGE_ALIGN_UP_def PAGE_ALIGN_DOWN_def)

lemma PAGE_ALIGN_UP_unat:
  "unat a + 4095 < 2 ^ 64 \<Longrightarrow> unat (PAGE_ALIGN_UP a) = (unat a + 4095) div 4096 * 4096"
proof -
  assume a: "unat a + 4095 < 2 ^ 64"
  have "PAGE_ALIGN_UP a = PAGE_ALIGN_DOWN (a + 4095)"
    by (simp add: PAGE_ALIGN_UP_def PAGE_ALIGN_DOWN_def algebra_simps)
  moreover have "unat (a + 4095) = unat a + 4095"
    using a by (subst unat_add_lem [THEN iffD1]) auto
  ultimately show ?thesis
    by (simp add: PAGE_ALIGN_DOWN_unat minus_mod_eq_div_mult)
qed

lemma page_multiple_aligned: "IS_PAGE_ALIGNED (of_nat i * PAGE_SIZE)"
proof -
  have "of_nat i * PAGE_SIZE = push_bit 12 (of_nat i)" by (simp add: push_bit_eq_mult)
  moreover have "push_bit 12 (of_nat i) AND mask 12 = (0 :: u64)"
    by (rule bit_eqI) (auto simp: bit_simps)
  ultimately show ?thesis by (simp add: IS_PAGE_ALIGNED_mask)
qed

section \<open>The free lists\<close>

text \<open>
  The invariant of the allocator relative to the free pages \<open>F i\<close> of each zone, in stack order:
  each zone's stack is a linked list through exactly these frames, its counter agrees, and every
  free page is aligned and belongs to its zone.
\<close>

definition zone_inv :: "'a pmm_scheme \<Rightarrow> nat \<Rightarrow> u64 list \<Rightarrow> bool" where
  "zone_inv s i xs \<longleftrightarrow>
     chain (mem s) (free_stack (zones s ! i)) (map (PHYS_TO_VIRT s) xs) \<and>
     unat (free_pages (zones s ! i)) = length xs \<and>
     (\<forall>p \<in> set xs. IS_PAGE_ALIGNED p \<and> pmm_addr_to_zone p = i)"

definition pmm_inv :: "'a pmm_scheme \<Rightarrow> (nat \<Rightarrow> u64 list) \<Rightarrow> bool" where
  "pmm_inv s F \<longleftrightarrow>
     length (zones s) = 3 \<and> IS_PAGE_ALIGNED (hhdm_offset s) \<and> (\<forall>i < 3. zone_inv s i (F i))"

lemma pmm_addr_to_zone_less: "pmm_addr_to_zone a < 3"
  by (simp add: pmm_addr_to_zone_def)

lemma PHYS_VIRT [simp]: "VIRT_TO_PHYS s (PHYS_TO_VIRT s a) = a" "PHYS_TO_VIRT s (VIRT_TO_PHYS s a) = a"
  by (simp_all add: PHYS_TO_VIRT_def VIRT_TO_PHYS_def)

lemma PHYS_TO_VIRT_inj [simp]: "PHYS_TO_VIRT s a = PHYS_TO_VIRT s b \<longleftrightarrow> a = b"
  by (simp add: PHYS_TO_VIRT_def)

lemma PHYS_TO_VIRT_cong: "hhdm_offset s = hhdm_offset t \<Longrightarrow> PHYS_TO_VIRT s = PHYS_TO_VIRT t"
  by (simp add: PHYS_TO_VIRT_def fun_eq_iff)

lemma zone_upd_simps [simp]:
  "mem (zone_upd i f s) = mem s"
  "hhdm_offset (zone_upd i f s) = hhdm_offset s"
  "length (zones (zone_upd i f s)) = length (zones s)"
  "PHYS_TO_VIRT (zone_upd i f s) = PHYS_TO_VIRT s"
  "VIRT_TO_PHYS (zone_upd i f s) = VIRT_TO_PHYS s"
  "PHYS_TO_VIRT (s\<lparr>mem := m\<rparr>) = PHYS_TO_VIRT s"
  "VIRT_TO_PHYS (s\<lparr>mem := m\<rparr>) = VIRT_TO_PHYS s"
  "pmm.more (zone_upd i f s) = pmm.more s"
  by (simp_all add: zone_upd_def PHYS_TO_VIRT_def VIRT_TO_PHYS_def fun_eq_iff)

lemma zones_zone_upd:
  "j < length (zones s) \<Longrightarrow> zones (zone_upd i f s) ! j = (if i = j then f (zones s ! i) else zones s ! j)"
  by (auto simp: zone_upd_def nth_list_update)

lemma zone_inv_distinct: "zone_inv s i xs \<Longrightarrow> distinct xs"
  by (auto simp: zone_inv_def distinct_map dest: chain_distinct)

lemma zone_inv_unique: "zone_inv s i xs \<Longrightarrow> zone_inv s i ys \<Longrightarrow> xs = ys"
  unfolding zone_inv_def
  by (metis (no_types, lifting) PHYS_TO_VIRT_inj chain_unique inj_onI inj_map_eq_map injI)

lemma pmm_inv_unique: "pmm_inv s F \<Longrightarrow> pmm_inv s G \<Longrightarrow> i < 3 \<Longrightarrow> F i = G i"
  unfolding pmm_inv_def using zone_inv_unique by blast

lemma zone_inv_disjoint:
  "zone_inv s i xs \<Longrightarrow> zone_inv s j ys \<Longrightarrow> p \<in> set xs \<Longrightarrow> p \<in> set ys \<Longrightarrow> i = j"
  by (auto simp: zone_inv_def)

text \<open>What keeps the free list of a zone: memory may change wherever no free frame begins.\<close>

lemma zone_inv_frame:
  assumes "zone_inv s i xs"
    and "\<And>p. p \<in> set xs \<Longrightarrow> mem t (PHYS_TO_VIRT s p) = mem s (PHYS_TO_VIRT s p)"
    and "hhdm_offset t = hhdm_offset s"
    and "free_stack (zones t ! i) = free_stack (zones s ! i)"
    and "free_pages (zones t ! i) = free_pages (zones s ! i)"
  shows "zone_inv t i xs"
proof -
  have "chain (mem t) (free_stack (zones t ! i)) (map (PHYS_TO_VIRT s) xs)"
    using assms by (subst chain_cong [where nxt' = "mem s"]) (auto simp: zone_inv_def)
  then show ?thesis
    using assms PHYS_TO_VIRT_cong [OF assms(3)] by (simp add: zone_inv_def)
qed

lemma aligned_list_length:
  assumes "distinct xs" and "\<forall>p \<in> set xs. IS_PAGE_ALIGNED p"
  shows "length xs < 2 ^ 64"
proof -
  have "1 \<notin> set xs" using assms(2) by (auto simp: IS_PAGE_ALIGNED_def)
  then have "set xs \<subset> (UNIV :: u64 set)" by blast
  then have "card (set xs) < card (UNIV :: u64 set)" by (intro psubset_card_mono) auto
  then show ?thesis using assms(1) by (simp add: distinct_card card_word)
qed

lemma zone_inv_push:
  assumes inv: "zone_inv s i xs" and p: "IS_PAGE_ALIGNED p" "pmm_addr_to_zone p = i"
    and new: "p \<notin> set xs" and nn: "PHYS_TO_VIRT s p \<noteq> 0"
    and t: "mem t = (mem s)(PHYS_TO_VIRT s p := free_stack (zones s ! i))"
      "hhdm_offset t = hhdm_offset s"
      "free_stack (zones t ! i) = PHYS_TO_VIRT s p"
      "free_pages (zones t ! i) = free_pages (zones s ! i) + 1"
  shows "zone_inv t i (p # xs)"
proof -
  have "\<forall>q \<in> set (p # xs). IS_PAGE_ALIGNED q" "distinct (p # xs)"
    using inv p new zone_inv_distinct [OF inv] by (auto simp: zone_inv_def)
  then have "length (p # xs) < 2 ^ 64" using aligned_list_length by blast
  then have "unat (free_pages (zones s ! i) + 1) = Suc (length xs)"
    using inv by (subst unat_add_lem [THEN iffD1]) (auto simp: zone_inv_def)
  moreover have "PHYS_TO_VIRT s p \<notin> set (map (PHYS_TO_VIRT s) xs)" using new by auto
  ultimately show ?thesis
    using assms PHYS_TO_VIRT_cong [OF t(2)] by (auto simp: zone_inv_def)
qed

lemma memset_page_other:
  "IS_PAGE_ALIGNED p \<Longrightarrow> IS_PAGE_ALIGNED q \<Longrightarrow> p \<noteq> q \<Longrightarrow> memset_page m p q = m q"
  by (auto simp: memset_page_def dest: aligned_in_page)

lemma memset_page_outside: "\<not> x - p < PAGE_SIZE \<Longrightarrow> memset_page m p x = m x"
  by (simp add: memset_page_def)

lemma PHYS_TO_VIRT_aligned:
  "IS_PAGE_ALIGNED (hhdm_offset s) \<Longrightarrow> IS_PAGE_ALIGNED p \<Longrightarrow> IS_PAGE_ALIGNED (PHYS_TO_VIRT s p)"
  by (simp add: PHYS_TO_VIRT_def page_aligned_add)

section \<open>Allocation and release refine push and pop on the free lists\<close>

lemma pmm_alloc_page_zone_empty:
  assumes "pmm_inv s F" and "0 \<le> z" "z < 3" and "F (nat z) = []" and "pmm_alloc_page_zone z s = (p, t)"
  shows "p = 0 \<and> pmm_inv t F \<and> mem t = mem s \<and> hhdm_offset t = hhdm_offset s \<and> pmm.more t = pmm.more s"
proof -
  let ?i = "nat z"
  have i: "?i < 3" using assms by auto
  have fs: "free_stack (zones s ! ?i) = 0" using assms i by (auto simp: pmm_inv_def zone_inv_def)
  have t: "p = 0" "t = zone_upd ?i (\<lambda>z. z\<lparr>z_stats := (z_stats z)\<lparr>alloc_failed := alloc_failed (z_stats z) + 1\<rparr>\<rparr>) s"
    using assms fs by (auto simp: pmm_alloc_page_zone_def)
  have "zone_inv t j (F j)" if "j < 3" for j
    using assms(1) that by (intro zone_inv_frame [of s j "F j" t]) (auto simp: t pmm_inv_def zones_zone_upd)
  then show ?thesis using assms t by (auto simp: pmm_inv_def)
qed

lemma pmm_alloc_page_zone_pop:
  assumes inv: "pmm_inv s F" and z: "0 \<le> z" "z < 3" and F: "F (nat z) = q # qs"
    and al: "pmm_alloc_page_zone z s = (p, t)"
  shows "p = q \<and> pmm_inv t (F(nat z := qs)) \<and> mem t = memset_page (mem s) (PHYS_TO_VIRT s q) \<and>
         hhdm_offset t = hhdm_offset s \<and> pmm.more t = pmm.more s"
proof -
  let ?i = "nat z"
  have i: "?i < 3" using z by auto
  then have zi: "zone_inv s ?i (q # qs)" and len: "length (zones s) = 3"
    and hh: "IS_PAGE_ALIGNED (hhdm_offset s)"
    using inv F by (auto simp: pmm_inv_def)
  then have fs: "free_stack (zones s ! ?i) = PHYS_TO_VIRT s q" "PHYS_TO_VIRT s q \<noteq> 0"
    by (auto simp: zone_inv_def)
  let ?upd = "\<lambda>z. z\<lparr>free_stack := mem s (PHYS_TO_VIRT s q), free_pages := free_pages z - 1,
                 z_stats := (z_stats z)\<lparr>alloc_count := alloc_count (z_stats z) + 1\<rparr>\<rparr>"
  have t: "p = q" "t = (zone_upd ?i ?upd s)\<lparr>mem := memset_page (mem s) (PHYS_TO_VIRT s q)\<rparr>"
    using al z fs by (auto simp: pmm_alloc_page_zone_def Let_def)
  have q: "IS_PAGE_ALIGNED (PHYS_TO_VIRT s q)"
    using zi hh by (auto simp: zone_inv_def intro: PHYS_TO_VIRT_aligned)
  have keep: "memset_page (mem s) (PHYS_TO_VIRT s q) (PHYS_TO_VIRT s x) = mem s (PHYS_TO_VIRT s x)"
    if "IS_PAGE_ALIGNED x" "x \<noteq> q" for x
    using that q hh by (intro memset_page_other) (auto intro: PHYS_TO_VIRT_aligned)
  have tz: "zones t ! ?i = ?upd (zones s ! ?i)" "\<And>j. j < 3 \<Longrightarrow> j \<noteq> ?i \<Longrightarrow> zones t ! j = zones s ! j"
    "mem t = memset_page (mem s) (PHYS_TO_VIRT s q)" "hhdm_offset t = hhdm_offset s"
    using len i by (auto simp: t zones_zone_upd)
  have "zone_inv t j ((F(?i := qs)) j)" if j: "j < 3" for j
  proof (cases "j = ?i")
    case True
    have "q \<notin> set qs" using zone_inv_distinct [OF zi] by simp
    then have "chain (mem t) (mem s (PHYS_TO_VIRT s q)) (map (PHYS_TO_VIRT s) qs)"
      using zi keep by (subst chain_cong [where nxt' = "mem s"]) (auto simp: zone_inv_def tz)
    moreover have "unat (free_pages (zones s ! ?i) - 1) = length qs"
      using zi by (subst unat_sub) (auto simp: zone_inv_def word_le_nat_alt)
    ultimately show ?thesis
      using zi True PHYS_TO_VIRT_cong [OF tz(4)] by (simp add: zone_inv_def tz)
  next
    case False
    have zj: "zone_inv s j (F j)" using inv j by (simp add: pmm_inv_def)
    have "mem t (PHYS_TO_VIRT s x) = mem s (PHYS_TO_VIRT s x)" if "x \<in> set (F j)" for x
      using zj zi False that unfolding tz by (intro keep) (auto simp: zone_inv_def)
    then have "zone_inv t j (F j)"
      by (intro zone_inv_frame [OF zj]) (simp_all add: tz False j)
    then show ?thesis using False by simp
  qed
  then show ?thesis using t len hh by (simp add: pmm_inv_def)
qed

lemma pmm_inv_push:
  assumes inv: "pmm_inv s F" and p: "IS_PAGE_ALIGNED p" "PHYS_TO_VIRT s p \<noteq> 0"
    and new: "p \<notin> set (F (pmm_addr_to_zone p))"
    and t: "mem t = (mem s)(PHYS_TO_VIRT s p := free_stack (zones s ! pmm_addr_to_zone p))"
      "hhdm_offset t = hhdm_offset s" "length (zones t) = 3"
      "free_stack (zones t ! pmm_addr_to_zone p) = PHYS_TO_VIRT s p"
      "free_pages (zones t ! pmm_addr_to_zone p) = free_pages (zones s ! pmm_addr_to_zone p) + 1"
      "\<And>j. j < 3 \<Longrightarrow> j \<noteq> pmm_addr_to_zone p \<Longrightarrow> zones t ! j = zones s ! j"
  shows "pmm_inv t (F(pmm_addr_to_zone p := p # F (pmm_addr_to_zone p)))"
proof -
  let ?i = "pmm_addr_to_zone p"
  have i: "?i < 3" by (rule pmm_addr_to_zone_less)
  have "zone_inv t j ((F(?i := p # F ?i)) j)" if j: "j < 3" for j
  proof (cases "j = ?i")
    case True
    have "zone_inv s ?i (F ?i)" using inv i by (simp add: pmm_inv_def)
    then have "zone_inv t ?i (p # F ?i)"
      by (rule zone_inv_push) (simp_all add: p new t)
    then show ?thesis using True by simp
  next
    case False
    have zj: "zone_inv s j (F j)" using inv j by (simp add: pmm_inv_def)
    then have "p \<notin> set (F j)" using False by (auto simp: zone_inv_def)
    then have "zone_inv t j (F j)"
      by (intro zone_inv_frame [OF zj]) (auto simp: t False j)
    then show ?thesis using False by simp
  qed
  then show ?thesis using t inv by (simp add: pmm_inv_def)
qed

lemma pmm_free_page_push:
  assumes inv: "pmm_inv s F" and p: "p \<noteq> 0" "IS_PAGE_ALIGNED p" "PHYS_TO_VIRT s p \<noteq> 0"
    and new: "p \<notin> set (F (pmm_addr_to_zone p))"
  shows "pmm_inv (pmm_free_page p s) (F(pmm_addr_to_zone p := p # F (pmm_addr_to_zone p)))"
  using inv p(2,3) new
  by (rule pmm_inv_push)
    (use inv p pmm_addr_to_zone_less in \<open>simp_all add: pmm_free_page_def Let_def zones_zone_upd pmm_inv_def\<close>)

lemma pmm_add_page_to_zone_push:
  assumes inv: "pmm_inv s F" and p: "IS_PAGE_ALIGNED p" "PHYS_TO_VIRT s p \<noteq> 0"
    and new: "p \<notin> set (F (pmm_addr_to_zone p))"
  shows "pmm_inv (pmm_add_page_to_zone (pmm_addr_to_zone p) p s)
           (F(pmm_addr_to_zone p := p # F (pmm_addr_to_zone p)))"
  using inv p new
  by (rule pmm_inv_push)
    (use inv pmm_addr_to_zone_less in \<open>simp_all add: pmm_add_page_to_zone_def Let_def zones_zone_upd pmm_inv_def\<close>)

lemma pmm_alloc_page_zone_cases:
  assumes inv: "pmm_inv s F" and z: "0 \<le> z" "z < 3" and F0: "0 \<notin> set (F 0)"
    and al: "pmm_alloc_page_zone z s = (p, t)"
  shows "(p = 0 \<and> F (nat z) = [] \<and> pmm_inv t F \<and> mem t = mem s \<and>
            hhdm_offset t = hhdm_offset s \<and> pmm.more t = pmm.more s) \<or>
         (p \<noteq> 0 \<and> (\<exists>qs. F (nat z) = p # qs \<and> pmm_inv t (F(nat z := qs)) \<and>
            mem t = memset_page (mem s) (PHYS_TO_VIRT s p) \<and>
            hhdm_offset t = hhdm_offset s \<and> pmm.more t = pmm.more s))"
proof (cases "F (nat z)")
  case Nil
  then show ?thesis using pmm_alloc_page_zone_empty [OF inv z Nil al] by simp
next
  case (Cons q qs)
  have "zone_inv s (nat z) (F (nat z))" using inv z by (simp add: pmm_inv_def)
  then have "q \<noteq> 0" using Cons F0 by (auto simp: zone_inv_def pmm_addr_to_zone_def)
  then show ?thesis using pmm_alloc_page_zone_pop [OF inv z Cons al] Cons by auto
qed

text \<open>\<open>pmm_alloc_page\<close> takes the top page of the highest zone that has one.\<close>

lemma pmm_alloc_page_spec:
  assumes inv: "pmm_inv s F" and F0: "0 \<notin> set (F 0)" and al: "pmm_alloc_page s = (p, t)"
  shows "(p = 0 \<and> (\<forall>i < 3. F i = []) \<and> pmm_inv t F \<and> mem t = mem s \<and>
            hhdm_offset t = hhdm_offset s \<and> pmm.more t = pmm.more s) \<or>
         (p \<noteq> 0 \<and> (\<exists>i < 3. \<exists>qs. F i = p # qs \<and> (\<forall>j. i < j \<and> j < 3 \<longrightarrow> F j = []) \<and>
            pmm_inv t (F(i := qs)) \<and> mem t = memset_page (mem s) (PHYS_TO_VIRT s p) \<and>
            hhdm_offset t = hhdm_offset s \<and> pmm.more t = pmm.more s))"
proof -
  obtain p2 s2 where a2: "pmm_alloc_page_zone 2 s = (p2, s2)" by fastforce
  obtain p1 s1 where a1: "pmm_alloc_page_zone 1 s2 = (p1, s1)" by fastforce
  obtain p0 s0 where a0: "pmm_alloc_page_zone 0 s1 = (p0, s0)" by fastforce
  have pt: "(p, t) = (if p2 \<noteq> 0 then (p2, s2) else if p1 \<noteq> 0 then (p1, s1)
                      else if p0 \<noteq> 0 then (p0, s0) else (0, s0))"
    using al a2 a1 a0 by (auto simp: pmm_alloc_page_def split: if_splits)
  have less3: "\<And>i. i < 3 \<longleftrightarrow> i = 0 \<or> i = 1 \<or> i = (2::nat)" by auto
  note c2 = pmm_alloc_page_zone_cases [OF inv _ _ F0 a2, simplified]
  show ?thesis
  proof (cases "p2 = 0")
    case False
    then have "p = p2" "t = s2" using pt by auto
    moreover obtain qs where "F 2 = p2 # qs" "pmm_inv s2 (F(2 := qs))"
      "mem s2 = memset_page (mem s) (PHYS_TO_VIRT s p2)" "hhdm_offset s2 = hhdm_offset s"
      "pmm.more s2 = pmm.more s"
      using c2 False by auto
    ultimately show ?thesis
      using False by (intro disjI2 conjI exI [of _ "2 :: nat"] exI [of _ qs]) auto
  next
    case p2: True
    then have i2: "pmm_inv s2 F" and m2: "mem s2 = mem s" "hhdm_offset s2 = hhdm_offset s"
      "pmm.more s2 = pmm.more s" "F 2 = []" using c2 by auto
    note c1 = pmm_alloc_page_zone_cases [OF i2 _ _ F0 a1, simplified]
    show ?thesis
    proof (cases "p1 = 0")
      case False
      then have "p = p1" "t = s1" using pt p2 by auto
      moreover obtain qs where "F 1 = p1 # qs" "pmm_inv s1 (F(1 := qs))"
        "mem s1 = memset_page (mem s) (PHYS_TO_VIRT s p1)" "hhdm_offset s1 = hhdm_offset s"
        "pmm.more s1 = pmm.more s"
        using c1 False m2 PHYS_TO_VIRT_cong [OF m2(2)] by auto
      ultimately show ?thesis
        using False m2 by (intro disjI2 conjI exI [of _ "1 :: nat"] exI [of _ qs]) (auto simp: less3)
    next
      case p1: True
      then have i1: "pmm_inv s1 F" and m1: "mem s1 = mem s" "hhdm_offset s1 = hhdm_offset s"
        "pmm.more s1 = pmm.more s" "F 1 = []" using c1 m2 by auto
      note c0 = pmm_alloc_page_zone_cases [OF i1 _ _ F0 a0, simplified]
      have "p = p0" "t = s0" using pt p2 p1 by (auto split: if_splits)
      with c0 m1 m2 show ?thesis
      proof (elim disjE conjE exE, goal_cases)
        case 1
        then show ?case by (auto simp: less3)
      next
        case (2 qs)
        then show ?case
          using PHYS_TO_VIRT_cong [OF m1(2)]
          by (intro disjI2 conjI exI [of _ "0 :: nat"] exI [of _ qs]) (auto simp: less3)
      qed
    qed
  qed
qed

section \<open>Boot: the free lists are the usable pages\<close>

definition region_pages :: "u64 \<Rightarrow> u64 \<Rightarrow> u64 list" where
  "region_pages base len =
     (let aligned_base = PAGE_ALIGN_UP base; lost = aligned_base - base
      in if lost \<ge> len then []
         else map (\<lambda>i. aligned_base + of_nat i * PAGE_SIZE)
                [0..<unat (PAGE_ALIGN_DOWN (len - lost) div PAGE_SIZE)])"

definition add_free :: "u64 list \<Rightarrow> (nat \<Rightarrow> u64 list) \<Rightarrow> nat \<Rightarrow> u64 list" where
  "add_free ps F i = rev (filter (\<lambda>p. pmm_addr_to_zone p = i) ps) @ F i"

lemma add_free_Nil [simp]: "add_free [] F = F"
  by (simp add: add_free_def fun_eq_iff)

lemma add_free_Cons:
  "add_free (p # ps) F = add_free ps (F(pmm_addr_to_zone p := p # F (pmm_addr_to_zone p)))"
  by (auto simp: add_free_def fun_eq_iff)

lemma add_free_append: "add_free (ps @ qs) F = add_free qs (add_free ps F)"
  by (simp add: add_free_def fun_eq_iff)

lemma fold_add_pages:
  "pmm_inv s F \<Longrightarrow> distinct ps \<Longrightarrow>
   \<forall>p \<in> set ps. IS_PAGE_ALIGNED p \<and> PHYS_TO_VIRT s p \<noteq> 0 \<and> p \<notin> set (F (pmm_addr_to_zone p)) \<Longrightarrow>
   pmm_inv (fold (\<lambda>p. pmm_add_page_to_zone (pmm_addr_to_zone p) p) ps s) (add_free ps F)"
proof (induction ps arbitrary: s F)
  case Nil
  then show ?case by simp
next
  case (Cons p ps)
  let ?s = "pmm_add_page_to_zone (pmm_addr_to_zone p) p s"
  let ?F = "F(pmm_addr_to_zone p := p # F (pmm_addr_to_zone p))"
  have "pmm_inv ?s ?F" using Cons.prems by (intro pmm_add_page_to_zone_push) auto
  moreover have "PHYS_TO_VIRT ?s = PHYS_TO_VIRT s"
    by (simp add: pmm_add_page_to_zone_def Let_def)
  moreover have "\<forall>q \<in> set ps. q \<notin> set (?F (pmm_addr_to_zone q))"
    using Cons.prems by auto
  ultimately have "pmm_inv (fold (\<lambda>p. pmm_add_page_to_zone (pmm_addr_to_zone p) p) ps ?s) (add_free ps ?F)"
    using Cons.prems by (intro Cons.IH [of ?s ?F]) (simp_all del: fun_upd_apply)
  then show ?case by (simp add: add_free_Cons)
qed

lemma pmm_add_region_eq:
  "pmm_add_region base len s =
     fold (\<lambda>p. pmm_add_page_to_zone (pmm_addr_to_zone p) p) (region_pages base len) s"
  by (simp add: pmm_add_region_def region_pages_def Let_def fold_map comp_def)

lemma region_pages_aligned: "p \<in> set (region_pages base len) \<Longrightarrow> IS_PAGE_ALIGNED p"
  by (auto simp: region_pages_def Let_def split: if_splits
      intro!: page_aligned_add PAGE_ALIGN_UP_aligned page_multiple_aligned)

text \<open>
  The pages of a region that does not run past the end of the address space are exactly the
  aligned pages that lie wholly inside it.
\<close>

definition page_in_region :: "u64 \<Rightarrow> u64 \<Rightarrow> u64 \<Rightarrow> bool" where
  "page_in_region base len p \<longleftrightarrow>
     IS_PAGE_ALIGNED p \<and> unat base \<le> unat p \<and> unat p + 4096 \<le> unat base + unat len"

lemma unat_page_offset:
  assumes "unat (a :: u64) + k * 4096 < 2 ^ 64"
  shows "unat (a + of_nat k * PAGE_SIZE) = unat a + k * 4096"
proof -
  have "unat (of_nat (k * 4096) :: u64) = k * 4096"
    using assms by (intro unat_of_nat_small) simp
  then have "unat (of_nat k * PAGE_SIZE) = k * 4096" by simp
  then show ?thesis using assms by (subst unat_add_lem [THEN iffD1]) auto
qed

lemma PAGE_ALIGN_UP_bounds:
  assumes "unat a + 4095 < 2 ^ 64"
  obtains k where "unat (PAGE_ALIGN_UP a) = 4096 * k" "unat a \<le> 4096 * k" "4096 * k < unat a + 4096"
proof
  let ?k = "(unat a + 4095) div 4096"
  have *: "?k * 4096 + (unat a + 4095) mod 4096 = unat a + 4095" "(unat a + 4095) mod 4096 < 4096"
    by (simp_all add: div_mult_mod_eq)
  show "unat (PAGE_ALIGN_UP a) = 4096 * ?k" using PAGE_ALIGN_UP_unat [OF assms] by simp
  show "unat a \<le> 4096 * ?k" "4096 * ?k < unat a + 4096" using * by linarith+
qed

lemma page_in_region_iff:
  "page_in_region base len p \<longleftrightarrow>
     (\<exists>j. unat p = 4096 * j \<and> unat base \<le> 4096 * j \<and> 4096 * j + 4096 \<le> unat base + unat len)"
  by (auto simp: page_in_region_def IS_PAGE_ALIGNED_iff dvd_def)

lemma region_pages_form:
  assumes b: "unat base + unat len + 4096 \<le> 2 ^ 64"
  obtains a n where "region_pages base len = map (\<lambda>k. of_nat (4096 * (a + k))) [0..<n]"
    "unat base \<le> 4096 * a" "4096 * a < unat base + 4096"
    "n = 0 \<or> 4096 * (a + n) \<le> unat base + unat len" "unat base + unat len < 4096 * (a + n) + 4096"
proof -
  have b': "unat base + 4095 < 2 ^ 64" using b by linarith
  define A where "A = PAGE_ALIGN_UP base"
  obtain a where A: "unat A = 4096 * a" and AB: "unat base \<le> 4096 * a" "4096 * a < unat base + 4096"
    unfolding A_def by (rule PAGE_ALIGN_UP_bounds [OF b'])
  have lost: "unat (A - base) = 4096 * a - unat base"
    using A AB by (subst unat_sub) (simp_all add: word_le_nat_alt)
  show thesis
  proof (cases "len \<le> A - base")
    case True
    then have "unat len \<le> 4096 * a - unat base" using lost by (simp add: word_le_nat_alt)
    then show thesis
      using True AB by (intro that [of a 0]) (simp_all add: region_pages_def A_def [symmetric])
  next
    case False
    define l where "l = unat len - (4096 * a - unat base)"
    define n where "n = l div 4096"
    have l: "l + 4096 * a = unat base + unat len"
      using False AB by (simp add: l_def lost word_less_nat_alt not_le)
    have ln: "unat (len - (A - base)) = l"
      using False by (subst unat_sub) (auto simp: lost l_def)
    have n: "unat (PAGE_ALIGN_DOWN (len - (A - base)) div PAGE_SIZE) = n"
      by (simp add: unat_div PAGE_ALIGN_DOWN_unat ln n_def minus_mod_eq_div_mult)
    have nl: "n * 4096 \<le> l" "l < n * 4096 + 4096"
      unfolding n_def by (rule div_times_less_eq_dividend, simp add: dividend_less_div_times)
    have "A = of_nat (unat A)" by simp
    then have "A = of_nat (4096 * a)" by (simp only: A)
    then have "A + of_nat k * PAGE_SIZE = of_nat (4096 * (a + k))" for k by (simp add: algebra_simps)
    then have "region_pages base len = map (\<lambda>k. of_nat (4096 * (a + k))) [0..<n]"
      using False by (simp only: region_pages_def Let_def A_def [symmetric] n if_False)
    then show thesis using AB nl l by (intro that [of a n]) simp_all
  qed
qed

lemma unat_of_page: "4096 * (j :: nat) < 2 ^ 64 \<Longrightarrow> unat (of_nat (4096 * j) :: u64) = 4096 * j"
  by (rule unat_of_nat_small) simp

lemma region_pages_iff:
  assumes b: "unat base + unat len + 4096 \<le> 2 ^ 64"
  shows "p \<in> set (region_pages base len) \<longleftrightarrow> page_in_region base len p"
proof (rule region_pages_form [OF b])
  fix a n
  assume eq: "region_pages base len = map (\<lambda>k. of_nat (4096 * (a + k))) [0..<n]"
    and ab: "unat base \<le> 4096 * a" "4096 * a < unat base + 4096"
    and n: "n = 0 \<or> 4096 * (a + n) \<le> unat base + unat len" "unat base + unat len < 4096 * (a + n) + 4096"
  have u: "unat (of_nat (4096 * (a + k)) :: u64) = 4096 * (a + k)" if "k < n" for k
    using that n b by (intro unat_of_page) auto
  have "p \<in> set (region_pages base len) \<longleftrightarrow> (\<exists>k < n. unat p = 4096 * (a + k))"
    using u by (force simp: eq word_unat_eq_iff simp del: of_nat_mult of_nat_add)
  also have "\<dots> \<longleftrightarrow> page_in_region base len p"
  proof
    assume "\<exists>k < n. unat p = 4096 * (a + k)"
    then obtain k where "k < n" "unat p = 4096 * (a + k)" by auto
    then show "page_in_region base len p"
      unfolding page_in_region_iff using n ab by (intro exI [of _ "a + k"]) auto
  next
    assume "page_in_region base len p"
    then obtain j where j: "unat p = 4096 * j" "unat base \<le> 4096 * j" "4096 * j + 4096 \<le> unat base + unat len"
      by (auto simp: page_in_region_iff)
    have "a \<le> j" using j ab by linarith
    moreover have "j < a + n" using j(3) n(2) by auto
    ultimately show "\<exists>k < n. unat p = 4096 * (a + k)"
      using j(1) by (intro exI [of _ "j - a"]) auto
  qed
  finally show ?thesis .
qed

lemma region_pages_distinct:
  assumes b: "unat base + unat len + 4096 \<le> 2 ^ 64"
  shows "distinct (region_pages base len)"
proof (rule region_pages_form [OF b])
  fix a n
  assume eq: "region_pages base len = map (\<lambda>k. of_nat (4096 * (a + k))) [0..<n]"
    and n: "n = 0 \<or> 4096 * (a + n) \<le> unat base + unat len"
  have "unat (of_nat (4096 * (a + k)) :: u64) = 4096 * (a + k)" if "k < n" for k
    using that n b by (intro unat_of_page) auto
  then have "inj_on (\<lambda>k. of_nat (4096 * (a + k)) :: u64) {0..<n}"
    by (intro inj_onI) (metis add_left_cancel atLeastLessThan_iff mult_cancel1 zero_neq_numeral)
  then show ?thesis by (simp add: eq distinct_map)
qed

text \<open>One memory map entry, then the whole map.\<close>

lemma pmm_inv_cong:
  "mem t = mem s \<Longrightarrow> hhdm_offset t = hhdm_offset s \<Longrightarrow> zones t = zones s \<Longrightarrow> pmm_inv t F = pmm_inv s F"
  by (simp add: pmm_inv_def zone_inv_def PHYS_TO_VIRT_cong [of t s])

definition entry_pages :: "limine_memmap_entry \<Rightarrow> u64 list" where
  "entry_pages e = (if e_type e = LIMINE_MEMMAP_USABLE then region_pages (e_base e) (e_length e) else [])"

lemma pmm_init_entry_inv:
  assumes inv: "pmm_inv s F" and d: "distinct (entry_pages e)"
    and new: "\<forall>p \<in> set (entry_pages e). p + hhdm_offset s \<noteq> 0 \<and> (\<forall>i < 3. p \<notin> set (F i))"
  shows "pmm_inv (pmm_init_entry e s) (add_free (entry_pages e) F)"
    and "hhdm_offset (pmm_init_entry e s) = hhdm_offset s"
proof -
  let ?s = "s\<lparr>total_memory_bytes := total_memory_bytes s + e_length e\<rparr>"
  let ?u = "?s\<lparr>usable_memory_bytes := usable_memory_bytes ?s + e_length e\<rparr>"
  have hh: "hhdm_offset (fold (\<lambda>p. pmm_add_page_to_zone (pmm_addr_to_zone p) p) ps t) = hhdm_offset t" for ps and t :: "'a pmm_scheme"
    by (induction ps arbitrary: t) (simp_all add: pmm_add_page_to_zone_def Let_def)
  have i: "pmm_inv ?s F" "pmm_inv ?u F"
    using inv pmm_inv_cong [of ?s s F] pmm_inv_cong [of ?u s F] by simp_all
  have "pmm_inv (fold (\<lambda>p. pmm_add_page_to_zone (pmm_addr_to_zone p) p) (entry_pages e) ?u) (add_free (entry_pages e) F)"
    using new d pmm_addr_to_zone_less
    by (intro fold_add_pages i) (auto simp: entry_pages_def PHYS_TO_VIRT_def region_pages_aligned)
  then show "pmm_inv (pmm_init_entry e s) (add_free (entry_pages e) F)"
    using i(1) by (auto simp: pmm_init_entry_def entry_pages_def pmm_add_region_eq Let_def)
  show "hhdm_offset (pmm_init_entry e s) = hhdm_offset s"
    by (auto simp: pmm_init_entry_def pmm_add_region_eq Let_def hh)
qed

lemma fold_init_entries_inv:
  "pmm_inv s F \<Longrightarrow> distinct (concat (map entry_pages es)) \<Longrightarrow>
   \<forall>p \<in> set (concat (map entry_pages es)). p + hhdm_offset s \<noteq> 0 \<and> (\<forall>i < 3. p \<notin> set (F i)) \<Longrightarrow>
   pmm_inv (fold pmm_init_entry es s) (add_free (concat (map entry_pages es)) F)"
proof (induction es arbitrary: s F)
  case Nil
  then show ?case by simp
next
  case (Cons e es)
  have e: "pmm_inv (pmm_init_entry e s) (add_free (entry_pages e) F)"
    "hhdm_offset (pmm_init_entry e s) = hhdm_offset s"
    using Cons.prems by (auto intro!: pmm_init_entry_inv)
  have "\<forall>p \<in> set (concat (map entry_pages es)). \<forall>i < 3. p \<notin> set (add_free (entry_pages e) F i)"
    using Cons.prems by (auto simp: add_free_def)
  then have "pmm_inv (fold pmm_init_entry es (pmm_init_entry e s))
     (add_free (concat (map entry_pages es)) (add_free (entry_pages e) F))"
    using Cons.prems e by (intro Cons.IH) auto
  then show ?case by (simp add: add_free_append)
qed

lemma pmm_inv_watermarks:
  "pmm_inv s F \<Longrightarrow> pmm_inv (fold (\<lambda>i. zone_upd i pmm_calculate_watermarks) is s) F"
proof (induction "is" arbitrary: s)
  case Nil
  then show ?case by simp
next
  case (Cons i "is")
  have "zone_inv (zone_upd i pmm_calculate_watermarks s) j (F j)" if "j < 3" for j
    by (rule zone_inv_frame [of s j "F j"])
      (use Cons.prems that in \<open>auto simp: pmm_inv_def zones_zone_upd pmm_calculate_watermarks_def Let_def\<close>)
  then show ?case using Cons by (simp add: pmm_inv_def)
qed

definition memmap_ok :: "u64 \<Rightarrow> limine_memmap_entry list \<Rightarrow> bool" where
  "memmap_ok offset es \<longleftrightarrow>
     (\<forall>e \<in> set es. e_type e = LIMINE_MEMMAP_USABLE \<longrightarrow>
        unat (e_base e) + unat (e_length e) + 4096 \<le> 2 ^ 64 \<and>
        unat (e_base e) + unat (e_length e) + unat offset \<le> 2 ^ 64) \<and>
     sorted_wrt (\<lambda>a b. unat (e_base a) + unat (e_length a) \<le> unat (e_base b))
       (filter (\<lambda>e. e_type e = LIMINE_MEMMAP_USABLE) es)"

lemma entry_pages_iff:
  "memmap_ok offset es \<Longrightarrow> e \<in> set es \<Longrightarrow>
   p \<in> set (entry_pages e) \<longleftrightarrow>
     e_type e = LIMINE_MEMMAP_USABLE \<and> page_in_region (e_base e) (e_length e) p"
  by (auto simp: memmap_ok_def entry_pages_def region_pages_iff)

lemma memmap_ok_Cons: "memmap_ok offset (e # es) \<Longrightarrow> memmap_ok offset es"
  by (auto simp: memmap_ok_def split: if_splits)

lemma memmap_pages_distinct:
  "memmap_ok offset es \<Longrightarrow> distinct (concat (map entry_pages es))"
proof (induction es)
  case Nil
  then show ?case by simp
next
  case (Cons e es)
  have "set (entry_pages e) \<inter> set (entry_pages x) = {}" if x: "x \<in> set es" for x
  proof (rule ccontr)
    assume "set (entry_pages e) \<inter> set (entry_pages x) \<noteq> {}"
    then obtain p where p: "p \<in> set (entry_pages e)" "p \<in> set (entry_pages x)" by blast
    then have u: "e_type e = LIMINE_MEMMAP_USABLE" "e_type x = LIMINE_MEMMAP_USABLE"
      and r: "page_in_region (e_base e) (e_length e) p" "page_in_region (e_base x) (e_length x) p"
      using entry_pages_iff [OF Cons.prems] x by auto
    have "unat (e_base e) + unat (e_length e) \<le> unat (e_base x)"
      using Cons.prems u x by (auto simp: memmap_ok_def)
    then show False using r by (simp add: page_in_region_def)
  qed
  moreover have "distinct (entry_pages e)"
    using Cons.prems by (auto simp: memmap_ok_def entry_pages_def intro!: region_pages_distinct)
  ultimately show ?case
    using Cons.IH [OF memmap_ok_Cons [OF Cons.prems]] by auto
qed

lemma direct_map_nonnull:
  assumes ok: "memmap_ok offset es" and off: "offset \<noteq> 0" and p: "p \<in> set (concat (map entry_pages es))"
  shows "p + offset \<noteq> 0"
proof
  assume z: "p + offset = 0"
  obtain e where e: "e \<in> set es" "p \<in> set (entry_pages e)" using p by auto
  then have "unat p + unat offset < 2 ^ 64"
    using ok entry_pages_iff [OF ok e(1), of p] by (auto simp: memmap_ok_def page_in_region_def)
  then have "unat (p + offset) = unat p + unat offset" by (subst unat_add_lem [THEN iffD1]) auto
  then show False using z off by (simp add: unat_eq_zero)
qed

lemma pmm_init_inv:
  assumes len: "length (zones s) = 3" and al: "IS_PAGE_ALIGNED offset" and off: "offset \<noteq> 0"
    and ok: "memmap_ok offset es"
  shows "\<exists>t. pmm_init (Some offset) (Some es) s = Inr t \<and>
           pmm_inv t (add_free (concat (map entry_pages es)) (\<lambda>_. []))"
proof -
  define s0 where "s0 = zone_upd 2 (pmm_zone_reset ''normal'' PMM_DMA32_LIMIT (- 1))
      (zone_upd 1 (pmm_zone_reset ''DMA32'' PMM_DMA_LIMIT PMM_DMA32_LIMIT)
        (zone_upd 0 (pmm_zone_reset ''DMA'' 0 PMM_DMA_LIMIT) (s\<lparr>hhdm_offset := offset\<rparr>)))"
  have hh: "hhdm_offset s0 = offset" by (simp add: s0_def)
  have "pmm_inv s0 (\<lambda>_. [])"
    using len al
    by (auto simp: pmm_inv_def zone_inv_def s0_def zones_zone_upd pmm_zone_reset_def less_Suc_eq numeral_3_eq_3)
  then have "pmm_inv (fold pmm_init_entry es s0) (add_free (concat (map entry_pages es)) (\<lambda>_. []))"
    using memmap_pages_distinct [OF ok] direct_map_nonnull [OF ok off]
    by (intro fold_init_entries_inv) (auto simp: hh)
  then have "pmm_inv (fold (\<lambda>i. zone_upd i pmm_calculate_watermarks) [0..<3] (fold pmm_init_entry es s0))
      (add_free (concat (map entry_pages es)) (\<lambda>_. []))"
    by (rule pmm_inv_watermarks)
  then show ?thesis by (simp add: pmm_init_def Let_def s0_def)
qed

end
