(* ===== verification/Pmm_Runs.thy ===== *)
theory Pmm_Runs
  imports Pmm
begin

text \<open>
  Contiguous allocation, \<^verbatim>\<open>pmm_alloc_pages\<close> of \<^verbatim>\<open>src/src/kernel/mm/pmm.c\<close>: the pointer
  walk over the free stack refines a search on the list of free pages (\<open>find_run\<close>).  A run that is
  found is unlinked, counted and cleared (\<open>run_allocated\<close>).  A suffix of the stack shorter than the
  request counts as contiguous, so that the walk dereferences NULL; on the descending stacks that
  boot leaves, this happens for every request of two or more pages.
\<close>

section \<open>The search on the list of free pages\<close>

text \<open>
  The search of \<open>pmm_alloc_pages\<close> on the list of free pages: it stops at the first suffix whose
  first \<open>n\<close> entries, \<^emph>\<open>or as many as there are\<close>, ascend page by page, and faults when fewer than
  \<open>n\<close> are left.
\<close>

datatype run_outcome = Run_None | Run_Fault | Run_Found u64 "u64 list"

definition ascends :: "nat \<Rightarrow> u64 list \<Rightarrow> bool" where
  "ascends n ys \<longleftrightarrow> (\<forall>k < min n (length ys). ys ! k = hd ys + of_nat k * PAGE_SIZE)"

fun find_run :: "nat \<Rightarrow> u64 list \<Rightarrow> u64 list \<Rightarrow> run_outcome" where
  "find_run n pre [] = Run_None"
| "find_run n pre (y # ys) =
     (if ascends n (y # ys)
      then (if length (y # ys) < n then Run_Fault else Run_Found y (pre @ drop n (y # ys)))
      else find_run n (pre @ [y]) ys)"

lemma run_is_contiguous_iff:
  "chain (mem s) check (map (PHYS_TO_VIRT s) ys) \<Longrightarrow>
   run_is_contiguous s start i n check \<longleftrightarrow>
     (\<forall>k < min n (length ys). ys ! k = start + of_nat (i + k) * PAGE_SIZE)"
proof (induction n arbitrary: i check ys)
  case 0
  then show ?case by simp
next
  case (Suc n)
  show ?case
  proof (cases ys)
    case Nil
    then show ?thesis using Suc.prems by simp
  next
    case (Cons y zs)
    then have c: "check = PHYS_TO_VIRT s y" "check \<noteq> 0" "chain (mem s) (mem s check) (map (PHYS_TO_VIRT s) zs)"
      using Suc.prems by auto
    show ?thesis
      using c Suc.IH [OF c(3), of "Suc i"] Cons
      by (auto simp: less_Suc_eq_0_disj min_def split: if_splits)
  qed
qed

section \<open>Unlinking\<close>

lemma zone_upd_twice [simp]: "zone_upd i f (zone_upd i g s) = zone_upd i (\<lambda>z. f (g z)) s"
  by (cases "i < length (zones s)") (simp_all add: zone_upd_def list_update_beyond)

lemma mem_update_zone_upd [simp]: "(zone_upd i f s)\<lparr>mem := m\<rparr> = zone_upd i f (s\<lparr>mem := m\<rparr>)"
  by (simp add: zone_upd_def)

definition set_link :: "nat \<Rightarrow> u64 \<Rightarrow> u64 \<Rightarrow> 'a pmm_scheme \<Rightarrow> 'a pmm_scheme" where
  "set_link z prev q s =
     (if prev = 0 then zone_upd z (\<lambda>z. z\<lparr>free_stack := q\<rparr>) s else s\<lparr>mem := (mem s)(prev := q)\<rparr>)"

definition take_pages :: "nat \<Rightarrow> nat \<Rightarrow> 'a pmm_scheme \<Rightarrow> 'a pmm_scheme" where
  "take_pages z n s = zone_upd z (\<lambda>z. z\<lparr>free_pages := free_pages z - of_nat n\<rparr>) s"

lemma set_link_mem: "mem (set_link z prev q s) = (if prev = 0 then mem s else (mem s)(prev := q))"
  by (simp add: set_link_def)

lemma PHYS_TO_VIRT_set_link [simp]: "PHYS_TO_VIRT (set_link z prev q s) = PHYS_TO_VIRT s"
  by (simp add: set_link_def PHYS_TO_VIRT_def fun_eq_iff)

lemma take_pages_simps [simp]:
  "mem (take_pages z n s) = mem s" "PHYS_TO_VIRT (take_pages z n s) = PHYS_TO_VIRT s"
  by (simp_all add: take_pages_def)

lemma unlink_step:
  "q \<noteq> 0 \<Longrightarrow> unlink_run z (Suc n) prev q s =
     unlink_run z n prev (mem s q) (take_pages z 1 (set_link z prev (mem s q) s))"
  by (simp add: set_link_def take_pages_def Let_def)

lemma take_set_again:
  "take_pages z n (set_link z prev q' (take_pages z m (set_link z prev q s))) =
   take_pages z (m + n) (set_link z prev q' s)"
  by (cases "prev = 0") (simp_all add: set_link_def take_pages_def algebra_simps)

lemma chain_set_link:
  assumes "chain (mem s) q (map (PHYS_TO_VIRT s) ys)" and "prev \<notin> set (map (PHYS_TO_VIRT s) ys)"
  shows "chain (mem (set_link z prev r s)) q (map (PHYS_TO_VIRT s) ys)"
  using assms unfolding set_link_mem by (simp del: fun_upd_apply)

lemma unlink_run_short:
  "chain (mem s) q (map (PHYS_TO_VIRT s) ys) \<Longrightarrow> length ys < n \<Longrightarrow>
   prev \<notin> set (map (PHYS_TO_VIRT s) ys) \<Longrightarrow> unlink_run z n prev q s = Inl Null_Deref"
proof (induction ys arbitrary: n q s)
  case Nil
  then show ?case by (cases n) auto
next
  case (Cons y ys)
  then obtain m where n: "n = Suc m" by (cases n) auto
  have q: "q \<noteq> 0" "chain (mem s) (mem s q) (map (PHYS_TO_VIRT s) ys)" "prev \<notin> set (map (PHYS_TO_VIRT s) ys)"
    using Cons.prems by auto
  show ?case
    unfolding n unlink_step [OF q(1)]
    using chain_set_link [OF q(2,3)] q(3) Cons.prems(2) n by (intro Cons.IH) simp_all
qed

lemma unlink_run_ok:
  "chain (mem s) q (map (PHYS_TO_VIRT s) (xs @ ys)) \<Longrightarrow> xs \<noteq> [] \<Longrightarrow>
   prev \<notin> set (map (PHYS_TO_VIRT s) xs) \<union> set (map (PHYS_TO_VIRT s) ys) \<Longrightarrow>
   \<exists>r. chain (mem s) r (map (PHYS_TO_VIRT s) ys) \<and>
     unlink_run z (length xs) prev q s = Inr (take_pages z (length xs) (set_link z prev r s))"
proof (induction xs arbitrary: q s)
  case Nil
  then show ?case by simp
next
  case (Cons x xs)
  have q: "q \<noteq> 0" "chain (mem s) (mem s q) (map (PHYS_TO_VIRT s) (xs @ ys))"
      "prev \<notin> set (map (PHYS_TO_VIRT s) (xs @ ys))"
    using Cons.prems by auto
  let ?t = "take_pages z 1 (set_link z prev (mem s q) s)"
  show ?case
  proof (cases "xs = []")
    case True
    then show ?thesis using q by (auto simp: unlink_step simp del: unlink_run.simps(2))
  next
    case False
    have v: "PHYS_TO_VIRT ?t = PHYS_TO_VIRT s" by simp
    have "chain (mem ?t) (mem s q) (map (PHYS_TO_VIRT ?t) (xs @ ys))"
      unfolding v using chain_set_link [OF q(2,3)] by simp
    then obtain r where r: "chain (mem ?t) r (map (PHYS_TO_VIRT s) ys)"
      "unlink_run z (length xs) prev (mem s q) ?t = Inr (take_pages z (length xs) (set_link z prev r ?t))"
      using Cons.IH [of ?t "mem s q"] False q(3) unfolding v by auto
    have "chain (mem s) r (map (PHYS_TO_VIRT s) ys)"
      using r(1) q(3) by (subst chain_cong [where nxt' = "mem ?t"]) (auto simp: set_link_mem)
    then show ?thesis
      using q(1) r(2) by (auto simp: unlink_step take_set_again simp del: unlink_run.simps(2))
  qed
qed

definition link_before :: "'a pmm_scheme \<Rightarrow> u64 list \<Rightarrow> u64" where
  "link_before s pre = (if pre = [] then 0 else PHYS_TO_VIRT s (last pre))"

lemma set_link_take_zones:
  "z < length (zones s) \<Longrightarrow> j < length (zones s) \<Longrightarrow> j \<noteq> z \<Longrightarrow>
     zones (take_pages z n (set_link z prev q s)) ! j = zones s ! j"
  "z < length (zones s) \<Longrightarrow> free_pages (zones (take_pages z n (set_link z prev q s)) ! z) =
     free_pages (zones s ! z) - of_nat n"
  "z < length (zones s) \<Longrightarrow> free_stack (zones (take_pages z n (set_link z prev q s)) ! z) =
     (if prev = 0 then q else free_stack (zones s ! z))"
  "hhdm_offset (take_pages z n (set_link z prev q s)) = hhdm_offset s"
  "length (zones (take_pages z n (set_link z prev q s))) = length (zones s)"
  "pmm.more (take_pages z n (set_link z prev q s)) = pmm.more s"
  by (simp_all add: take_pages_def set_link_def zones_zone_upd zone_upd_def)

lemma zone_inv_cut:
  assumes inv: "zone_inv s z (pre @ xs @ ys)" and len: "z < length (zones s)"
    and r: "chain (mem s) r (map (PHYS_TO_VIRT s) ys)"
  shows "zone_inv (take_pages z (length xs) (set_link z (link_before s pre) r s)) z (pre @ ys)"
proof -
  let ?t = "take_pages z (length xs) (set_link z (link_before s pre) r s)"
  let ?V = "map (PHYS_TO_VIRT s)"
  have c: "chain (mem s) (free_stack (zones s ! z)) (?V pre @ ?V xs @ ?V ys)"
    using inv by (simp add: zone_inv_def)
  have d: "distinct (pre @ xs @ ys)" using inv by (rule zone_inv_distinct)
  have "chain (mem ?t) (free_stack (zones ?t ! z)) (?V pre @ ?V ys)"
  proof (cases "pre = []")
    case True
    then show ?thesis using r len by (simp add: link_before_def set_link_take_zones set_link_mem)
  next
    case False
    then have nz: "link_before s pre \<noteq> 0" "link_before s pre = last (?V pre)"
      using chain_nonnull [OF c] by (auto simp: link_before_def last_map)
    have "last pre \<notin> set ys"
      using last_notin_tail [OF _ False] d by auto
    then have "last (?V pre) \<notin> set (?V ys)" by (auto simp: last_map False)
    then have "chain ((mem s)(last (?V pre) := r)) (free_stack (zones s ! z)) (?V pre @ ?V ys)"
      using c r False by (intro chain_relink) auto
    moreover have "mem ?t = (mem s)(last (?V pre) := r)"
      using nz by (simp add: set_link_mem)
    ultimately show ?thesis using len nz(1) by (simp add: set_link_take_zones del: fun_upd_apply)
  qed
  moreover have "unat (free_pages (zones s ! z) - of_nat (length xs)) = length (pre @ ys)"
  proof -
    have "length (pre @ xs @ ys) = unat (free_pages (zones s ! z))" using inv by (simp add: zone_inv_def)
    moreover have "unat (of_nat (length xs) :: u64) = length xs"
      using calculation unat_lt2p [of "free_pages (zones s ! z)"] by (intro unat_of_nat_small) auto
    ultimately show ?thesis by (subst unat_sub) (auto simp: word_le_nat_alt)
  qed
  ultimately show ?thesis
    using inv len by (auto simp: zone_inv_def set_link_take_zones)
qed

lemma pmm_inv_cut:
  assumes inv: "pmm_inv s F" and z: "z < 3" and F: "F z = pre @ xs @ ys"
    and r: "chain (mem s) r (map (PHYS_TO_VIRT s) ys)"
  shows "pmm_inv (take_pages z (length xs) (set_link z (link_before s pre) r s)) (F(z := pre @ ys))"
proof -
  let ?t = "take_pages z (length xs) (set_link z (link_before s pre) r s)"
  have len: "length (zones s) = 3" and zz: "zone_inv s z (pre @ xs @ ys)"
    using inv z F by (auto simp: pmm_inv_def)
  have "zone_inv ?t j (F j)" if j: "j < 3" "j \<noteq> z" for j
  proof -
    have zj: "zone_inv s j (F j)" using inv j by (simp add: pmm_inv_def)
    have "mem ?t (PHYS_TO_VIRT s p) = mem s (PHYS_TO_VIRT s p)" if "p \<in> set (F j)" for p
    proof -
      have "p \<notin> set pre" using zone_inv_disjoint [OF zj zz that] j by auto
      then show ?thesis by (auto simp: set_link_mem link_before_def)
    qed
    then show ?thesis
      using len z j by (intro zone_inv_frame [OF zj]) (simp_all add: set_link_take_zones)
  qed
  then show ?thesis
    using zone_inv_cut [OF zz _ r] inv len z by (auto simp: pmm_inv_def set_link_take_zones)
qed

section \<open>Clearing the run\<close>

definition clear_pages :: "u64 list \<Rightarrow> 'a pmm_scheme \<Rightarrow> 'a pmm_scheme" where
  "clear_pages ps s = fold (\<lambda>p s. s\<lparr>mem := memset_page (mem s) (PHYS_TO_VIRT s p)\<rparr>) ps s"

lemma clear_pages_frame:
  "hhdm_offset (clear_pages ps s) = hhdm_offset s \<and> zones (clear_pages ps s) = zones s \<and>
   pmm.more (clear_pages ps s) = pmm.more s"
  by (induction ps arbitrary: s) (auto simp: clear_pages_def)

lemma clear_pages_mem:
  "mem (clear_pages ps s) x =
     (if \<exists>p \<in> set ps. x - PHYS_TO_VIRT s p < PAGE_SIZE then 0 else mem s x)"
proof (induction ps arbitrary: s)
  case Nil
  then show ?case by (simp add: clear_pages_def)
next
  case (Cons p ps)
  have "clear_pages (p # ps) s = clear_pages ps (s\<lparr>mem := memset_page (mem s) (PHYS_TO_VIRT s p)\<rparr>)"
    by (simp add: clear_pages_def)
  then show ?case by (simp add: Cons.IH PHYS_TO_VIRT_def memset_page_def)
qed

lemma clear_pages_inv:
  assumes inv: "pmm_inv s F"
    and ps: "\<forall>p \<in> set ps. IS_PAGE_ALIGNED p \<and> (\<forall>i < 3. p \<notin> set (F i))"
  shows "pmm_inv (clear_pages ps s) F"
proof -
  have al: "IS_PAGE_ALIGNED (hhdm_offset s)" using inv by (simp add: pmm_inv_def)
  have "zone_inv (clear_pages ps s) i (F i)" if i: "i < 3" for i
  proof -
    have zi: "zone_inv s i (F i)" using inv i by (simp add: pmm_inv_def)
    have "mem (clear_pages ps s) (PHYS_TO_VIRT s q) = mem s (PHYS_TO_VIRT s q)" if q: "q \<in> set (F i)" for q
    proof -
      have "IS_PAGE_ALIGNED q" using zi q by (simp add: zone_inv_def)
      then have "\<not> PHYS_TO_VIRT s q - PHYS_TO_VIRT s p < PAGE_SIZE" if "p \<in> set ps" for p
        using ps i q that al aligned_in_page [of "PHYS_TO_VIRT s p" "PHYS_TO_VIRT s q"]
        by (auto simp: PHYS_TO_VIRT_aligned)
      then show ?thesis by (auto simp: clear_pages_mem)
    qed
    then show ?thesis
      by (intro zone_inv_frame [OF zi]) (simp_all add: clear_pages_frame)
  qed
  then show ?thesis using inv by (simp add: pmm_inv_def clear_pages_frame)
qed

section \<open>The search in memory refines the search on the list\<close>

definition run_pages :: "u64 \<Rightarrow> nat \<Rightarrow> u64 list" where
  "run_pages p n = map (\<lambda>k. p + of_nat k * PAGE_SIZE) [0..<n]"

lemma ascends_run: "ascends n ys \<Longrightarrow> n \<le> length ys \<Longrightarrow> take n ys = run_pages (hd ys) n"
  by (intro nth_equalityI) (auto simp: ascends_def run_pages_def)

definition count_failure :: "nat \<Rightarrow> 'a pmm_scheme \<Rightarrow> 'a pmm_scheme" where
  "count_failure z s = zone_upd z (\<lambda>z. z\<lparr>z_stats := (z_stats z)\<lparr>alloc_failed := alloc_failed (z_stats z) + 1\<rparr>\<rparr>) s"

definition count_success :: "nat \<Rightarrow> u64 \<Rightarrow> 'a pmm_scheme \<Rightarrow> 'a pmm_scheme" where
  "count_success z n s = zone_upd z (\<lambda>z. z\<lparr>z_stats := (z_stats z)\<lparr>alloc_count := alloc_count (z_stats z) + n\<rparr>\<rparr>) s"

lemma zone_inv_stats:
  assumes "\<And>z. free_stack (f z) = free_stack z" "\<And>z. free_pages (f z) = free_pages z"
  shows "zone_inv (zone_upd z f s) i xs = zone_inv s i xs"
proof -
  have "free_stack (zones (zone_upd z f s) ! i) = free_stack (zones s ! i)"
    "free_pages (zones (zone_upd z f s) ! i) = free_pages (zones s ! i)"
    using assms by (cases "i < length (zones s)"; cases "z = i"; simp add: zone_upd_def list_update_beyond)+
  then show ?thesis by (simp add: zone_inv_def)
qed

lemma pmm_inv_count: "pmm_inv (count_failure z s) F = pmm_inv s F" "pmm_inv (count_success z n s) F = pmm_inv s F"
  by (simp_all add: pmm_inv_def count_failure_def count_success_def zone_inv_stats)

lemma count_success_simps [simp]:
  "hhdm_offset (count_success z n s) = hhdm_offset s" "mem (count_success z n s) = mem s"
  "pmm.more (count_success z n s) = pmm.more s"
  by (simp_all add: count_success_def zone_upd_def)

definition run_allocated :: "'a pmm_scheme \<Rightarrow> nat \<Rightarrow> (nat \<Rightarrow> u64 list) \<Rightarrow> u64 \<Rightarrow> nat \<Rightarrow> u64 list \<Rightarrow> 'a pmm_scheme \<Rightarrow> bool" where
  "run_allocated s z F p n rest t \<longleftrightarrow>
     pmm_inv t (F(z := rest)) \<and> hhdm_offset t = hhdm_offset s \<and> pmm.more t = pmm.more s \<and>
     (\<forall>x. (\<exists>q \<in> set (run_pages p n). x - PHYS_TO_VIRT s q < PAGE_SIZE) \<longrightarrow> mem t x = 0) \<and>
     (\<forall>x. (\<forall>q \<in> set (run_pages p n). \<not> x - PHYS_TO_VIRT s q < PAGE_SIZE) \<and>
          x \<notin> PHYS_TO_VIRT s ` set rest \<longrightarrow> mem t x = mem s x)"

lemma run_found:
  assumes inv: "pmm_inv s F" and z: "z < 3" and F: "F z = pre @ run_pages p n @ ys" and n: "0 < n"
    and r: "chain (mem s) r (map (PHYS_TO_VIRT s) ys)"
  shows "run_allocated s z F p n (pre @ ys)
     (clear_pages (run_pages p n) (count_success z c (take_pages z n (set_link z (link_before s pre) r s))))"
proof -
  let ?u = "count_success z c (take_pages z n (set_link z (link_before s pre) r s))"
  have ln: "length (run_pages p n) = n" by (simp add: run_pages_def)
  have zz: "zone_inv s z (pre @ run_pages p n @ ys)" using inv z F by (auto simp: pmm_inv_def)
  have u: "pmm_inv ?u (F(z := pre @ ys))"
    using pmm_inv_cut [OF inv z F r] by (simp add: pmm_inv_count ln)
  have "q \<notin> set ((F(z := pre @ ys)) i)" if q: "q \<in> set (run_pages p n)" "i < 3" for q i
  proof (cases "i = z")
    case True
    then show ?thesis using zone_inv_distinct [OF zz] q by auto
  next
    case False
    have "zone_inv s i (F i)" using inv that by (simp add: pmm_inv_def)
    then show ?thesis using zone_inv_disjoint [OF zz, of i "F i" q] q False by auto
  qed
  moreover have "IS_PAGE_ALIGNED q" if "q \<in> set (run_pages p n)" for q
    using zz that by (auto simp: zone_inv_def)
  ultimately have "pmm_inv (clear_pages (run_pages p n) ?u) (F(z := pre @ ys))"
    by (intro clear_pages_inv [OF u]) auto
  moreover have v: "PHYS_TO_VIRT ?u = PHYS_TO_VIRT s"
    by (intro PHYS_TO_VIRT_cong) (simp add: set_link_take_zones)
  moreover have "mem ?u x = mem s x" if "x \<notin> PHYS_TO_VIRT s ` set (pre @ ys)" for x
    using that by (auto simp: set_link_mem link_before_def)
  ultimately show ?thesis
    by (simp add: run_allocated_def clear_pages_frame set_link_take_zones clear_pages_mem)
qed

lemma fold_clear: "fold (\<lambda>i s. s\<lparr>mem := memset_page (mem s) (PHYS_TO_VIRT s (p + of_nat i * PAGE_SIZE))\<rparr>) [0..<n] s =
    clear_pages (run_pages p n) s"
  by (simp add: clear_pages_def run_pages_def fold_map comp_def)

lemma pmm_find_run_spec:
  assumes inv: "pmm_inv s F" and z: "z < 3" and c: "0 < count"
  shows "F z = pre @ ys \<Longrightarrow> chain (mem s) current (map (PHYS_TO_VIRT s) ys) \<Longrightarrow>
    (case find_run (unat count) pre ys of
       Run_None \<Rightarrow> pmm_find_run z count (link_before s pre) current s = Some (Inr (0, count_failure z s))
     | Run_Fault \<Rightarrow> pmm_find_run z count (link_before s pre) current s = Some (Inl Null_Deref)
     | Run_Found p rest \<Rightarrow> \<exists>t. pmm_find_run z count (link_before s pre) current s = Some (Inr (p, t)) \<and>
         run_allocated s z F p (unat count) rest t)"
proof (induction ys arbitrary: pre current)
  case Nil
  then show ?case by (simp add: pmm_find_run.simps count_failure_def)
next
  case (Cons y ys)
  let ?n = "unat count"
  have n: "0 < ?n" using c by (simp add: word_less_nat_alt)
  have cur: "current = PHYS_TO_VIRT s y" "current \<noteq> 0" "chain (mem s) (mem s current) (map (PHYS_TO_VIRT s) ys)"
    using Cons.prems(2) by auto
  have zz: "zone_inv s z (pre @ y # ys)" using inv z Cons.prems(1) by (auto simp: pmm_inv_def)
  have lb: "link_before s pre \<notin> set (map (PHYS_TO_VIRT s) (y # ys))"
    using zone_inv_distinct [OF zz] chain_nonnull [OF Cons.prems(2)] last_notin_tail [of pre "y # ys"]
    by (auto simp: link_before_def)
  have cont: "run_is_contiguous s (VIRT_TO_PHYS s current) 0 ?n current \<longleftrightarrow> ascends ?n (y # ys)"
    unfolding run_is_contiguous_iff [OF Cons.prems(2)] by (simp add: ascends_def cur)
  note step = pmm_find_run.simps [of z count "link_before s pre" current s]
  show ?case
  proof (cases "ascends ?n (y # ys)")
    case False
    have eq: "pmm_find_run z count (link_before s pre) current s =
        pmm_find_run z count (link_before s (pre @ [y])) (mem s current) s"
      using False cont cur step by (simp add: link_before_def Let_def)
    have "F z = (pre @ [y]) @ ys" using Cons.prems(1) by simp
    from Cons.IH [OF this cur(3)] show ?thesis unfolding eq using False by simp
  next
    case True
    show ?thesis
    proof (cases "length (y # ys) < ?n")
      case short: True
      then show ?thesis
        using unlink_run_short [OF Cons.prems(2) short lb, of z] True cont cur step
        by (simp add: Let_def del: unlink_run.simps)
    next
      case False
      let ?post = "drop ?n (y # ys)"
      have tk: "y # ys = run_pages y ?n @ ?post"
        using ascends_run [OF True] False append_take_drop_id [of ?n "y # ys"] by simp
      have ln: "length (run_pages y ?n) = ?n" by (simp add: run_pages_def)
      obtain r where r: "chain (mem s) r (map (PHYS_TO_VIRT s) ?post)"
        "unlink_run z ?n (link_before s pre) current s =
           Inr (take_pages z ?n (set_link z (link_before s pre) r s))"
        using unlink_run_ok [of s current "run_pages y ?n" ?post "link_before s pre" z]
          Cons.prems(2) lb n tk ln by (metis Un_iff length_greater_0_conv map_append set_append)
      have "F z = pre @ run_pages y ?n @ ?post" using Cons.prems(1) tk by simp
      from run_found [OF inv z this n r(1), of count] show ?thesis
        using r(2) True False cont cur step
        by (simp add: Let_def fold_clear count_success_def del: drop_Suc_Cons)
    qed
  qed
qed

section \<open>What the search finds\<close>

lemma find_run_found:
  "find_run n pre ys = Run_Found p rest \<Longrightarrow>
   \<exists>pre' post. pre @ ys = pre' @ run_pages p n @ post \<and> rest = pre' @ post"
proof (induction ys arbitrary: pre)
  case Nil
  then show ?case by simp
next
  case (Cons y ys)
  show ?case
  proof (cases "ascends n (y # ys)")
    case False
    then show ?thesis using Cons.IH [of "pre @ [y]"] Cons.prems by simp
  next
    case True
    then have "n \<le> length (y # ys)" "p = y" "rest = pre @ drop n (y # ys)"
      using Cons.prems by (auto split: if_splits)
    then have "y # ys = run_pages p n @ drop n (y # ys)"
      using ascends_run [OF True] append_take_drop_id [of n "y # ys"] by simp
    then show ?thesis using \<open>rest = _\<close> by (metis append.assoc)
  qed
qed

lemma ascends_singleton: "ascends n [y]"
  by (simp add: ascends_def)

lemma find_run_not_none: "ys \<noteq> [] \<Longrightarrow> find_run n pre ys \<noteq> Run_None"
proof (induction n pre ys rule: find_run.induct)
  case (2 n pre y ys)
  then show ?case by (cases "ys = []") (simp_all add: ascends_singleton)
qed simp

lemma find_run_descending:
  "2 \<le> n \<Longrightarrow> ys \<noteq> [] \<Longrightarrow> successively (\<lambda>a b. b \<noteq> a + PAGE_SIZE) ys \<Longrightarrow> find_run n pre ys = Run_Fault"
proof (induction n pre ys rule: find_run.induct)
  case (1 n pre)
  then show ?case by simp
next
  case (2 n pre y ys)
  show ?case
  proof (cases ys)
    case Nil
    then show ?thesis using 2 by (simp add: ascends_singleton)
  next
    case (Cons x xs)
    then have "\<not> ascends n (y # ys)"
      using 2 by (auto simp: ascends_def intro!: exI [of _ "1 :: nat"])
    then show ?thesis using 2 Cons by simp
  qed
qed

lemma pmm_alloc_pages_search:
  assumes inv: "pmm_inv s F" and z: "0 \<le> z" "z < 3" and c: "2 \<le> count"
    and enough: "unat count \<le> length (F (nat z))"
  shows "case find_run (unat count) [] (F (nat z)) of
       Run_None \<Rightarrow> pmm_alloc_pages count z s = Some (Inr (0, count_failure (nat z) s))
     | Run_Fault \<Rightarrow> pmm_alloc_pages count z s = Some (Inl Null_Deref)
     | Run_Found p rest \<Rightarrow> \<exists>t. pmm_alloc_pages count z s = Some (Inr (p, t)) \<and>
         run_allocated s (nat z) F p (unat count) rest t"
proof -
  have i: "nat z < 3" and c0: "0 < count" "count \<noteq> 0" "count \<noteq> 1" using z c by (auto simp: word_le_nat_alt word_less_nat_alt)
  have zi: "zone_inv s (nat z) (F (nat z))" using inv i by (simp add: pmm_inv_def)
  then have "\<not> free_pages (zones s ! nat z) < count"
    using enough by (simp add: zone_inv_def word_less_nat_alt)
  then have eq: "pmm_alloc_pages count z s =
      pmm_find_run (nat z) count (link_before s []) (free_stack (zones s ! nat z)) s"
    using z c0 by (simp add: pmm_alloc_pages_def Let_def link_before_def)
  show ?thesis
    unfolding eq by (rule pmm_find_run_spec [OF inv i c0(1)]) (use zi in \<open>simp_all add: zone_inv_def\<close>)
qed

lemma pmm_alloc_pages_few:
  assumes inv: "pmm_inv s F" and z: "0 \<le> z" "z < 3" and c: "2 \<le> count"
    and few: "length (F (nat z)) < unat count"
  shows "pmm_alloc_pages count z s = Some (Inr (0, count_failure (nat z) s))"
proof -
  have "zone_inv s (nat z) (F (nat z))" using inv z by (simp add: pmm_inv_def)
  then have "free_pages (zones s ! nat z) < count"
    using few by (simp add: zone_inv_def word_less_nat_alt)
  moreover have "count \<noteq> 0" "count \<noteq> 1" using c by (auto simp: word_le_nat_alt)
  ultimately show ?thesis
    using z by (simp add: pmm_alloc_pages_def count_failure_def)
qed

section \<open>Runs after boot\<close>

lemma region_pages_ascend:
  assumes b: "unat base + unat len + 4096 \<le> 2 ^ 64"
  shows "sorted_wrt (\<lambda>a b. unat a < unat b) (region_pages base len)"
proof (rule region_pages_form [OF b])
  fix a n
  assume f: "region_pages base len = map (\<lambda>k. of_nat (4096 * (a + k))) [0..<n]"
    "n = 0 \<or> 4096 * (a + n) \<le> unat base + unat len"
  have "unat (of_nat (4096 * (a + k)) :: u64) = 4096 * (a + k)" if "k < n" for k
    using that f(2) b by (intro unat_of_page) auto
  then show ?thesis
    unfolding f(1) sorted_wrt_map by (simp add: sorted_wrt_iff_nth_less)
qed

lemma memmap_pages_ascend:
  "memmap_ok offset es \<Longrightarrow> sorted_wrt (\<lambda>a b. unat a < unat b) (concat (map entry_pages es))"
proof (induction es)
  case Nil
  then show ?case by simp
next
  case (Cons e es)
  have "unat a < unat b" if a: "a \<in> set (entry_pages e)" and x: "x \<in> set es" and b: "b \<in> set (entry_pages x)" for a x b
  proof -
    have u: "e_type e = LIMINE_MEMMAP_USABLE" "e_type x = LIMINE_MEMMAP_USABLE"
      and r: "page_in_region (e_base e) (e_length e) a" "page_in_region (e_base x) (e_length x) b"
      using entry_pages_iff [OF Cons.prems] a x b by auto
    have "unat (e_base e) + unat (e_length e) \<le> unat (e_base x)"
      using Cons.prems u x by (auto simp: memmap_ok_def)
    then show ?thesis using r by (simp add: page_in_region_def)
  qed
  moreover have "sorted_wrt (\<lambda>a b. unat a < unat b) (entry_pages e)"
    using Cons.prems by (auto simp: memmap_ok_def entry_pages_def intro!: region_pages_ascend)
  ultimately show ?case
    using Cons.IH [OF memmap_ok_Cons [OF Cons.prems]] by (auto simp: sorted_wrt_append)
qed

lemma memmap_pages_below:
  "memmap_ok offset es \<Longrightarrow> p \<in> set (concat (map entry_pages es)) \<Longrightarrow> unat p + 4096 < 2 ^ 64"
  using entry_pages_iff by (fastforce simp: memmap_ok_def page_in_region_def)

lemma boot_stack_descends:
  assumes ok: "memmap_ok offset es"
  shows "successively (\<lambda>a b. b \<noteq> a + PAGE_SIZE) (add_free (concat (map entry_pages es)) (\<lambda>_. []) i)"
proof -
  let ?ps = "filter (\<lambda>p. pmm_addr_to_zone p = i) (concat (map entry_pages es))"
  have "sorted_wrt (\<lambda>a b. unat a < unat b) ?ps"
    by (rule sorted_wrt_filter) (rule memmap_pages_ascend [OF ok])
  then have "successively (\<lambda>a b. unat b < unat a) (rev ?ps)"
    by (intro successively_if_sorted_wrt) (simp add: sorted_wrt_rev del: rev_filter)
  moreover have "b \<noteq> a + PAGE_SIZE" if "a \<in> set (rev ?ps)" "unat b < unat a" for a b :: u64
  proof -
    have "unat a + 4096 < 2 ^ 64" using memmap_pages_below [OF ok, of a] that by simp
    then have "unat (a + PAGE_SIZE) = unat a + 4096" by (subst unat_add_lem [THEN iffD1]) auto
    then show ?thesis using that(2) by auto
  qed
  ultimately have "successively (\<lambda>a b. b \<noteq> a + PAGE_SIZE) (rev ?ps)"
    by (rule successively_mono)
  then show ?thesis by (simp add: add_free_def)
qed

end
