(* ===== verification/Interfaces.thy ===== *)
theory Interfaces
  imports Kernel_Prelude
begin

text \<open>
  The contracts between components, as locales: what a client may call, what the provider promises,
  and what follows from the promises alone.  Each is interpreted on the model of the code that
  provides it.

  \<^item> \<open>page_allocator\<close>: an allocator of physical pages, provided by \<^verbatim>\<open>pmm.c\<close> and used by the
    page tables, the heap and the drivers.
  \<^item> \<open>page_map\<close>: a map from virtual pages to entries, provided by \<^verbatim>\<open>mmu.c\<close> for ranges and batches
    of pages.
\<close>

section \<open>Page allocators\<close>

fun alloc_n :: "('s \<Rightarrow> u64 \<times> 's) \<Rightarrow> nat \<Rightarrow> 's \<Rightarrow> u64 list \<times> 's" where
  "alloc_n alloc 0 s = ([], s)"
| "alloc_n alloc (Suc n) s =
     (let (p, s) = alloc s; (ps, s) = alloc_n alloc n s in (p # ps, s))"

text \<open>
  \<open>ok\<close> is the allocator's invariant, \<open>free_set\<close> the pages it can hand out and \<open>valid\<close> the addresses
  that may be given to it; address 0 stands for failure.
\<close>

locale page_allocator =
  fixes alloc :: "'s \<Rightarrow> u64 \<times> 's"
    and free :: "u64 \<Rightarrow> 's \<Rightarrow> 's"
    and ok :: "'s \<Rightarrow> bool"
    and valid :: "'s \<Rightarrow> u64 \<Rightarrow> bool"
    and free_set :: "'s \<Rightarrow> u64 set"
  assumes free_set_finite: "finite (free_set s)"
    and free_set_valid: "ok s \<Longrightarrow> p \<in> free_set s \<Longrightarrow> valid s p \<and> p \<noteq> 0"
    and alloc_page: "ok s \<Longrightarrow> free_set s \<noteq> {} \<Longrightarrow> alloc s = (p, t) \<Longrightarrow>
      p \<in> free_set s \<and> ok t \<and> free_set t = free_set s - {p} \<and> valid t = valid s"
    and alloc_empty: "ok s \<Longrightarrow> free_set s = {} \<Longrightarrow> alloc s = (p, t) \<Longrightarrow>
      p = 0 \<and> ok t \<and> free_set t = {} \<and> valid t = valid s"
    and free_page: "ok s \<Longrightarrow> valid s p \<Longrightarrow> p \<noteq> 0 \<Longrightarrow> p \<notin> free_set s \<Longrightarrow>
      ok (free p s) \<and> free_set (free p s) = insert p (free_set s) \<and> valid (free p s) = valid s"
begin

lemma alloc_n_pages:
  "ok s \<Longrightarrow> n \<le> card (free_set s) \<Longrightarrow> alloc_n alloc n s = (ps, t) \<Longrightarrow>
   length ps = n \<and> distinct ps \<and> set ps \<subseteq> free_set s \<and> ok t \<and> free_set t = free_set s - set ps \<and>
   valid t = valid s"
proof (induction n arbitrary: s ps t)
  case 0
  then show ?case by simp
next
  case (Suc n)
  obtain p u where a: "alloc s = (p, u)" by fastforce
  obtain qs where q: "alloc_n alloc n u = (qs, t)" "ps = p # qs"
    using Suc.prems(3) a by (auto split: prod.splits)
  have "free_set s \<noteq> {}" using Suc.prems(2) by auto
  note p = alloc_page [OF Suc.prems(1) this a]
  then have "n \<le> card (free_set u)" using Suc.prems(2) free_set_finite [of s] by simp
  with Suc.IH [OF _ this q(1)] p q(2) show ?case by auto
qed

lemma alloc_n_exhausts:
  "ok s \<Longrightarrow> alloc_n alloc (card (free_set s)) s = (ps, t) \<Longrightarrow> set ps = free_set s \<and> fst (alloc t) = 0"
proof -
  assume s: "ok s" and a: "alloc_n alloc (card (free_set s)) s = (ps, t)"
  note r = alloc_n_pages [OF s order_refl a]
  then have "set ps = free_set s"
    using free_set_finite [of s] by (metis card_subset_eq distinct_card)
  then show ?thesis using r alloc_empty [of t "fst (alloc t)" "snd (alloc t)"] by auto
qed

lemma free_all:
  "ok s \<Longrightarrow> distinct ps \<Longrightarrow> (\<forall>p \<in> set ps. valid s p \<and> p \<noteq> 0 \<and> p \<notin> free_set s) \<Longrightarrow>
   ok (fold free ps s) \<and> free_set (fold free ps s) = free_set s \<union> set ps"
proof (induction ps arbitrary: s)
  case Nil
  then show ?case by simp
next
  case (Cons p ps)
  then have f: "ok (free p s)" "free_set (free p s) = insert p (free_set s)" "valid (free p s) = valid s"
    using free_page [of s p] by auto
  have "\<forall>q \<in> set ps. valid (free p s) q \<and> q \<noteq> 0 \<and> q \<notin> free_set (free p s)"
    using Cons.prems f by auto
  from Cons.IH [OF f(1) _ this] Cons.prems(2) f(2) show ?case by auto
qed

lemma alloc_free_restores:
  assumes s: "ok s" "n \<le> card (free_set s)" and a: "alloc_n alloc n s = (ps, t)"
  shows "ok (fold free ps t) \<and> free_set (fold free ps t) = free_set s"
proof -
  note r = alloc_n_pages [OF s a]
  then have "\<forall>p \<in> set ps. valid t p \<and> p \<noteq> 0 \<and> p \<notin> free_set t"
    using free_set_valid [OF s(1)] by auto
  then show ?thesis using free_all [of t ps] r by auto
qed

end

section \<open>Page maps\<close>

text \<open>
  A map from virtual pages to entries with the operations \<open>put\<close> (which may find no memory) and \<open>del\<close>.
  \<open>key\<close> is the page of an address, \<open>covers\<close> the addresses that the map is about.
\<close>

fun put_all :: "('a \<Rightarrow> 'b \<Rightarrow> 's \<Rightarrow> 's option) \<Rightarrow> ('a \<times> 'b) list \<Rightarrow> 's \<Rightarrow> 's option" where
  "put_all put [] s = Some s"
| "put_all put ((v, p) # ms) s = (case put v p s of None \<Rightarrow> None | Some t \<Rightarrow> put_all put ms t)"

locale page_map =
  fixes ok :: "'s \<Rightarrow> bool"
    and covers :: "u64 \<Rightarrow> bool"
    and key :: "u64 \<Rightarrow> u64"
    and lookup :: "'s \<Rightarrow> u64 \<Rightarrow> u64 option"
    and entry :: "u64 \<Rightarrow> u64"
    and put :: "u64 \<Rightarrow> u64 \<Rightarrow> 's \<Rightarrow> 's option"
    and del :: "u64 \<Rightarrow> 's \<Rightarrow> 's"
  assumes put_ok: "ok s \<Longrightarrow> covers v \<Longrightarrow> put v p s = Some t \<Longrightarrow> ok t"
    and put_lookup: "ok s \<Longrightarrow> covers v \<Longrightarrow> covers w \<Longrightarrow> put v p s = Some t \<Longrightarrow>
      lookup t w = (if key w = key v then Some (entry p) else lookup s w)"
    and del_ok: "ok s \<Longrightarrow> covers v \<Longrightarrow> ok (del v s)"
    and del_lookup: "ok s \<Longrightarrow> covers v \<Longrightarrow> covers w \<Longrightarrow>
      lookup (del v s) w = (if key w = key v then None else lookup s w)"
begin

lemma put_all_ok: "ok s \<Longrightarrow> \<forall>m \<in> set ms. covers (fst m) \<Longrightarrow> put_all put ms s = Some t \<Longrightarrow> ok t"
proof (induction ms arbitrary: s)
  case (Cons m ms)
  obtain v p where m: "m = (v, p)" by fastforce
  then obtain u where u: "put v p s = Some u" "put_all put ms u = Some t"
    using Cons.prems(3) by (auto split: option.splits)
  have "ok u" using put_ok [OF Cons.prems(1) _ u(1)] Cons.prems(2) m by auto
  then show ?case using Cons.IH [OF _ _ u(2)] Cons.prems(2) by auto
qed simp

lemma put_all_lookup:
  "ok s \<Longrightarrow> \<forall>m \<in> set ms. covers (fst m) \<Longrightarrow> covers w \<Longrightarrow> put_all put ms s = Some t \<Longrightarrow>
   lookup t w = (case map_of (rev (map (\<lambda>(v, p). (key v, entry p)) ms)) (key w) of
                   Some e \<Rightarrow> Some e | None \<Rightarrow> lookup s w)"
proof (induction ms arbitrary: s)
  case Nil
  then show ?case by simp
next
  case (Cons m ms)
  obtain v p where m: "m = (v, p)" by fastforce
  then obtain u where u: "put v p s = Some u" "put_all put ms u = Some t"
    using Cons.prems(4) by (auto split: option.splits)
  have "covers v" using Cons.prems(2) m by auto
  then have "ok u" "lookup u w = (if key w = key v then Some (entry p) else lookup s w)"
    using Cons.prems u put_ok put_lookup by auto
  with Cons.IH [OF _ _ _ u(2)] Cons.prems(2,3) show ?case
    by (auto simp: m map_add_def split: option.splits)
qed

lemma fold_del_ok: "ok s \<Longrightarrow> \<forall>v \<in> set vs. covers v \<Longrightarrow> ok (fold del vs s)"
  by (induction vs arbitrary: s) (auto intro: del_ok)

lemma fold_del_lookup:
  "ok s \<Longrightarrow> \<forall>v \<in> set vs. covers v \<Longrightarrow> covers w \<Longrightarrow>
   lookup (fold del vs s) w = (if key w \<in> key ` set vs then None else lookup s w)"
  by (induction vs arbitrary: s) (auto simp: del_ok del_lookup)

lemma put_del_lookup:
  assumes "ok s" "\<forall>m \<in> set ms. covers (fst m)" "put_all put ms s = Some t" "covers w"
    "\<forall>m \<in> set ms. lookup s (fst m) = None" "\<And>v. covers v \<Longrightarrow> key v = key w \<Longrightarrow> lookup s v = lookup s w"
  shows "lookup (fold del (map fst ms) t) w = lookup s w"
proof (cases "key w \<in> key ` set (map fst ms)")
  case True
  then obtain v p where v: "(v, p) \<in> set ms" "key v = key w" by auto
  have "covers v" "lookup s v = None" using v(1) assms(2,5) by fastforce+
  then have "lookup s w = None" using assms(6) [of v] v(2) by simp
  then show ?thesis using fold_del_lookup [of t "map fst ms" w] put_all_ok [OF assms(1-3)] assms(2,4) True by auto
next
  case False
  then have "map_of (rev (map (\<lambda>(v, p). (key v, entry p)) ms)) (key w) = None"
    by (force simp: map_of_eq_None_iff)
  then show ?thesis
    using False fold_del_lookup [of t "map fst ms" w] put_all_ok [OF assms(1-3)] put_all_lookup [OF assms(1,2,4,3)] assms(2,4)
    by auto
qed

end

end
