(* ===== verification/Pmm_Contract.thy ===== *)
theory Pmm_Contract
  imports Pmm_Runs Interfaces
begin

text \<open>
  The physical page allocator meets the contract \<open>page_allocator\<close>, and the properties of
  \<^verbatim>\<open>src/src/kernel/mm/pmm.c\<close>.
\<close>


section \<open>The allocator meets its contract\<close>

definition pmm_ok :: "'a pmm_scheme \<Rightarrow> bool" where
  "pmm_ok s \<longleftrightarrow> (\<exists>F. pmm_inv s F \<and> 0 \<notin> set (F 0))"

definition pmm_free_set :: "'a pmm_scheme \<Rightarrow> u64 set" where
  "pmm_free_set s = {p. \<exists>F. pmm_inv s F \<and> p \<in> set (F (pmm_addr_to_zone p))}"

definition pmm_valid :: "'a pmm_scheme \<Rightarrow> u64 \<Rightarrow> bool" where
  "pmm_valid s p \<longleftrightarrow> IS_PAGE_ALIGNED p \<and> PHYS_TO_VIRT s p \<noteq> 0"

lemma pmm_free_set_iff:
  assumes "pmm_inv s F"
  shows "p \<in> pmm_free_set s \<longleftrightarrow> (\<exists>i < 3. p \<in> set (F i))"
proof -
  have "i = pmm_addr_to_zone p" if "i < 3" "p \<in> set (F i)" for i
    using assms that by (auto simp: pmm_inv_def zone_inv_def)
  moreover have "G (pmm_addr_to_zone p) = F (pmm_addr_to_zone p)" if "pmm_inv s G" for G
    using pmm_inv_unique [OF that assms] pmm_addr_to_zone_less by blast
  ultimately show ?thesis
    unfolding pmm_free_set_def mem_Collect_eq using assms pmm_addr_to_zone_less by metis
qed

lemma pmm_free_set_zones: "pmm_inv s F \<Longrightarrow> pmm_free_set s = (\<Union>i \<in> {..<3}. set (F i))"
  using pmm_free_set_iff by auto

lemma pmm_free_set_split:
  "pmm_inv s F \<Longrightarrow> i < 3 \<Longrightarrow> pmm_free_set s = set (F i) \<union> (\<Union>j \<in> {..<3} - {i}. set (F j))"
  using pmm_free_set_zones by auto

lemma pmm_valid_cong: "hhdm_offset t = hhdm_offset s \<Longrightarrow> pmm_valid t = pmm_valid s"
  by (simp add: pmm_valid_def fun_eq_iff PHYS_TO_VIRT_cong [of t s])

lemma pmm_ok_zone:
  "pmm_inv s F \<Longrightarrow> 0 \<notin> set (F 0) \<Longrightarrow> i < 3 \<Longrightarrow> 0 \<notin> set (F i)"
proof
  assume a: "pmm_inv s F" "0 \<notin> set (F 0)" "i < 3" "0 \<in> set (F i)"
  then have "zone_inv s i (F i)" by (simp add: pmm_inv_def)
  then have "i = 0" using a(4) by (auto simp: zone_inv_def pmm_addr_to_zone_def)
  then show False using a by simp
qed

lemma pmm_free_page_frame:
  "hhdm_offset (pmm_free_page p s) = hhdm_offset s"
  by (simp add: pmm_free_page_def Let_def)

lemma pmm_alloc_page_contract:
  assumes "pmm_ok s" and al: "pmm_alloc_page s = (p, t)"
  shows "pmm_ok t \<and> pmm_valid t = pmm_valid s \<and> pmm_free_set t = pmm_free_set s - {p} \<and>
         (if pmm_free_set s = {} then p = 0 else p \<in> pmm_free_set s)"
proof -
  obtain F where F: "pmm_inv s F" "0 \<notin> set (F 0)" using assms by (auto simp: pmm_ok_def)
  from pmm_alloc_page_spec [OF F al] show ?thesis
  proof (elim disjE conjE exE)
    assume "p = 0" "\<forall>i < 3. F i = []" and t: "pmm_inv t F" "hhdm_offset t = hhdm_offset s"
    moreover have "pmm_ok t" unfolding pmm_ok_def using t(1) F(2) by blast
    ultimately show ?thesis
      using pmm_free_set_zones [OF F(1)] pmm_free_set_zones [OF t(1)] pmm_valid_cong [OF t(2)] by simp
  next
    fix i qs
    assume i: "i < 3" "F i = p # qs" and t: "pmm_inv t (F(i := qs))" "hhdm_offset t = hhdm_offset s"
    have zi: "zone_inv s i (p # qs)" using F(1) i by (auto simp: pmm_inv_def)
    have "p \<notin> set qs" using zone_inv_distinct [OF zi] by simp
    moreover have "p \<notin> set (F j)" if "j < 3" "j \<noteq> i" for j
    proof -
      have "zone_inv s j (F j)" using F(1) that by (simp add: pmm_inv_def)
      then show ?thesis using zone_inv_disjoint [OF zi, of j "F j" p] that by auto
    qed
    ultimately have "pmm_free_set t = pmm_free_set s - {p}"
      using i by (auto simp: pmm_free_set_split [OF t(1) i(1)] pmm_free_set_split [OF F(1) i(1)])
    moreover have "p \<in> pmm_free_set s" using i by (auto simp: pmm_free_set_split [OF F(1) i(1)])
    moreover have "pmm_ok t"
      unfolding pmm_ok_def using t(1) F(2) i(2) by (intro exI [of _ "F(i := qs)"]) auto
    ultimately show ?thesis using pmm_valid_cong [OF t(2)] by auto
  qed
qed

lemma pmm_free_page_contract:
  assumes "pmm_ok s" and p: "pmm_valid s p" "p \<noteq> 0" "p \<notin> pmm_free_set s"
  shows "pmm_ok (pmm_free_page p s) \<and> pmm_free_set (pmm_free_page p s) = insert p (pmm_free_set s) \<and>
         pmm_valid (pmm_free_page p s) = pmm_valid s"
proof -
  let ?i = "pmm_addr_to_zone p"
  obtain F where F: "pmm_inv s F" "0 \<notin> set (F 0)" using assms by (auto simp: pmm_ok_def)
  have i: "?i < 3" by (rule pmm_addr_to_zone_less)
  then have "p \<notin> set (F ?i)" using p(3) by (auto simp: pmm_free_set_zones [OF F(1)])
  then have t: "pmm_inv (pmm_free_page p s) (F(?i := p # F ?i))"
    using p by (intro pmm_free_page_push [OF F(1)]) (auto simp: pmm_valid_def)
  then have "pmm_ok (pmm_free_page p s)"
    unfolding pmm_ok_def using p(2) F(2) by (intro exI [of _ "F(?i := p # F ?i)"]) auto
  moreover have "pmm_free_set (pmm_free_page p s) = insert p (pmm_free_set s)"
    using i by (auto simp: pmm_free_set_split [OF t i] pmm_free_set_split [OF F(1) i])
  ultimately show ?thesis using pmm_valid_cong [OF pmm_free_page_frame] by blast
qed

interpretation pa: page_allocator pmm_alloc_page pmm_free_page pmm_ok pmm_valid pmm_free_set
proof unfold_locales
  fix s :: "'a pmm_scheme" and t :: "'a pmm_scheme" and p
  show "finite (pmm_free_set s)" by simp
  show "pmm_valid s p \<and> p \<noteq> 0" if ok: "pmm_ok s" and p: "p \<in> pmm_free_set s"
  proof -
    obtain F where F: "pmm_inv s F" "0 \<notin> set (F 0)" using ok by (auto simp: pmm_ok_def)
    then obtain i where i: "i < 3" "p \<in> set (F i)" using p by (auto simp: pmm_free_set_zones [OF F(1)])
    then have "zone_inv s i (F i)" using F by (simp add: pmm_inv_def)
    then show ?thesis
      using i pmm_ok_zone [OF F i(1)] chain_nonnull [of "mem s" _ "map (PHYS_TO_VIRT s) (F i)"]
      by (force simp: pmm_valid_def zone_inv_def)
  qed
  show "p \<in> pmm_free_set s \<and> pmm_ok t \<and> pmm_free_set t = pmm_free_set s - {p} \<and> pmm_valid t = pmm_valid s"
    if "pmm_ok s" "pmm_free_set s \<noteq> {}" "pmm_alloc_page s = (p, t)"
    using pmm_alloc_page_contract [OF that(1,3)] that(2) by simp
  show "p = 0 \<and> pmm_ok t \<and> pmm_free_set t = {} \<and> pmm_valid t = pmm_valid s"
    if "pmm_ok s" "pmm_free_set s = {}" "pmm_alloc_page s = (p, t)"
    using pmm_alloc_page_contract [OF that(1,3)] that(2) by simp
  show "pmm_ok (pmm_free_page p s) \<and> pmm_free_set (pmm_free_page p s) = insert p (pmm_free_set s) \<and>
      pmm_valid (pmm_free_page p s) = pmm_valid s"
    if "pmm_ok s" "pmm_valid s p" "p \<noteq> 0" "p \<notin> pmm_free_set s"
    using pmm_free_page_contract [OF that] .
qed

section \<open>Properties\<close>

definition zone0 :: pmm_zone where
  "zone0 = \<lparr>z_name = [], start_addr = 0, end_addr = 0, total_pages = 0, free_pages = 0, free_stack = 0,
     watermark_min = 0, watermark_low = 0, watermark_high = 0,
     z_stats = \<lparr>alloc_count = 0, free_count = 0, alloc_failed = 0\<rparr>\<rparr>"

definition pmm0 :: pmm where
  "pmm0 = \<lparr>mem = (\<lambda>_. 0), hhdm_offset = 0, zones = replicate 3 zone0,
     total_memory_bytes = 0, usable_memory_bytes = 0\<rparr>"

definition memmap0 :: "limine_memmap_entry list" where
  "memmap0 = [\<lparr>e_base = 0x1000, e_length = 0x3800, e_type = 0\<rparr>, \<lparr>e_base = 0x5000, e_length = 0x2000, e_type = 1\<rparr>]"

abbreviation (input) hhdm0 :: u64 where "hhdm0 \<equiv> 0xffff800000000000"

lemma memmap0_ok: "memmap_ok hhdm0 memmap0" "length (zones pmm0) = 3" "IS_PAGE_ALIGNED hhdm0"
  by (simp_all add: memmap_ok_def memmap0_def pmm0_def IS_PAGE_ALIGNED_def)

lemma memmap0_pages: "concat (map entry_pages memmap0) = [0x1000, 0x2000, 0x3000]"
  by (simp add: memmap0_def entry_pages_def region_pages_def PAGE_ALIGN_UP_def PAGE_ALIGN_DOWN_def upt_rec)

text \<open>C1. After \<^verbatim>\<open>pmm_init\<close> on a well-formed memory map the allocator invariant holds, no page is on a free list twice, and the free pages are exactly the page-aligned frames that lie wholly inside a usable region.\<close>

lemma pmm_init_free_pages:
  assumes "length (zones s) = 3" and "IS_PAGE_ALIGNED offset" and "offset \<noteq> 0"
    and ok: "memmap_ok offset es"
  shows "\<exists>t F. pmm_init (Some offset) (Some es) s = Inr t \<and> pmm_inv t F \<and>
    (\<forall>i < 3. distinct (F i)) \<and>
    (\<forall>p. p \<in> pmm_free_set t \<longleftrightarrow>
       (\<exists>e \<in> set es. e_type e = LIMINE_MEMMAP_USABLE \<and> page_in_region (e_base e) (e_length e) p))"
proof -
  let ?F = "add_free (concat (map entry_pages es)) (\<lambda>_. [])"
  obtain t where t: "pmm_init (Some offset) (Some es) s = Inr t" "pmm_inv t ?F"
    using pmm_init_inv [OF assms] by blast
  have "p \<in> pmm_free_set t \<longleftrightarrow> p \<in> set (concat (map entry_pages es))" for p
    using pmm_addr_to_zone_less by (auto simp: pmm_free_set_iff [OF t(2)] add_free_def)
  moreover have "distinct (?F i)" for i
    using memmap_pages_distinct [OF ok] by (simp add: add_free_def)
  ultimately show ?thesis
    using t entry_pages_iff [OF ok] by (intro exI [of _ t] exI [of _ ?F]) auto
qed

lemma pmm_init_free_pages_witness:
  "\<exists>t F. pmm_init (Some hhdm0) (Some memmap0) pmm0 = Inr t \<and> pmm_inv t F \<and>
    (\<forall>i < 3. distinct (F i)) \<and>
    (\<forall>p. p \<in> pmm_free_set t \<longleftrightarrow>
       (\<exists>e \<in> set memmap0. e_type e = LIMINE_MEMMAP_USABLE \<and> page_in_region (e_base e) (e_length e) p))"
  using pmm_init_free_pages [OF memmap0_ok(2,3) _ memmap0_ok(1)] by simp


definition boot0 :: pmm where
  "boot0 = (case pmm_init (Some hhdm0) (Some memmap0) pmm0 of Inr t \<Rightarrow> t | Inl _ \<Rightarrow> pmm0)"

definition boot0_free :: "nat \<Rightarrow> u64 list" where
  "boot0_free = (\<lambda>_. [])(0 := [0x3000, 0x2000, 0x1000])"

lemma boot0_inv: "pmm_init (Some hhdm0) (Some memmap0) pmm0 = Inr boot0" "pmm_inv boot0 boot0_free"
proof -
  obtain t where t: "pmm_init (Some hhdm0) (Some memmap0) pmm0 = Inr t"
    "pmm_inv t (add_free (concat (map entry_pages memmap0)) (\<lambda>_. []))"
    using pmm_init_inv [OF memmap0_ok(2,3) _ memmap0_ok(1)] by auto
  moreover have "add_free (concat (map entry_pages memmap0)) (\<lambda>_. []) = boot0_free"
    unfolding memmap0_pages by (auto simp: add_free_def boot0_free_def pmm_addr_to_zone_def fun_eq_iff)
  ultimately show "pmm_init (Some hhdm0) (Some memmap0) pmm0 = Inr boot0" "pmm_inv boot0 boot0_free"
    by (simp_all add: boot0_def)
qed

lemma boot0_ok: "pmm_ok boot0" "0 \<notin> set (boot0_free 0)" "pmm_free_set boot0 = {0x1000, 0x2000, 0x3000}"
proof -
  show z: "0 \<notin> set (boot0_free 0)" by (simp add: boot0_free_def)
  then show "pmm_ok boot0" using boot0_inv(2) by (auto simp: pmm_ok_def)
  show "pmm_free_set boot0 = {0x1000, 0x2000, 0x3000}"
    unfolding pmm_free_set_split [OF boot0_inv(2), of 0, simplified] by (auto simp: boot0_free_def)
qed

lemma hhdm_add_pages:
  "hhdm_offset (fold (\<lambda>p. pmm_add_page_to_zone (pmm_addr_to_zone p) p) ps s) = hhdm_offset s"
  by (induction ps arbitrary: s) (simp_all add: pmm_add_page_to_zone_def Let_def)

lemma hhdm_init_entries: "hhdm_offset (fold pmm_init_entry es s) = hhdm_offset s"
  by (induction es arbitrary: s) (simp_all add: pmm_init_entry_def pmm_add_region_eq hhdm_add_pages Let_def)

lemma pmm_init_hhdm: "pmm_init (Some offset) (Some es) s = Inr t \<Longrightarrow> hhdm_offset t = offset"
  by (auto simp: pmm_init_def Let_def upt_rec hhdm_init_entries)

text \<open>C3. \<^verbatim>\<open>pmm_alloc_page\<close> pops the top page of the highest zone that has one, keeps the invariant for the remaining lists, clears that page and changes no other word of memory.\<close>

lemma pmm_alloc_page_clears:
  assumes "pmm_inv s F" and "0 \<notin> set (F 0)" and "pmm_alloc_page s = (p, t)" and "p \<noteq> 0"
  shows "\<exists>i < 3. \<exists>qs. F i = p # qs \<and> (\<forall>j. i < j \<and> j < 3 \<longrightarrow> F j = []) \<and> pmm_inv t (F(i := qs)) \<and>
     (\<forall>x. mem t x = (if x - PHYS_TO_VIRT s p < PAGE_SIZE then 0 else mem s x))"
  using pmm_alloc_page_spec [OF assms(1-3)] assms(4) by (auto simp: memset_page_def)

lemma pmm_alloc_page_clears_witness:
  "\<exists>t. pmm_alloc_page boot0 = (0x3000, t) \<and> (\<forall>x. mem t x =
     (if x - PHYS_TO_VIRT boot0 0x3000 < PAGE_SIZE then 0 else mem boot0 x))"
proof -
  obtain p t where a: "pmm_alloc_page boot0 = (p, t)" by fastforce
  have "p \<in> pmm_free_set boot0" using pa.alloc_page [OF boot0_ok(1) _ a] boot0_ok(3) by blast
  then have "p \<noteq> 0" using pa.free_set_valid [OF boot0_ok(1)] by blast
  then obtain i qs where "boot0_free i = p # qs"
    and m: "\<forall>x. mem t x = (if x - PHYS_TO_VIRT boot0 p < PAGE_SIZE then 0 else mem boot0 x)"
    using pmm_alloc_page_clears [OF boot0_inv(2) boot0_ok(2) a] by blast
  then have "p = 0x3000" by (simp add: boot0_free_def split: if_splits)
  then show ?thesis using a m by blast
qed

text \<open>C2. Successive calls of \<^verbatim>\<open>pmm_alloc_page\<close> return pairwise distinct free pages as long as there are free pages, and giving them all back with \<^verbatim>\<open>pmm_free_page\<close> restores the set of free pages.\<close>

lemma pmm_alloc_n_distinct:
  assumes "pmm_ok s" and "n \<le> card (pmm_free_set s)" and "alloc_n pmm_alloc_page n s = (ps, t)"
  shows "length ps = n \<and> distinct ps \<and> set ps \<subseteq> pmm_free_set s \<and> pmm_free_set t = pmm_free_set s - set ps \<and>
     pmm_ok (fold pmm_free_page ps t) \<and> pmm_free_set (fold pmm_free_page ps t) = pmm_free_set s"
  using pa.alloc_n_pages [OF assms] pa.alloc_free_restores [OF assms] by simp

lemma pmm_alloc_n_distinct_witness:
  "\<exists>ps t. alloc_n pmm_alloc_page 2 boot0 = (ps, t) \<and> length ps = 2 \<and> distinct ps \<and>
     set ps \<subseteq> {0x1000, 0x2000, 0x3000} \<and> pmm_free_set (fold pmm_free_page ps t) = {0x1000, 0x2000, 0x3000}"
proof -
  obtain ps t where a: "alloc_n pmm_alloc_page 2 boot0 = (ps, t)" by fastforce
  then show ?thesis
    using pmm_alloc_n_distinct [OF boot0_ok(1) _ a] by (simp add: boot0_ok(3))
qed

text \<open>C6. A page given to \<^verbatim>\<open>pmm_free_page\<close> is the next page that \<^verbatim>\<open>pmm_alloc_page_zone\<close> returns from its zone, and the free lists are then as before.\<close>

lemma pmm_free_alloc_zone:
  assumes "pmm_inv s F" and "IS_PAGE_ALIGNED p" and "p \<noteq> 0" and "PHYS_TO_VIRT s p \<noteq> 0"
    and "p \<notin> set (F (pmm_addr_to_zone p))"
  shows "\<exists>t. pmm_alloc_page_zone (int (pmm_addr_to_zone p)) (pmm_free_page p s) = (p, t) \<and> pmm_inv t F"
proof -
  let ?i = "pmm_addr_to_zone p"
  obtain q t where a: "pmm_alloc_page_zone (int ?i) (pmm_free_page p s) = (q, t)" by fastforce
  have inv: "pmm_inv (pmm_free_page p s) (F(?i := p # F ?i))"
    by (rule pmm_free_page_push) (use assms in auto)
  have "q = p \<and> pmm_inv t ((F(?i := p # F ?i))(nat (int ?i) := F ?i))"
    using pmm_alloc_page_zone_pop [OF inv _ _ _ a, of p "F ?i"] pmm_addr_to_zone_less [of p] by simp
  then show ?thesis using a by simp
qed

text \<open>C7. The watermarks lie between 128 and 1024 pages, low and high are two and three times the minimum without wrap-around, and the minimum is a 128th of the zone when that is in range.\<close>

lemma pmm_calculate_watermarks_bounds:
  "let z' = pmm_calculate_watermarks z in
     128 \<le> unat (watermark_min z') \<and> unat (watermark_min z') \<le> 1024 \<and>
     unat (watermark_low z') = 2 * unat (watermark_min z') \<and>
     unat (watermark_high z') = 3 * unat (watermark_min z') \<and>
     (16384 \<le> unat (total_pages z) \<and> unat (total_pages z) \<le> 131072 \<longrightarrow>
        unat (watermark_min z') = unat (total_pages z) div 128)"
proof -
  have m: "unat (w * 2) = 2 * unat w" "unat (w * 3) = 3 * unat w" if "w \<le> 1024" for w :: u64
    using that by (simp_all add: unat_word_ariths word_le_nat_alt)
  have d: "unat (total_pages z div 128) = unat (total_pages z) div 128" by (simp add: unat_div)
  show ?thesis
    using m [of "watermark_min (pmm_calculate_watermarks z)"] d
    by (auto simp: pmm_calculate_watermarks_def Let_def word_less_nat_alt word_le_nat_alt)
qed


lemma boot0_hhdm: "hhdm_offset boot0 = hhdm0"
  using pmm_init_hhdm [OF boot0_inv(1)] .

lemma pmm_free_alloc_zone_witness:
  "\<exists>t. pmm_alloc_page_zone 0 (pmm_free_page 0x5000 boot0) = (0x5000, t) \<and> pmm_inv t boot0_free"
  using pmm_free_alloc_zone [OF boot0_inv(2), of "0x5000"]
  by (simp add: IS_PAGE_ALIGNED_def PHYS_TO_VIRT_def boot0_hhdm pmm_addr_to_zone_def boot0_free_def)

lemma pmm_calculate_watermarks_bounds_witness:
  "watermark_min (pmm_calculate_watermarks (zone0\<lparr>total_pages := 32768\<rparr>)) = 256 \<and>
   128 \<le> unat (watermark_min (pmm_calculate_watermarks (zone0\<lparr>total_pages := 32768\<rparr>)))"
  using pmm_calculate_watermarks_bounds [of "zone0\<lparr>total_pages := 32768\<rparr>"]
  by (simp add: Let_def word_unat_eq_iff)

text \<open>C4. A request of \<^verbatim>\<open>pmm_alloc_pages\<close> for two or more pages always returns or faults: with too few free pages it fails and changes no memory; otherwise it either dereferences NULL or returns the first page of a run of consecutive free pages, which are removed from the free list and cleared.\<close>

lemma pmm_alloc_pages_outcome:
  assumes "pmm_inv s F" and "0 \<le> z" and "z < 3" and "2 \<le> count"
  shows "if length (F (nat z)) < unat count
    then \<exists>t. pmm_alloc_pages count z s = Some (Inr (0, t)) \<and> pmm_inv t F \<and> mem t = mem s
    else pmm_alloc_pages count z s = Some (Inl Null_Deref) \<or>
      (\<exists>p t pre post. pmm_alloc_pages count z s = Some (Inr (p, t)) \<and>
         F (nat z) = pre @ run_pages p (unat count) @ post \<and>
         run_allocated s (nat z) F p (unat count) (pre @ post) t)"
proof (cases "length (F (nat z)) < unat count")
  case True
  then show ?thesis
    using pmm_alloc_pages_few [OF assms] assms(1) by (simp add: pmm_inv_count) (simp add: count_failure_def)
next
  case False
  then have "F (nat z) \<noteq> []" using assms(4) by (auto simp: word_le_nat_alt)
  with False pmm_alloc_pages_search [OF assms] show ?thesis
    using find_run_not_none [of "F (nat z)" "unat count" "[]"] find_run_found [of "unat count" "[]" "F (nat z)"]
    by (cases "find_run (unat count) [] (F (nat z))") fastforce+
qed

definition boot1 :: pmm where
  "boot1 = pmm_free_page 0x5000 (pmm_free_page 0x6000 boot0)"

definition boot1_free :: "nat \<Rightarrow> u64 list" where
  "boot1_free = (\<lambda>_. [])(0 := [0x5000, 0x6000, 0x3000, 0x2000, 0x1000])"

lemma boot1_inv: "pmm_inv boot1 boot1_free"
proof -
  have "pmm_inv (pmm_free_page 0x6000 boot0) (boot0_free(0 := [0x6000, 0x3000, 0x2000, 0x1000]))"
    using pmm_free_page_push [OF boot0_inv(2), of "0x6000"]
    by (simp add: IS_PAGE_ALIGNED_def PHYS_TO_VIRT_def boot0_hhdm pmm_addr_to_zone_def boot0_free_def)
  from pmm_free_page_push [OF this, of "0x5000"] show ?thesis
    by (simp add: IS_PAGE_ALIGNED_def PHYS_TO_VIRT_def boot0_hhdm pmm_addr_to_zone_def boot0_free_def
        boot1_def boot1_free_def pmm_free_page_frame)
qed

lemma boot1_run: "find_run 2 [] (boot1_free 0) = Run_Found 0x5000 [0x3000, 0x2000, 0x1000]"
  by (simp add: boot1_free_def ascends_def less_Suc_eq numeral_2_eq_2)

lemma pmm_alloc_pages_outcome_witness:
  "\<exists>t. pmm_alloc_pages 2 0 boot1 = Some (Inr (0x5000, t)) \<and>
     (\<exists>pre post. boot1_free 0 = pre @ run_pages 0x5000 2 @ post \<and>
        run_allocated boot1 0 boot1_free 0x5000 2 (pre @ post) t)"
proof -
  have l: "length (boot1_free 0) = 5" by (simp add: boot1_free_def)
  obtain t where t: "pmm_alloc_pages 2 0 boot1 = Some (Inr (0x5000, t))"
    using pmm_alloc_pages_search [OF boot1_inv, of 0 2] by (auto simp: l boot1_run)
  then show ?thesis
    using pmm_alloc_pages_outcome [OF boot1_inv, of 0 2] by (auto simp: l)
qed

text \<open>C5. On the free stacks that \<^verbatim>\<open>pmm_init\<close> builds, every request for two or more contiguous pages that passes the free-page check dereferences NULL: the stacks descend and the end of the stack counts as contiguous.\<close>

lemma pmm_alloc_pages_faults_after_boot:
  assumes "length (zones s) = 3" and "IS_PAGE_ALIGNED offset" and "offset \<noteq> 0"
    and ok: "memmap_ok offset es" and i: "pmm_init (Some offset) (Some es) s = Inr t"
    and z: "0 \<le> z" "z < 3" and c: "2 \<le> count" and enough: "count \<le> free_pages (zones t ! nat z)"
  shows "pmm_alloc_pages count z t = Some (Inl Null_Deref)"
proof -
  let ?F = "add_free (concat (map entry_pages es)) (\<lambda>_. [])"
  have inv: "pmm_inv t ?F" using pmm_init_inv [OF assms(1-4)] i by auto
  then have "zone_inv t (nat z) (?F (nat z))" using z by (simp add: pmm_inv_def)
  then have e: "unat count \<le> length (?F (nat z))" using enough by (simp add: zone_inv_def word_le_nat_alt)
  then have "?F (nat z) \<noteq> []" "2 \<le> unat count" using c by (auto simp: word_le_nat_alt)
  then have "find_run (unat count) [] (?F (nat z)) = Run_Fault"
    using boot_stack_descends [OF ok] by (intro find_run_descending)
  then show ?thesis using pmm_alloc_pages_search [OF inv z c e] by simp
qed

lemma pmm_alloc_pages_faults_after_boot_witness: "pmm_alloc_pages 2 0 boot0 = Some (Inl Null_Deref)"
proof -
  have "zone_inv boot0 0 (boot0_free 0)" using boot0_inv(2) by (simp add: pmm_inv_def)
  then have "2 \<le> free_pages (zones boot0 ! nat 0)"
    by (simp add: zone_inv_def boot0_free_def word_le_nat_alt)
  then show ?thesis
    using pmm_alloc_pages_faults_after_boot [OF memmap0_ok(2,3) _ memmap0_ok(1) boot0_inv(1), of 0 2] by simp
qed

end
