(* ===== verification/Mmu.thy ===== *)
theory Mmu
  imports Pmm_Contract
begin

text \<open>
  Page tables and address spaces, \<^verbatim>\<open>src/src/kernel/mm/mmu.c\<close> with the entry format of
  \<^verbatim>\<open>src/src/include/arch/x86_64/mmu.h\<close>.

  Page tables live in the memory of the physical allocator: entry \<open>i\<close> of the table at virtual
  address \<open>t\<close> is the word at \<open>t + 8 * i\<close>, and tables are taken from \<^verbatim>\<open>pmm_alloc_page\<close>.  Contexts
  (\<^verbatim>\<open>struct mmu_context\<close>) are a store from context pointers to records, with \<open>kernel_ctx\<close> the
  address of the static kernel context.  The processor state that the assembly helpers touch is
  \<open>cr3\<close> and the set \<open>tlb\<close> of pages that may be cached, each with its global flag: \<^verbatim>\<open>invlpg\<close>
  drops a page, a reload of \<^verbatim>\<open>cr3\<close> drops what is not global.  A panic ends the run (\<open>Inl Panic\<close>).
\<close>

section \<open>Data\<close>

abbreviation (input) MMU_PRESENT :: u64 where "MMU_PRESENT \<equiv> 1"
abbreviation (input) MMU_WRITABLE :: u64 where "MMU_WRITABLE \<equiv> 2"
abbreviation (input) MMU_USER :: u64 where "MMU_USER \<equiv> 4"
abbreviation (input) MMU_CACHE_DISABLE :: u64 where "MMU_CACHE_DISABLE \<equiv> 0x10"
abbreviation (input) MMU_HUGE :: u64 where "MMU_HUGE \<equiv> 0x80"
abbreviation (input) MMU_GLOBAL :: u64 where "MMU_GLOBAL \<equiv> 0x100"
abbreviation (input) MMU_AVAILABLE_1 :: u64 where "MMU_AVAILABLE_1 \<equiv> 0x200"
abbreviation (input) MMU_NX :: u64 where "MMU_NX \<equiv> 0x8000000000000000"
abbreviation (input) MMU_ADDR_MASK :: u64 where "MMU_ADDR_MASK \<equiv> 0x000FFFFFFFFFF000"
abbreviation (input) MMU_FLAGS_MASK :: u64 where "MMU_FLAGS_MASK \<equiv> 0xFFF0000000000FFF"
abbreviation (input) MMU_MAP_WRITE :: u64 where "MMU_MAP_WRITE \<equiv> 2"
abbreviation (input) MMU_MAP_USER :: u64 where "MMU_MAP_USER \<equiv> 4"
abbreviation (input) MMU_MAP_NOCACHE :: u64 where "MMU_MAP_NOCACHE \<equiv> 0x10"
abbreviation (input) MMU_MAP_GLOBAL :: u64 where "MMU_MAP_GLOBAL \<equiv> 0x20"
abbreviation (input) MMU_PAGE_SIZE_4K :: u64 where "MMU_PAGE_SIZE_4K \<equiv> 0x1000"
abbreviation (input) MMU_PAGE_SIZE_2M :: u64 where "MMU_PAGE_SIZE_2M \<equiv> 0x200000"
abbreviation (input) MMU_PAGE_SIZE_1G :: u64 where "MMU_PAGE_SIZE_1G \<equiv> 0x40000000"
abbreviation (input) MMU_RECURSIVE_SLOT :: u64 where "MMU_RECURSIVE_SLOT \<equiv> 510"

datatype mmu_page_size = MMU_PAGE_4K | MMU_PAGE_2M | MMU_PAGE_1G

record mmu_tlb_stats =
  single_flushes :: u64
  full_flushes :: u64
  context_switches :: u64

record mmu_stats =
  pages_mapped_4k :: u64
  pages_mapped_2m :: u64
  pages_mapped_1g :: u64
  pages_unmapped :: u64
  tables_allocated :: u64
  cow_breaks :: u64
  page_faults :: u64
  tlb_stats :: mmu_tlb_stats

record mmu_context =
  pml4_phys :: u64
  pml4_virt :: u64
  page_count :: u64
  c_stats :: mmu_stats

record mmu_global_stats =
  g_pages_mapped :: u64
  g_pages_unmapped :: u64
  g_tables_allocated :: u64
  g_tlb_flushes :: u64

record cpu_features =
  supports_2mb_pages :: bool
  supports_1gb_pages :: bool
  supports_global_pages :: bool
  supports_nx :: bool
  supports_pcid :: bool

record mmu = pmm +
  ctxs :: "u64 \<Rightarrow> mmu_context"
  kernel_ctx :: u64
  mmu_initialized :: bool
  g_stats :: mmu_global_stats
  features :: cpu_features
  cr3 :: u64
  tlb :: "(u64 \<times> bool) set"

record mmu_fault_info =
  f_fault_addr :: u64
  f_error_code :: u64
  f_present :: bool
  f_write :: bool
  f_user :: bool
  f_exec :: bool
  f_reserved :: bool

record mmu_mapping =
  m_virt_addr :: u64
  m_phys_addr :: u64
  m_flags :: u64

section \<open>Page table entries\<close>

definition pte_get_addr :: "u64 \<Rightarrow> u64" where
  "pte_get_addr pte = pte AND MMU_ADDR_MASK"

definition pte_get_flags :: "u64 \<Rightarrow> u64" where
  "pte_get_flags pte = pte AND MMU_FLAGS_MASK"

definition pte_is_present :: "u64 \<Rightarrow> bool" where
  "pte_is_present pte \<longleftrightarrow> pte AND MMU_PRESENT \<noteq> 0"

definition pte_create :: "u64 \<Rightarrow> u64 \<Rightarrow> u64" where
  "pte_create phys_addr flags = (phys_addr AND MMU_ADDR_MASK) OR (flags AND MMU_FLAGS_MASK)"

definition PML4_INDEX :: "u64 \<Rightarrow> u64" where "PML4_INDEX addr = drop_bit 39 addr AND 0x1FF"
definition PDPT_INDEX :: "u64 \<Rightarrow> u64" where "PDPT_INDEX addr = drop_bit 30 addr AND 0x1FF"
definition PD_INDEX :: "u64 \<Rightarrow> u64" where "PD_INDEX addr = drop_bit 21 addr AND 0x1FF"
definition PT_INDEX :: "u64 \<Rightarrow> u64" where "PT_INDEX addr = drop_bit 12 addr AND 0x1FF"

definition MMU_IS_ALIGNED_4K :: "u64 \<Rightarrow> bool" where
  "MMU_IS_ALIGNED_4K addr \<longleftrightarrow> addr AND (MMU_PAGE_SIZE_4K - 1) = 0"

definition MMU_IS_ALIGNED_2M :: "u64 \<Rightarrow> bool" where
  "MMU_IS_ALIGNED_2M addr \<longleftrightarrow> addr AND (MMU_PAGE_SIZE_2M - 1) = 0"

definition MMU_IS_ALIGNED_1G :: "u64 \<Rightarrow> bool" where
  "MMU_IS_ALIGNED_1G addr \<longleftrightarrow> addr AND (MMU_PAGE_SIZE_1G - 1) = 0"

text \<open>The address of an entry, and reading and writing it.\<close>

definition entry_at :: "u64 \<Rightarrow> u64 \<Rightarrow> u64" where
  "entry_at table index = table + 8 * index"

definition write_word :: "u64 \<Rightarrow> u64 \<Rightarrow> 'a mmu_scheme \<Rightarrow> 'a mmu_scheme" where
  "write_word a v s = s\<lparr>mem := (mem s)(a := v)\<rparr>"

definition upd_ctx :: "u64 \<Rightarrow> (mmu_context \<Rightarrow> mmu_context) \<Rightarrow> 'a mmu_scheme \<Rightarrow> 'a mmu_scheme" where
  "upd_ctx c f s = s\<lparr>ctxs := (ctxs s)(c := f (ctxs s c))\<rparr>"

definition upd_stats :: "u64 \<Rightarrow> (mmu_stats \<Rightarrow> mmu_stats) \<Rightarrow> 'a mmu_scheme \<Rightarrow> 'a mmu_scheme" where
  "upd_stats c f = upd_ctx c (\<lambda>x. x\<lparr>c_stats := f (c_stats x)\<rparr>)"

definition or_kernel :: "'a mmu_scheme \<Rightarrow> u64 \<Rightarrow> u64" where
  "or_kernel s ctx = (if ctx = 0 then kernel_ctx s else ctx)"

section \<open>Processor helpers\<close>

definition mmu_invlpg :: "u64 \<Rightarrow> 'a mmu_scheme \<Rightarrow> 'a mmu_scheme" where
  "mmu_invlpg vaddr s = s\<lparr>tlb := {e \<in> tlb s. fst e \<noteq> vaddr AND NOT (PAGE_SIZE - 1)}\<rparr>"

definition mmu_load_cr3 :: "u64 \<Rightarrow> 'a mmu_scheme \<Rightarrow> 'a mmu_scheme" where
  "mmu_load_cr3 pml4 s = s\<lparr>cr3 := pml4, tlb := {e \<in> tlb s. snd e}\<rparr>"

definition mmu_flush_tlb :: "'a mmu_scheme \<Rightarrow> 'a mmu_scheme" where
  "mmu_flush_tlb s = mmu_load_cr3 (cr3 s) s"

text \<open>
  \<^verbatim>\<open>cpuid\<close> is the processor instruction, a parameter from leaf and subleaf to registers.
\<close>

definition detect_cpu_features :: "(u32 \<Rightarrow> u32 \<Rightarrow> cpuid_regs) \<Rightarrow> 'a mmu_scheme \<Rightarrow> 'a mmu_scheme" where
  "detect_cpu_features cpuid s =
     (let regs = cpuid 0x01 0;
          f = (features s)\<lparr>supports_2mb_pages := bit (r_edx regs) 3,
                           supports_global_pages := bit (r_edx regs) 13,
                           supports_pcid := bit (r_ecx regs) 17\<rparr>;
          regs = cpuid 0x80000001 0;
          f = f\<lparr>supports_1gb_pages := bit (r_edx regs) 26,
                supports_nx := bit (r_edx regs) 20\<rparr>
      in s\<lparr>features := f\<rparr>)"

section \<open>Walking the tables\<close>

definition alloc_page_table :: "'a mmu_scheme \<Rightarrow> (u64 \<times> 'a mmu_scheme) result" where
  "alloc_page_table s =
     (let (phys, s) = pmm_alloc_page s
      in if phys = 0 then Inl Panic
         else let table = PHYS_TO_VIRT s phys;
                  s = s\<lparr>mem := memset_page (mem s) table\<rparr>;
                  s = s\<lparr>g_stats := (g_stats s)\<lparr>g_tables_allocated := g_tables_allocated (g_stats s) + 1\<rparr>\<rparr>
              in Inr (table, s))"

definition get_or_create_table ::
  "u64 \<Rightarrow> u64 \<Rightarrow> u64 \<Rightarrow> 'a mmu_scheme \<Rightarrow> (u64 \<times> 'a mmu_scheme) result" where
  "get_or_create_table table index flags s =
     (let entry = entry_at table index
      in if pte_is_present (mem s entry)
         then let s = (if mem s entry AND MMU_NX \<noteq> 0
                       then write_word entry (mem s entry AND NOT MMU_NX) s else s)
              in Inr (PHYS_TO_VIRT s (pte_get_addr (mem s entry)), s)
         else rbind (alloc_page_table s) (\<lambda>(new_table, s).
                if new_table = 0 then Inr (0, s)
                else let phys = VIRT_TO_PHYS s new_table
                     in Inr (new_table,
                             write_word entry
                               (pte_create phys ((flags AND NOT MMU_NX) OR MMU_PRESENT OR MMU_WRITABLE)) s)))"

definition walk_step ::
  "bool \<Rightarrow> u64 \<Rightarrow> u64 \<Rightarrow> u64 \<Rightarrow> 'a mmu_scheme \<Rightarrow> (u64 \<times> 'a mmu_scheme) result" where
  "walk_step create table index flags s =
     (if create then get_or_create_table table index flags s
      else if \<not> pte_is_present (mem s (entry_at table index)) then Inr (0, s)
      else Inr (PHYS_TO_VIRT s (pte_get_addr (mem s (entry_at table index))), s))"

definition walk_page_tables ::
  "u64 \<Rightarrow> u64 \<Rightarrow> bool \<Rightarrow> u64 \<Rightarrow> 'a mmu_scheme \<Rightarrow> (u64 \<times> 'a mmu_scheme) result" where
  "walk_page_tables ctx virt_addr create flags s =
     rbind (walk_step create (pml4_virt (ctxs s ctx)) (PML4_INDEX virt_addr) flags s) (\<lambda>(pdpt, s).
       if pdpt = 0 then Inr (0, s)
       else rbind (walk_step create pdpt (PDPT_INDEX virt_addr) flags s) (\<lambda>(pd, s).
         if pd = 0 then Inr (0, s)
         else rbind (walk_step create pd (PD_INDEX virt_addr) flags s) (\<lambda>(pt, s).
           if pt = 0 then Inr (0, s)
           else Inr (entry_at pt (PT_INDEX virt_addr), s))))"

section \<open>Contexts\<close>

definition zero_tlb_stats :: mmu_tlb_stats where
  "zero_tlb_stats = \<lparr>single_flushes = 0, full_flushes = 0, context_switches = 0\<rparr>"

definition zero_stats :: mmu_stats where
  "zero_stats = \<lparr>pages_mapped_4k = 0, pages_mapped_2m = 0, pages_mapped_1g = 0, pages_unmapped = 0,
     tables_allocated = 0, cow_breaks = 0, page_faults = 0, tlb_stats = zero_tlb_stats\<rparr>"

definition mmu_init :: "(u32 \<Rightarrow> u32 \<Rightarrow> cpuid_regs) \<Rightarrow> 'a mmu_scheme \<Rightarrow> 'a mmu_scheme" where
  "mmu_init cpuid s =
     (let s = s\<lparr>g_stats := \<lparr>g_pages_mapped = 0, g_pages_unmapped = 0, g_tables_allocated = 0, g_tlb_flushes = 0\<rparr>\<rparr>;
          s = detect_cpu_features cpuid s;
          current_cr3 = cr3 s;
          s = upd_ctx (kernel_ctx s) (\<lambda>c. c\<lparr>pml4_phys := current_cr3, pml4_virt := PHYS_TO_VIRT s current_cr3,
                                             page_count := 0, c_stats := zero_stats\<rparr>) s;
          slot = entry_at (pml4_virt (ctxs s (kernel_ctx s))) MMU_RECURSIVE_SLOT;
          s = (if \<not> pte_is_present (mem s slot)
               then mmu_flush_tlb (write_word slot
                      (pte_create (pml4_phys (ctxs s (kernel_ctx s))) (MMU_PRESENT OR MMU_WRITABLE)) s)
               else s)
      in s\<lparr>mmu_initialized := True\<rparr>)"

definition mmu_get_kernel_context :: "'a mmu_scheme \<Rightarrow> u64" where
  "mmu_get_kernel_context s = kernel_ctx s"

definition mmu_create_context :: "'a mmu_scheme \<Rightarrow> (u64 \<times> 'a mmu_scheme) result" where
  "mmu_create_context s =
     (let (page, s) = pmm_alloc_page s;
          ctx = PHYS_TO_VIRT s page
      in if ctx = 0 then Inr (0, s)
         else rbind (alloc_page_table s) (\<lambda>(pml4, s).
           if pml4 = 0 then Inr (0, pmm_free_page (VIRT_TO_PHYS s ctx) s)
           else
             let s = upd_ctx ctx (\<lambda>c. c\<lparr>pml4_phys := VIRT_TO_PHYS s pml4, pml4_virt := pml4,
                                        page_count := 1, c_stats := zero_stats\<rparr>) s
             in Inr (ctx, fold (\<lambda>i s. write_word (entry_at pml4 (of_nat i))
                        (mem s (entry_at (pml4_virt (ctxs s (kernel_ctx s))) (of_nat i))) s) [256..<512] s)))"

definition mmu_destroy_context :: "u64 \<Rightarrow> 'a mmu_scheme \<Rightarrow> 'a mmu_scheme" where
  "mmu_destroy_context ctx s =
     (if ctx = 0 \<or> ctx = kernel_ctx s then s
      else pmm_free_page (VIRT_TO_PHYS s ctx) (pmm_free_page (pml4_phys (ctxs s ctx)) s))"

definition mmu_switch_context :: "u64 \<Rightarrow> 'a mmu_scheme \<Rightarrow> 'a mmu_scheme" where
  "mmu_switch_context ctx s =
     (if ctx = 0 then s
      else if cr3 s \<noteq> pml4_phys (ctxs s ctx) then
        let s = mmu_load_cr3 (pml4_phys (ctxs s ctx)) s;
            s = s\<lparr>g_stats := (g_stats s)\<lparr>g_tlb_flushes := g_tlb_flushes (g_stats s) + 1\<rparr>\<rparr>
        in upd_stats ctx (\<lambda>x. x\<lparr>tlb_stats := (tlb_stats x)\<lparr>context_switches := context_switches (tlb_stats x) + 1\<rparr>\<rparr>) s
      else s)"

section \<open>Mapping pages\<close>

definition map_arch_flags :: "bool \<Rightarrow> u64 \<Rightarrow> u64" where
  "map_arch_flags glob flags =
     (let a = MMU_PRESENT;
          a = (if flags AND MMU_MAP_WRITE \<noteq> 0 then a OR MMU_WRITABLE else a);
          a = (if flags AND MMU_MAP_USER \<noteq> 0 then a OR MMU_USER else a);
          a = (if flags AND MMU_MAP_NOCACHE \<noteq> 0 then a OR MMU_CACHE_DISABLE else a);
          a = (if flags AND MMU_MAP_GLOBAL \<noteq> 0 \<and> glob then a OR MMU_GLOBAL else a)
      in a)"

definition mmu_map_page ::
  "u64 \<Rightarrow> u64 \<Rightarrow> u64 \<Rightarrow> u64 \<Rightarrow> 'a mmu_scheme \<Rightarrow> (int \<times> 'a mmu_scheme) result" where
  "mmu_map_page ctx virt_addr phys_addr flags s =
     (let ctx = or_kernel s ctx;
          virt_addr = virt_addr AND NOT (PAGE_SIZE - 1);
          phys_addr = phys_addr AND NOT (PAGE_SIZE - 1);
          arch_flags = map_arch_flags (supports_global_pages (features s)) flags
      in rbind (walk_page_tables ctx virt_addr True arch_flags s) (\<lambda>(pte, s).
           if pte = 0 then Inr (-1, s)
           else
             let s = write_word pte (pte_create phys_addr arch_flags) s;
                 s = mmu_invlpg virt_addr s;
                 s = s\<lparr>g_stats := (g_stats s)\<lparr>g_pages_mapped := g_pages_mapped (g_stats s) + 1\<rparr>\<rparr>
             in Inr (0, upd_stats ctx (\<lambda>x. x\<lparr>pages_mapped_4k := pages_mapped_4k x + 1\<rparr>) s)))"

definition mmu_unmap_page :: "u64 \<Rightarrow> u64 \<Rightarrow> 'a mmu_scheme \<Rightarrow> (int \<times> 'a mmu_scheme) result" where
  "mmu_unmap_page ctx virt_addr s =
     (let ctx = or_kernel s ctx;
          virt_addr = virt_addr AND NOT (PAGE_SIZE - 1)
      in rbind (walk_page_tables ctx virt_addr False 0 s) (\<lambda>(pte, s).
           if pte = 0 \<or> \<not> pte_is_present (mem s pte) then Inr (-1, s)
           else
             let s = write_word pte 0 s;
                 s = mmu_invlpg virt_addr s;
                 s = s\<lparr>g_stats := (g_stats s)\<lparr>g_pages_unmapped := g_pages_unmapped (g_stats s) + 1\<rparr>\<rparr>
             in Inr (0, upd_stats ctx (\<lambda>x. x\<lparr>pages_unmapped := pages_unmapped x + 1\<rparr>) s)))"

definition num_pages_of :: "u64 \<Rightarrow> nat" where
  "num_pages_of sz = unat ((sz + PAGE_SIZE - 1) div PAGE_SIZE)"

fun unmap_loop :: "u64 \<Rightarrow> u64 \<Rightarrow> nat \<Rightarrow> nat \<Rightarrow> 'a mmu_scheme \<Rightarrow> 'a mmu_scheme result" where
  "unmap_loop ctx virt_start i 0 s = Inr s"
| "unmap_loop ctx virt_start i (Suc n) s =
     rbind (mmu_unmap_page ctx (virt_start + of_nat i * PAGE_SIZE) s) (\<lambda>(_, s).
       unmap_loop ctx virt_start (Suc i) n s)"

fun map_loop :: "u64 \<Rightarrow> u64 \<Rightarrow> u64 \<Rightarrow> u64 \<Rightarrow> nat \<Rightarrow> nat \<Rightarrow> 'a mmu_scheme \<Rightarrow> (int \<times> 'a mmu_scheme) result" where
  "map_loop ctx virt_start phys_start flags i 0 s = Inr (0, s)"
| "map_loop ctx virt_start phys_start flags i (Suc n) s =
     rbind (mmu_map_page ctx (virt_start + of_nat i * PAGE_SIZE) (phys_start + of_nat i * PAGE_SIZE) flags s) (\<lambda>(r, s).
       if r \<noteq> 0 then rbind (unmap_loop ctx virt_start 0 i s) (\<lambda>s. Inr (-1, s))
       else map_loop ctx virt_start phys_start flags (Suc i) n s)"

definition mmu_map_range ::
  "u64 \<Rightarrow> u64 \<Rightarrow> u64 \<Rightarrow> u64 \<Rightarrow> u64 \<Rightarrow> 'a mmu_scheme \<Rightarrow> (int \<times> 'a mmu_scheme) result" where
  "mmu_map_range ctx virt_start phys_start sz flags s =
     map_loop (or_kernel s ctx) virt_start phys_start flags 0 (num_pages_of sz) s"

definition mmu_unmap_range :: "u64 \<Rightarrow> u64 \<Rightarrow> u64 \<Rightarrow> 'a mmu_scheme \<Rightarrow> (int \<times> 'a mmu_scheme) result" where
  "mmu_unmap_range ctx virt_start sz s =
     rbind (unmap_loop (or_kernel s ctx) virt_start 0 (num_pages_of sz) s) (\<lambda>s. Inr (0, s))"

section \<open>Queries\<close>

text \<open>
  The walk of a query, \<^verbatim>\<open>walk_page_tables(ctx, virt_addr, 0, 0)\<close>: it changes no state and cannot
  halt, so its result is the entry's address alone.
\<close>

definition find_pte :: "'a mmu_scheme \<Rightarrow> u64 \<Rightarrow> u64 \<Rightarrow> u64" where
  "find_pte s ctx virt_addr =
     (case walk_page_tables ctx virt_addr False 0 s of Inr (pte, _) \<Rightarrow> pte | Inl _ \<Rightarrow> 0)"

definition mmu_virt_to_phys :: "'a mmu_scheme \<Rightarrow> u64 \<Rightarrow> u64 \<Rightarrow> u64" where
  "mmu_virt_to_phys s ctx virt_addr =
     (let pte = find_pte s (or_kernel s ctx) virt_addr
      in if pte = 0 \<or> \<not> pte_is_present (mem s pte) then 0
         else pte_get_addr (mem s pte) + (virt_addr AND (PAGE_SIZE - 1)))"

definition mmu_is_mapped :: "'a mmu_scheme \<Rightarrow> u64 \<Rightarrow> u64 \<Rightarrow> bool" where
  "mmu_is_mapped s ctx virt_addr =
     (let pte = find_pte s (or_kernel s ctx) virt_addr
      in pte \<noteq> 0 \<and> pte_is_present (mem s pte))"

definition mmu_get_flags :: "'a mmu_scheme \<Rightarrow> u64 \<Rightarrow> u64 \<Rightarrow> u64" where
  "mmu_get_flags s ctx virt_addr =
     (let pte = find_pte s (or_kernel s ctx) virt_addr
      in if pte = 0 \<or> \<not> pte_is_present (mem s pte) then 0 else pte_get_flags (mem s pte))"

definition mmu_supports_2mb_pages :: "'a mmu_scheme \<Rightarrow> bool" where
  "mmu_supports_2mb_pages s = supports_2mb_pages (features s)"

definition mmu_supports_1gb_pages :: "'a mmu_scheme \<Rightarrow> bool" where
  "mmu_supports_1gb_pages s = supports_1gb_pages (features s)"

definition mmu_supports_global_pages :: "'a mmu_scheme \<Rightarrow> bool" where
  "mmu_supports_global_pages s = supports_global_pages (features s)"

definition mmu_is_aligned_for_huge :: "u64 \<Rightarrow> mmu_page_size \<Rightarrow> bool" where
  "mmu_is_aligned_for_huge addr sz =
     (case sz of MMU_PAGE_2M \<Rightarrow> MMU_IS_ALIGNED_2M addr
      | MMU_PAGE_1G \<Rightarrow> MMU_IS_ALIGNED_1G addr
      | _ \<Rightarrow> MMU_IS_ALIGNED_4K addr)"

section \<open>Huge pages\<close>

definition huge_arch_flags :: "bool \<Rightarrow> u64 \<Rightarrow> u64" where
  "huge_arch_flags glob flags =
     (let a = MMU_PRESENT OR MMU_HUGE;
          a = (if flags AND MMU_MAP_WRITE \<noteq> 0 then a OR MMU_WRITABLE else a);
          a = (if flags AND MMU_MAP_USER \<noteq> 0 then a OR MMU_USER else a);
          a = (if flags AND MMU_MAP_GLOBAL \<noteq> 0 \<and> glob then a OR MMU_GLOBAL else a)
      in a)"

definition mmu_map_huge_page ::
  "u64 \<Rightarrow> u64 \<Rightarrow> u64 \<Rightarrow> mmu_page_size \<Rightarrow> u64 \<Rightarrow> 'a mmu_scheme \<Rightarrow> (int \<times> 'a mmu_scheme) result" where
  "mmu_map_huge_page ctx virt_addr phys_addr sz flags s =
     (let ctx = or_kernel s ctx
      in if \<not> mmu_is_aligned_for_huge virt_addr sz \<or> \<not> mmu_is_aligned_for_huge phys_addr sz
         then Inr (-1, s)
         else
           let arch_flags = huge_arch_flags (supports_global_pages (features s)) flags;
               pml4 = pml4_virt (ctxs s ctx)
           in case sz of
                MMU_PAGE_2M \<Rightarrow>
                  if \<not> supports_2mb_pages (features s) then Inr (-1, s)
                  else
                    rbind (get_or_create_table pml4 (PML4_INDEX virt_addr) (MMU_PRESENT OR MMU_WRITABLE) s) (\<lambda>(pdpt, s).
                      if pdpt = 0 then Inr (-1, s)
                      else rbind (get_or_create_table pdpt (PDPT_INDEX virt_addr) (MMU_PRESENT OR MMU_WRITABLE) s) (\<lambda>(pd, s).
                        if pd = 0 then Inr (-1, s)
                        else
                          let s = write_word (entry_at pd (PD_INDEX virt_addr)) (pte_create phys_addr arch_flags) s;
                              s = mmu_invlpg virt_addr s
                          in Inr (0, upd_stats ctx (\<lambda>x. x\<lparr>pages_mapped_2m := pages_mapped_2m x + 1\<rparr>) s)))
              | MMU_PAGE_1G \<Rightarrow>
                  if \<not> supports_1gb_pages (features s) then Inr (-1, s)
                  else
                    rbind (get_or_create_table pml4 (PML4_INDEX virt_addr) (MMU_PRESENT OR MMU_WRITABLE) s) (\<lambda>(pdpt, s).
                      if pdpt = 0 then Inr (-1, s)
                      else
                        let s = write_word (entry_at pdpt (PDPT_INDEX virt_addr)) (pte_create phys_addr arch_flags) s;
                            s = mmu_invlpg virt_addr s
                        in Inr (0, upd_stats ctx (\<lambda>x. x\<lparr>pages_mapped_1g := pages_mapped_1g x + 1\<rparr>) s))
              | MMU_PAGE_4K \<Rightarrow> mmu_map_page ctx virt_addr phys_addr flags s)"

function map_auto_loop ::
  "u64 \<Rightarrow> u64 \<Rightarrow> u64 \<Rightarrow> u64 \<Rightarrow> u64 \<Rightarrow> 'a mmu_scheme \<Rightarrow> (int \<times> 'a mmu_scheme) result" where
  "map_auto_loop ctx virt phys remaining flags s =
     (if remaining = 0 then Inr (0, s)
      else
        let giant = supports_1gb_pages (features s) \<and> remaining \<ge> MMU_PAGE_SIZE_1G \<and>
                    MMU_IS_ALIGNED_1G virt \<and> MMU_IS_ALIGNED_1G phys
        in rbind (if giant then mmu_map_huge_page ctx virt phys MMU_PAGE_1G flags s else Inr (-1, s)) (\<lambda>(r, s).
             if giant \<and> r = 0
             then map_auto_loop ctx (virt + MMU_PAGE_SIZE_1G) (phys + MMU_PAGE_SIZE_1G) (remaining - MMU_PAGE_SIZE_1G) flags s
             else
               let large = supports_2mb_pages (features s) \<and> remaining \<ge> MMU_PAGE_SIZE_2M \<and>
                           MMU_IS_ALIGNED_2M virt \<and> MMU_IS_ALIGNED_2M phys
               in rbind (if large then mmu_map_huge_page ctx virt phys MMU_PAGE_2M flags s else Inr (-1, s)) (\<lambda>(r, s).
                    if large \<and> r = 0
                    then map_auto_loop ctx (virt + MMU_PAGE_SIZE_2M) (phys + MMU_PAGE_SIZE_2M) (remaining - MMU_PAGE_SIZE_2M) flags s
                    else
                      rbind (mmu_map_page ctx virt phys flags s) (\<lambda>(r, s).
                        if r \<noteq> 0 then Inr (-1, s)
                        else map_auto_loop ctx (virt + MMU_PAGE_SIZE_4K) (phys + MMU_PAGE_SIZE_4K)
                               (remaining - (if remaining < MMU_PAGE_SIZE_4K then remaining else MMU_PAGE_SIZE_4K)) flags s))))"
  by pat_completeness auto

lemma word_minus_decreases: "0 < d \<Longrightarrow> d \<le> r \<Longrightarrow> unat (r - d) < unat (r :: u64)"
  by (simp add: unat_sub word_le_nat_alt word_less_nat_alt)

termination map_auto_loop
proof (relation "measure (\<lambda>(ctx, virt, phys, remaining, flags, s). unat remaining)", goal_cases)
  case 1
  then show ?case by simp
next
  case (2 ctx virt phys remaining flags s giant x r t)
  then have "MMU_PAGE_SIZE_1G \<le> remaining" by blast
  then show ?case by (simp add: word_minus_decreases)
next
  case (3 ctx virt phys remaining flags s giant x r t large y r' t')
  then have "MMU_PAGE_SIZE_2M \<le> remaining" by blast
  then show ?case by (simp add: word_minus_decreases)
next
  case (4 ctx virt phys remaining flags s giant x r t large y r' t' z r'' t'')
  then have "0 < unat remaining" by (simp only: word_neq_0_conv unat_gt_0)
  then show ?case by (simp add: word_minus_decreases)
qed

definition mmu_map_range_auto ::
  "u64 \<Rightarrow> u64 \<Rightarrow> u64 \<Rightarrow> u64 \<Rightarrow> u64 \<Rightarrow> 'a mmu_scheme \<Rightarrow> (int \<times> 'a mmu_scheme) result" where
  "mmu_map_range_auto ctx virt_start phys_start sz flags s =
     map_auto_loop (or_kernel s ctx) virt_start phys_start sz flags s"

section \<open>Flushing translations\<close>

definition count_flushes :: "(mmu_tlb_stats \<Rightarrow> mmu_tlb_stats) \<Rightarrow> u64 \<Rightarrow> 'a mmu_scheme \<Rightarrow> 'a mmu_scheme" where
  "count_flushes f ctx = upd_stats ctx (\<lambda>x. x\<lparr>tlb_stats := f (tlb_stats x)\<rparr>)"

definition mmu_flush_tlb_single :: "u64 \<Rightarrow> 'a mmu_scheme \<Rightarrow> 'a mmu_scheme" where
  "mmu_flush_tlb_single virt_addr s =
     count_flushes (\<lambda>x. x\<lparr>single_flushes := single_flushes x + 1\<rparr>) (kernel_ctx s) (mmu_invlpg virt_addr s)"

definition mmu_flush_tlb_all :: "'a mmu_scheme \<Rightarrow> 'a mmu_scheme" where
  "mmu_flush_tlb_all s =
     count_flushes (\<lambda>x. x\<lparr>full_flushes := full_flushes x + 1\<rparr>) (kernel_ctx s) (mmu_flush_tlb s)"

definition mmu_flush_tlb_range :: "u64 \<Rightarrow> u64 \<Rightarrow> 'a mmu_scheme \<Rightarrow> 'a mmu_scheme" where
  "mmu_flush_tlb_range virt_start sz s =
     (let num_pages = (sz + MMU_PAGE_SIZE_4K - 1) div MMU_PAGE_SIZE_4K
      in if num_pages > 32 then mmu_flush_tlb_all s
         else count_flushes (\<lambda>x. x\<lparr>single_flushes := single_flushes x + num_pages\<rparr>) (kernel_ctx s)
                (fold (\<lambda>i. mmu_invlpg (virt_start + of_nat i * MMU_PAGE_SIZE_4K)) [0..<unat num_pages] s))"

definition mmu_flush_tlb_context :: "u64 \<Rightarrow> 'a mmu_scheme \<Rightarrow> 'a mmu_scheme" where
  "mmu_flush_tlb_context ctx s =
     (if ctx = 0 then s
      else count_flushes (\<lambda>x. x\<lparr>full_flushes := full_flushes x + 1\<rparr>) ctx (mmu_load_cr3 (pml4_phys (ctxs s ctx)) s))"

section \<open>Changing entries\<close>

text \<open>
  The loop body shared by \<^verbatim>\<open>mmu_mark_cow\<close>, \<^verbatim>\<open>mmu_make_readonly\<close> and \<^verbatim>\<open>mmu_make_writable\<close>: the flags
  of a present entry are rewritten and its translation dropped.
\<close>

definition reflag_page :: "(u64 \<Rightarrow> u64) \<Rightarrow> u64 \<Rightarrow> u64 \<Rightarrow> 'a mmu_scheme \<Rightarrow> 'a mmu_scheme" where
  "reflag_page f ctx virt s =
     (let pte = find_pte s ctx virt
      in if pte \<noteq> 0 \<and> pte_is_present (mem s pte)
         then mmu_invlpg virt
                (write_word pte (pte_create (pte_get_addr (mem s pte)) (f (pte_get_flags (mem s pte)))) s)
         else s)"

definition reflag_range :: "(u64 \<Rightarrow> u64) \<Rightarrow> u64 \<Rightarrow> u64 \<Rightarrow> u64 \<Rightarrow> 'a mmu_scheme \<Rightarrow> int \<times> 'a mmu_scheme" where
  "reflag_range f ctx virt_addr sz s =
     (0, fold (\<lambda>i. reflag_page f ctx (virt_addr + of_nat i * MMU_PAGE_SIZE_4K)) [0..<num_pages_of sz] s)"

definition mmu_mark_cow :: "u64 \<Rightarrow> u64 \<Rightarrow> u64 \<Rightarrow> 'a mmu_scheme \<Rightarrow> int \<times> 'a mmu_scheme" where
  "mmu_mark_cow ctx virt_addr sz s =
     reflag_range (\<lambda>flags. (flags AND NOT MMU_WRITABLE) OR MMU_AVAILABLE_1) (or_kernel s ctx) virt_addr sz s"

definition mmu_make_readonly :: "u64 \<Rightarrow> u64 \<Rightarrow> u64 \<Rightarrow> 'a mmu_scheme \<Rightarrow> int \<times> 'a mmu_scheme" where
  "mmu_make_readonly ctx virt_addr sz s =
     reflag_range (\<lambda>flags. flags AND NOT MMU_WRITABLE) (or_kernel s ctx) virt_addr sz s"

definition mmu_make_writable :: "u64 \<Rightarrow> u64 \<Rightarrow> u64 \<Rightarrow> 'a mmu_scheme \<Rightarrow> int \<times> 'a mmu_scheme" where
  "mmu_make_writable ctx virt_addr sz s =
     reflag_range (\<lambda>flags. flags OR MMU_WRITABLE) (or_kernel s ctx) virt_addr sz s"

definition mmu_is_cow_page :: "'a mmu_scheme \<Rightarrow> u64 \<Rightarrow> u64 \<Rightarrow> bool" where
  "mmu_is_cow_page s ctx virt_addr =
     (let pte = find_pte s (or_kernel s ctx) virt_addr
      in if pte = 0 \<or> \<not> pte_is_present (mem s pte) then False
         else pte_get_flags (mem s pte) AND MMU_AVAILABLE_1 \<noteq> 0)"

definition memcpy_page :: "(u64 \<Rightarrow> u64) \<Rightarrow> u64 \<Rightarrow> u64 \<Rightarrow> u64 \<Rightarrow> u64" where
  "memcpy_page m dst src = (\<lambda>x. if x - dst < PAGE_SIZE then m (src + (x - dst)) else m x)"

definition mmu_break_cow :: "u64 \<Rightarrow> u64 \<Rightarrow> 'a mmu_scheme \<Rightarrow> int \<times> 'a mmu_scheme" where
  "mmu_break_cow ctx virt_addr s =
     (let ctx = or_kernel s ctx;
          pte = find_pte s ctx virt_addr
      in if pte = 0 \<or> \<not> pte_is_present (mem s pte) then (-1, s)
         else
           let flags = pte_get_flags (mem s pte)
           in if flags AND MMU_AVAILABLE_1 = 0 then (0, s)
              else
                let (new_phys, s) = pmm_alloc_page s
                in if new_phys = 0 then (-1, s)
                   else
                     let old_phys = pte_get_addr (mem s pte);
                         s = s\<lparr>mem := memcpy_page (mem s) (PHYS_TO_VIRT s new_phys) (PHYS_TO_VIRT s old_phys)\<rparr>;
                         flags = (flags OR MMU_WRITABLE) AND NOT MMU_AVAILABLE_1;
                         s = write_word pte (pte_create new_phys flags) s;
                         s = mmu_invlpg virt_addr s
                     in (0, upd_stats ctx (\<lambda>x. x\<lparr>cow_breaks := cow_breaks x + 1\<rparr>) s))"

definition mmu_change_flags :: "u64 \<Rightarrow> u64 \<Rightarrow> u64 \<Rightarrow> 'a mmu_scheme \<Rightarrow> int \<times> 'a mmu_scheme" where
  "mmu_change_flags ctx virt_addr new_flags s =
     (let pte = find_pte s (or_kernel s ctx) virt_addr
      in if pte = 0 \<or> \<not> pte_is_present (mem s pte) then (-1, s)
         else
           let phys = pte_get_addr (mem s pte);
               s = write_word pte (pte_create phys (map_arch_flags True new_flags)) s
           in (0, mmu_invlpg virt_addr s))"

fun change_flags_loop :: "u64 \<Rightarrow> u64 \<Rightarrow> u64 \<Rightarrow> nat \<Rightarrow> nat \<Rightarrow> 'a mmu_scheme \<Rightarrow> int \<times> 'a mmu_scheme" where
  "change_flags_loop ctx virt_start new_flags i 0 s = (0, s)"
| "change_flags_loop ctx virt_start new_flags i (Suc n) s =
     (let (r, s) = mmu_change_flags ctx (virt_start + of_nat i * MMU_PAGE_SIZE_4K) new_flags s
      in if r \<noteq> 0 then (-1, s) else change_flags_loop ctx virt_start new_flags (Suc i) n s)"

definition mmu_change_flags_range :: "u64 \<Rightarrow> u64 \<Rightarrow> u64 \<Rightarrow> u64 \<Rightarrow> 'a mmu_scheme \<Rightarrow> int \<times> 'a mmu_scheme" where
  "mmu_change_flags_range ctx virt_start sz new_flags s =
     change_flags_loop ctx virt_start new_flags 0 (num_pages_of sz) s"

definition mmu_protect :: "u64 \<Rightarrow> u64 \<Rightarrow> u64 \<Rightarrow> u64 \<Rightarrow> 'a mmu_scheme \<Rightarrow> int \<times> 'a mmu_scheme" where
  "mmu_protect ctx virt_addr sz flags s = mmu_change_flags_range ctx virt_addr sz flags s"

definition mmu_get_page_size :: "'a mmu_scheme \<Rightarrow> u64 \<Rightarrow> u64 \<Rightarrow> mmu_page_size" where
  "mmu_get_page_size s ctx virt_addr =
     (let e4 = mem s (entry_at (pml4_virt (ctxs s (or_kernel s ctx))) (PML4_INDEX virt_addr))
      in if \<not> pte_is_present e4 then MMU_PAGE_4K
         else
           let e3 = mem s (entry_at (PHYS_TO_VIRT s (pte_get_addr e4)) (PDPT_INDEX virt_addr))
           in if \<not> pte_is_present e3 then MMU_PAGE_4K
              else if pte_get_flags e3 AND MMU_HUGE \<noteq> 0 then MMU_PAGE_1G
              else
                let e2 = mem s (entry_at (PHYS_TO_VIRT s (pte_get_addr e3)) (PD_INDEX virt_addr))
                in if \<not> pte_is_present e2 then MMU_PAGE_4K
                   else if pte_get_flags e2 AND MMU_HUGE \<noteq> 0 then MMU_PAGE_2M
                   else MMU_PAGE_4K)"

definition mmu_get_stats :: "'a mmu_scheme \<Rightarrow> u64 \<Rightarrow> mmu_stats option \<Rightarrow> mmu_stats option" where
  "mmu_get_stats s ctx out =
     (case out of None \<Rightarrow> None | Some _ \<Rightarrow> Some (c_stats (ctxs s (or_kernel s ctx))))"

section \<open>Page faults\<close>

definition mmu_parse_fault_error :: "u64 \<Rightarrow> mmu_fault_info \<Rightarrow> mmu_fault_info" where
  "mmu_parse_fault_error error_code info =
     info\<lparr>f_error_code := error_code,
          f_present := error_code AND 0x1 \<noteq> 0,
          f_write := error_code AND 0x2 \<noteq> 0,
          f_user := error_code AND 0x4 \<noteq> 0,
          f_reserved := error_code AND 0x8 \<noteq> 0,
          f_exec := error_code AND 0x10 \<noteq> 0\<rparr>"

text \<open>\<open>info0\<close> is the uninitialised local of the handler.\<close>

definition mmu_handle_page_fault ::
  "mmu_fault_info \<Rightarrow> u64 \<Rightarrow> u64 \<Rightarrow> u64 \<Rightarrow> 'a mmu_scheme \<Rightarrow> int \<times> 'a mmu_scheme" where
  "mmu_handle_page_fault info0 ctx fault_addr error_code s =
     (let ctx = or_kernel s ctx;
          info = (mmu_parse_fault_error error_code info0)\<lparr>f_fault_addr := fault_addr\<rparr>;
          s = upd_stats ctx (\<lambda>x. x\<lparr>page_faults := page_faults x + 1\<rparr>) s
      in if f_present info \<and> f_write info \<and> mmu_is_cow_page s ctx fault_addr
         then mmu_break_cow ctx fault_addr s
         else (-1, s))"

definition mmu_get_table_count :: "'a mmu_scheme \<Rightarrow> u64 \<Rightarrow> u64" where
  "mmu_get_table_count s ctx = (if ctx \<noteq> 0 then tables_allocated (c_stats (ctxs s ctx)) else 0)"

definition mmu_get_mapped_pages :: "'a mmu_scheme \<Rightarrow> u64 \<Rightarrow> u64" where
  "mmu_get_mapped_pages s ctx =
     (if ctx \<noteq> 0
      then let st = c_stats (ctxs s ctx) in pages_mapped_4k st + pages_mapped_2m st + pages_mapped_1g st
      else 0)"

section \<open>Copying address spaces\<close>

definition mmu_clone_context :: "u64 \<Rightarrow> 'a mmu_scheme \<Rightarrow> (u64 \<times> 'a mmu_scheme) result" where
  "mmu_clone_context src s =
     (if src = 0 then Inr (0, s)
      else rbind (mmu_create_context s) (\<lambda>(dst, s).
        if dst = 0 then Inr (0, s)
        else Inr (dst, fold (\<lambda>i s.
               let e = mem s (entry_at (pml4_virt (ctxs s src)) (of_nat i))
               in if pte_is_present e then write_word (entry_at (pml4_virt (ctxs s dst)) (of_nat i)) e s else s)
             [0..<256] s)))"

fun copy_loop :: "u64 \<Rightarrow> u64 \<Rightarrow> u64 \<Rightarrow> bool \<Rightarrow> nat \<Rightarrow> nat \<Rightarrow> 'a mmu_scheme \<Rightarrow> (int \<times> 'a mmu_scheme) result" where
  "copy_loop dst src virt_start cow i 0 s = Inr (0, s)"
| "copy_loop dst src virt_start cow i (Suc n) s =
     (let virt = virt_start + of_nat i * MMU_PAGE_SIZE_4K;
          src_pte = find_pte s src virt
      in if src_pte = 0 \<or> \<not> pte_is_present (mem s src_pte) then copy_loop dst src virt_start cow (Suc i) n s
         else
           let phys = pte_get_addr (mem s src_pte);
               flags = pte_get_flags (mem s src_pte);
               flags = (if cow then (flags AND NOT MMU_WRITABLE) OR MMU_AVAILABLE_1 else flags)
           in rbind (walk_page_tables dst virt True flags s) (\<lambda>(dst_pte, s).
                if dst_pte = 0 then Inr (-1, s)
                else copy_loop dst src virt_start cow (Suc i) n
                       (mmu_invlpg virt (write_word dst_pte (pte_create phys flags) s))))"

definition mmu_copy_range ::
  "u64 \<Rightarrow> u64 \<Rightarrow> u64 \<Rightarrow> u64 \<Rightarrow> bool \<Rightarrow> 'a mmu_scheme \<Rightarrow> (int \<times> 'a mmu_scheme) result" where
  "mmu_copy_range dst src virt_start sz cow s =
     (if dst = 0 \<or> src = 0 then Inr (-1, s) else copy_loop dst src virt_start cow 0 (num_pages_of sz) s)"

definition mmu_remap_page :: "u64 \<Rightarrow> u64 \<Rightarrow> u64 \<Rightarrow> 'a mmu_scheme \<Rightarrow> (int \<times> 'a mmu_scheme) result" where
  "mmu_remap_page ctx old_virt new_virt s =
     (let ctx = or_kernel s ctx;
          old = find_pte s ctx old_virt
      in if old = 0 \<or> \<not> pte_is_present (mem s old) then Inr (-1, s)
         else
           let phys = pte_get_addr (mem s old);
               flags = pte_get_flags (mem s old);
               s = mmu_invlpg old_virt (write_word old 0 s)
           in rbind (walk_page_tables ctx new_virt True flags s) (\<lambda>(newpte, s).
                if newpte = 0 then Inr (-1, s)
                else Inr (0, mmu_invlpg new_virt (write_word newpte (pte_create phys flags) s))))"

fun mmu_map_batch :: "u64 \<Rightarrow> mmu_mapping list \<Rightarrow> 'a mmu_scheme \<Rightarrow> (int \<times> 'a mmu_scheme) result" where
  "mmu_map_batch ctx [] s = Inr (0, s)"
| "mmu_map_batch ctx (m # ms) s =
     rbind (mmu_map_page ctx (m_virt_addr m) (m_phys_addr m) (m_flags m) s) (\<lambda>(r, s).
       if r \<noteq> 0 then Inr (-1, s) else mmu_map_batch ctx ms s)"

fun mmu_unmap_batch :: "u64 \<Rightarrow> u64 list \<Rightarrow> 'a mmu_scheme \<Rightarrow> (int \<times> 'a mmu_scheme) result" where
  "mmu_unmap_batch ctx [] s = Inr (0, s)"
| "mmu_unmap_batch ctx (v # vs) s = rbind (mmu_unmap_page ctx v s) (\<lambda>(_, s). mmu_unmap_batch ctx vs s)"

definition mmu_get_pml4_phys :: "'a mmu_scheme \<Rightarrow> u64 \<Rightarrow> u64" where
  "mmu_get_pml4_phys s ctx = (if ctx \<noteq> 0 then pml4_phys (ctxs s ctx) else 0)"

end
