(* ===== verification/Mmu_Tree.thy ===== *)
theory Mmu_Tree
  imports Mmu
begin

text \<open>
  The page tables of \<^verbatim>\<open>src/src/kernel/mm/mmu.c\<close> as a tree: entry format, indices, the invariant
  \<open>vm_inv\<close> that gives every table its one path from the root, and what creating tables and walking
  them does (\<open>get_or_create_spec\<close>, \<open>walk_create_spec\<close>, \<open>find_pte_eq\<close>).  \<open>leaf s root v\<close> is the
  translation of \<open>v\<close> that the tables hold.
\<close>

section \<open>Entries\<close>

lemma pte_masks: "MMU_ADDR_MASK AND MMU_FLAGS_MASK = (0 :: u64)" "MMU_ADDR_MASK OR MMU_FLAGS_MASK = (- 1 :: u64)"
  by simp_all

lemma pte_get_addr_create [simp]: "pte_get_addr (pte_create p f) = p AND MMU_ADDR_MASK"
  by (simp add: pte_get_addr_def pte_create_def bit.conj_disj_distrib2 and.assoc)

lemma pte_get_flags_create [simp]: "pte_get_flags (pte_create p f) = f AND MMU_FLAGS_MASK"
  by (simp add: pte_get_flags_def pte_create_def bit.conj_disj_distrib2 and.assoc)

lemma pte_create_get [simp]: "pte_create (pte_get_addr e) (pte_get_flags e) = e"
proof -
  have "(e AND MMU_ADDR_MASK) OR (e AND MMU_FLAGS_MASK) = e AND (MMU_ADDR_MASK OR MMU_FLAGS_MASK)"
    by (rule bit.conj_disj_distrib [symmetric])
  then show ?thesis
    unfolding pte_masks(2) by (simp add: pte_create_def pte_get_addr_def pte_get_flags_def and.assoc)
qed

lemma pte_is_present_create [simp]: "pte_is_present (pte_create p f) \<longleftrightarrow> pte_is_present f"
  by (simp add: pte_is_present_def pte_create_def bit.conj_disj_distrib2 and.assoc)

lemma pte_is_present_bit: "pte_is_present e \<longleftrightarrow> bit e 0"
  by (simp add: pte_is_present_def bit_iff_odd and_one_eq odd_iff_mod_2_eq_one)

lemma not_present_0 [simp]: "\<not> pte_is_present 0"
  by (simp add: pte_is_present_def)

lemma map_arch_flags_present [simp]: "pte_is_present (map_arch_flags g f)"
  by (simp add: map_arch_flags_def Let_def pte_is_present_def bit.conj_disj_distrib2)

lemma clear_nx:
  "pte_get_addr (e AND NOT MMU_NX) = pte_get_addr e"
  "pte_is_present (e AND NOT MMU_NX) = pte_is_present e"
proof -
  show "pte_get_addr (e AND NOT MMU_NX) = pte_get_addr e"
    by (simp add: pte_get_addr_def and.assoc)
  show "pte_is_present (e AND NOT MMU_NX) = pte_is_present e"
    by (simp add: pte_is_present_def and.assoc)
qed

lemma table_flags_present [simp]: "pte_is_present ((f AND NOT MMU_NX) OR MMU_PRESENT OR MMU_WRITABLE)"
  by (simp add: pte_is_present_def bit.conj_disj_distrib2)

section \<open>Pages\<close>

lemma in_page_div:
  assumes "IS_PAGE_ALIGNED a" and "x - a < PAGE_SIZE"
  shows "unat x div 4096 = unat a div 4096"
proof -
  obtain k where k: "unat a = 4096 * k" using assms(1) by (auto simp: IS_PAGE_ALIGNED_iff dvd_def)
  have "unat a < 2 ^ 64" using unat_lt2p [of a] by simp
  then have "4096 * k + 4096 \<le> 2 ^ 64" using k by simp
  moreover have d: "unat (x - a) < 4096" using assms(2) by (simp add: word_less_nat_alt)
  ultimately have "unat (a + (x - a)) = unat a + unat (x - a)"
    using k by (subst unat_add_lem [THEN iffD1]) auto
  then show ?thesis using k d by simp
qed

lemma same_page:
  assumes "IS_PAGE_ALIGNED a" "IS_PAGE_ALIGNED b" "x - a < PAGE_SIZE" "x - b < PAGE_SIZE"
  shows "a = b"
proof -
  have "unat a div 4096 = unat b div 4096" using in_page_div assms by metis
  moreover have "unat a mod 4096 = 0" "unat b mod 4096 = 0"
    using assms(1,2) by (auto simp: IS_PAGE_ALIGNED_iff)
  ultimately have "unat a = unat b" by (metis mod_mult_div_eq)
  then show ?thesis by (simp add: word_unat_eq_iff)
qed

lemma entry_in_page: "i < 512 \<Longrightarrow> entry_at t i - t < PAGE_SIZE"
proof -
  assume "i < 512"
  then have "unat (8 * i) < 4096" by (simp add: unat_word_ariths word_less_nat_alt)
  then show ?thesis by (simp add: entry_at_def word_less_nat_alt)
qed

lemma entry_at_inj: "i < 512 \<Longrightarrow> j < 512 \<Longrightarrow> entry_at t i = entry_at t j \<Longrightarrow> i = j"
proof -
  assume "i < 512" "j < 512" and e: "entry_at t i = entry_at t j"
  then have "unat (8 * i) = 8 * unat i" "unat (8 * j) = 8 * unat j"
    by (simp_all add: unat_word_ariths word_less_nat_alt)
  moreover have "8 * i = 8 * j" using e by (simp add: entry_at_def)
  ultimately have "unat i = unat j" by simp
  then show ?thesis by (simp add: word_unat_eq_iff)
qed

lemma entry_at_eq:
  assumes "IS_PAGE_ALIGNED a" "IS_PAGE_ALIGNED b" "i < 512" "j < 512"
  shows "entry_at a i = entry_at b j \<longleftrightarrow> a = b \<and> i = j"
  using assms same_page [of a b "entry_at a i"] entry_in_page [of i a] entry_in_page [of j b] entry_at_inj
  by metis

lemma and_511_less: "w AND 0x1FF < (512 :: u64)"
proof -
  have "w AND 0x1FF \<le> 0x1FF" by (rule word_and_le1)
  then show ?thesis by (simp add: word_le_nat_alt word_less_nat_alt)
qed

lemma index_less [simp]: "PML4_INDEX v < 512" "PDPT_INDEX v < 512" "PD_INDEX v < 512" "PT_INDEX v < 512"
  by (simp_all add: PML4_INDEX_def PDPT_INDEX_def PD_INDEX_def PT_INDEX_def and_511_less)

text \<open>The virtual page number that a four-level walk looks at: bits 12 to 47.\<close>

definition vpn :: "u64 \<Rightarrow> u64" where
  "vpn v = take_bit 36 (drop_bit 12 v)"

lemma bit_511: "bit (0x1FF :: u64) n \<longleftrightarrow> n < 9"
proof -
  have "(0x1FF :: u64) = mask 9" by (simp add: mask_eq_exp_minus_1)
  then have "bit (0x1FF :: u64) n \<longleftrightarrow> n < 64 \<and> n < 9" by (simp only: bit_mask_iff possible_bit_word) simp
  then show ?thesis by auto
qed

lemma index_bits:
  "bit (PML4_INDEX v) n \<longleftrightarrow> n < 9 \<and> bit v (39 + n)" "bit (PDPT_INDEX v) n \<longleftrightarrow> n < 9 \<and> bit v (30 + n)"
  "bit (PD_INDEX v) n \<longleftrightarrow> n < 9 \<and> bit v (21 + n)" "bit (PT_INDEX v) n \<longleftrightarrow> n < 9 \<and> bit v (12 + n)"
  unfolding PML4_INDEX_def PDPT_INDEX_def PD_INDEX_def PT_INDEX_def bit_and_iff bit_511 bit_drop_bit_eq comp_def
  by (auto simp: add.commute)

lemma vpn_bits: "bit (vpn v) n \<longleftrightarrow> n < 36 \<and> bit v (12 + n)"
  by (auto simp: vpn_def bit_take_bit_iff bit_drop_bit_eq)

lemma vpn_eq_iff:
  "vpn v = vpn w \<longleftrightarrow> PML4_INDEX v = PML4_INDEX w \<and> PDPT_INDEX v = PDPT_INDEX w \<and>
     PD_INDEX v = PD_INDEX w \<and> PT_INDEX v = PT_INDEX w" (is "?L \<longleftrightarrow> ?R")
proof
  assume L: ?L
  have b: "bit v (12 + n) = bit w (12 + n)" if "n < 36" for n using L that by (metis vpn_bits)
  have "bit v (39 + n) = bit w (39 + n)" "bit v (30 + n) = bit w (30 + n)"
    "bit v (21 + n) = bit w (21 + n)" "bit v (12 + n) = bit w (12 + n)" if "n < 9" for n
    using b [of "27 + n"] b [of "18 + n"] b [of "9 + n"] b [of n] that by (simp_all add: add.assoc [symmetric])
  then show ?R by (auto simp: bit_eq_iff index_bits)
next
  assume R: ?R
  have "bit v (12 + n) = bit w (12 + n)" if n: "n < 36" for n
  proof -
    consider "n < 9" | m where "n = 9 + m" "m < 9" | m where "n = 18 + m" "m < 9" | m where "n = 27 + m" "m < 9"
    proof (cases "n < 9")
      case False
      have "n = 9 + (n - 9)" "n = 18 + (n - 18) \<or> n < 18" "n = 27 + (n - 27) \<or> n < 27" using False by auto
      then show ?thesis using n False that(2) [of "n - 9"] that(3) [of "n - 18"] that(4) [of "n - 27"] by fastforce
    qed (use that in blast)
    then show ?thesis
    proof cases
      case 1
      then show ?thesis using R index_bits(4) [of v n] index_bits(4) [of w n] by simp
    next
      case (2 m)
      then show ?thesis using R index_bits(3) [of v m] index_bits(3) [of w m] by (simp add: add.assoc [symmetric])
    next
      case (3 m)
      then show ?thesis using R index_bits(2) [of v m] index_bits(2) [of w m] by (simp add: add.assoc [symmetric])
    next
      case (4 m)
      then show ?thesis using R index_bits(1) [of v m] index_bits(1) [of w m] by (simp add: add.assoc [symmetric])
    qed
  qed
  then show ?L by (auto simp: bit_eq_iff vpn_bits)
qed

lemma index_page [simp]:
  "PML4_INDEX (v AND - 4096) = PML4_INDEX v" "PDPT_INDEX (v AND - 4096) = PDPT_INDEX v"
  "PD_INDEX (v AND - 4096) = PD_INDEX v" "PT_INDEX (v AND - 4096) = PT_INDEX v"
proof -
  have m: "(- 4096 :: u64) = NOT (mask 12)" by (simp add: mask_eq_exp_minus_1)
  have "vpn (v AND - 4096) = vpn v"
    unfolding m by (intro bit_eqI) (auto simp: vpn_bits bit_and_iff bit_not_iff bit_mask_iff dest: bit_imp_le_length)
  then show "PML4_INDEX (v AND - 4096) = PML4_INDEX v" "PDPT_INDEX (v AND - 4096) = PDPT_INDEX v"
    "PD_INDEX (v AND - 4096) = PD_INDEX v" "PT_INDEX (v AND - 4096) = PT_INDEX v"
    by (simp_all add: vpn_eq_iff)
qed

section \<open>The tree of tables\<close>

definition ent :: "'a mmu_scheme \<Rightarrow> u64 \<Rightarrow> u64 \<Rightarrow> u64" where
  "ent s p i = mem s (entry_at (PHYS_TO_VIRT s p) i)"

fun walk_path :: "'a mmu_scheme \<Rightarrow> u64 \<Rightarrow> u64 list \<Rightarrow> u64 option" where
  "walk_path s p [] = Some p"
| "walk_path s p (i # is) =
     (if pte_is_present (ent s p i) then walk_path s (pte_get_addr (ent s p i)) is else None)"

definition table_path :: "u64 \<Rightarrow> u64 list" where
  "table_path v = [PML4_INDEX v, PDPT_INDEX v, PD_INDEX v]"

definition leaf :: "'a mmu_scheme \<Rightarrow> u64 \<Rightarrow> u64 \<Rightarrow> u64 option" where
  "leaf s root v =
     (case walk_path s root (table_path v) of
        None \<Rightarrow> None
      | Some pt \<Rightarrow> if pte_is_present (ent s pt (PT_INDEX v)) then Some (ent s pt (PT_INDEX v)) else None)"

text \<open>
  \<open>T\<close> names the path from the root of every table below the top-level slots \<open>U\<close>.  Since each table
  has one path, tables are not shared, and since tables are not free pages, allocation does not
  touch them.
\<close>

definition pt_inv :: "'a mmu_scheme \<Rightarrow> (nat \<Rightarrow> u64 list) \<Rightarrow> u64 \<Rightarrow> u64 set \<Rightarrow> (u64 \<rightharpoonup> u64 list) \<Rightarrow> bool" where
  "pt_inv s F root U T \<longleftrightarrow>
     T root = Some [] \<and>
     (\<forall>p path. T p = Some path \<longrightarrow>
        IS_PAGE_ALIGNED p \<and> PHYS_TO_VIRT s p \<noteq> 0 \<and> (\<forall>i < 3. p \<notin> set (F i)) \<and> length path \<le> 3) \<and>
     (\<forall>p path i. T p = Some path \<and> length path < 3 \<and> i < 512 \<and> (path = [] \<longrightarrow> i \<in> U) \<and>
        pte_is_present (ent s p i) \<longrightarrow> T (pte_get_addr (ent s p i)) = Some (path @ [i]))"

definition phys_ok :: "(nat \<Rightarrow> u64 list) \<Rightarrow> bool" where
  "phys_ok F \<longleftrightarrow> (\<forall>i < 3. \<forall>p \<in> set (F i). p AND MMU_ADDR_MASK = p)"

definition vm_inv :: "'a mmu_scheme \<Rightarrow> (nat \<Rightarrow> u64 list) \<Rightarrow> u64 \<Rightarrow> u64 set \<Rightarrow> (u64 \<rightharpoonup> u64 list) \<Rightarrow> bool" where
  "vm_inv s F root U T \<longleftrightarrow> pmm_inv s F \<and> 0 \<notin> set (F 0) \<and> phys_ok F \<and> pt_inv s F root U T"

lemma pt_invD:
  assumes "pt_inv s F root U T"
  shows "T root = Some []"
    and "T p = Some path \<Longrightarrow> IS_PAGE_ALIGNED p"
    and "T p = Some path \<Longrightarrow> PHYS_TO_VIRT s p \<noteq> 0"
    and "T p = Some path \<Longrightarrow> j < 3 \<Longrightarrow> p \<notin> set (F j)"
    and "T p = Some path \<Longrightarrow> length path \<le> 3"
    and "T p = Some path \<Longrightarrow> length path < 3 \<Longrightarrow> i < 512 \<Longrightarrow> path = [] \<longrightarrow> i \<in> U \<Longrightarrow>
      pte_is_present (ent s p i) \<Longrightarrow> T (pte_get_addr (ent s p i)) = Some (path @ [i])"
  using assms unfolding pt_inv_def by blast+

definition good_path :: "u64 set \<Rightarrow> u64 list \<Rightarrow> u64 list \<Rightarrow> bool" where
  "good_path U path is \<longleftrightarrow> length path + length is \<le> 3 \<and> (\<forall>i \<in> set is. i < 512) \<and>
     (path = [] \<and> is \<noteq> [] \<longrightarrow> hd is \<in> U)"

lemma good_path_Cons:
  "good_path U path (i # is) \<longleftrightarrow> length path < 3 \<and> i < 512 \<and> (path = [] \<longrightarrow> i \<in> U) \<and> good_path U (path @ [i]) is"
  by (auto simp: good_path_def)

lemma good_table_path: "PML4_INDEX v \<in> U \<Longrightarrow> good_path U [] (table_path v)"
  by (auto simp: good_path_def table_path_def)

lemma walk_path_table:
  "pt_inv s F root U T \<Longrightarrow> T p = Some path \<Longrightarrow> good_path U path is \<Longrightarrow> walk_path s p is = Some q \<Longrightarrow>
   T q = Some (path @ is)"
proof (induction "is" arbitrary: p path)
  case Nil
  then show ?case by simp
next
  case (Cons i "is")
  then have g: "length path < 3" "i < 512" "path = [] \<longrightarrow> i \<in> U" "good_path U (path @ [i]) is"
    by (auto simp: good_path_Cons)
  have "pte_is_present (ent s p i)" using Cons.prems by (auto split: if_splits)
  then show ?case
    using Cons.IH [OF Cons.prems(1) pt_invD(6) [OF Cons.prems(1,2) g(1-3)] g(4)] Cons.prems by simp
qed

lemma walk_path_same:
  assumes inv: "pt_inv s F root U T"
    and same: "\<And>p path i. T p = Some path \<Longrightarrow> length path < 3 \<Longrightarrow> i < 512 \<Longrightarrow>
      pte_is_present (ent t p i) = pte_is_present (ent s p i) \<and>
      pte_get_addr (ent t p i) = pte_get_addr (ent s p i)"
  shows "T p = Some path \<Longrightarrow> good_path U path is \<Longrightarrow> walk_path t p is = walk_path s p is"
proof (induction "is" arbitrary: p path)
  case Nil
  then show ?case by simp
next
  case (Cons i "is")
  then have g: "length path < 3" "i < 512" "path = [] \<longrightarrow> i \<in> U" "good_path U (path @ [i]) is"
    by (auto simp: good_path_Cons)
  show ?case
  proof (cases "pte_is_present (ent s p i)")
    case True
    then show ?thesis
      using Cons.IH [OF pt_invD(6) [OF inv Cons.prems(1) g(1-3) True] g(4)] same [OF Cons.prems(1) g(1,2)] by simp
  next
    case False
    then show ?thesis using same [OF Cons.prems(1) g(1,2)] by simp
  qed
qed

lemma leaf_same:
  assumes inv: "pt_inv s F root U T" and v: "PML4_INDEX v \<in> U"
    and same: "\<And>p path i. T p = Some path \<Longrightarrow> length path < 3 \<Longrightarrow> i < 512 \<Longrightarrow>
      pte_is_present (ent t p i) = pte_is_present (ent s p i) \<and>
      pte_get_addr (ent t p i) = pte_get_addr (ent s p i)"
    and last: "\<And>p path. T p = Some path \<Longrightarrow> length path = 3 \<Longrightarrow> ent t p (PT_INDEX v) = ent s p (PT_INDEX v)"
  shows "leaf t root v = leaf s root v"
proof -
  note g = good_table_path [OF v]
  have w: "walk_path t root (table_path v) = walk_path s root (table_path v)"
    using walk_path_same [OF inv same pt_invD(1) [OF inv] g] .
  have "T q = Some (table_path v)" if "walk_path s root (table_path v) = Some q" for q
    using walk_path_table [OF inv pt_invD(1) [OF inv] g that] by simp
  then have "ent t q (PT_INDEX v) = ent s q (PT_INDEX v)" if "walk_path s root (table_path v) = Some q" for q
    using last that by (simp add: table_path_def)
  then show ?thesis by (simp add: leaf_def w split: option.splits)
qed

text \<open>Hanging an empty table below an entry that was not present changes no translation.\<close>

lemma walk_path_fresh:
  assumes inv: "pt_inv s F root U T"
    and old: "\<not> pte_is_present (ent s p i)" and new: "pte_get_addr (ent t p i) = q"
    and empty: "\<And>j. j < 512 \<Longrightarrow> ent t q j = 0"
    and same: "\<And>p' path j. T p' = Some path \<Longrightarrow> j < 512 \<Longrightarrow> (p', j) \<noteq> (p, i) \<Longrightarrow> ent t p' j = ent s p' j"
  shows "T p' = Some path \<Longrightarrow> good_path U path is \<Longrightarrow>
     walk_path t p' is = walk_path s p' is \<or> walk_path s p' is = None \<and> walk_path t p' is = Some q"
proof (induction "is" arbitrary: p' path)
  case Nil
  then show ?case by simp
next
  case (Cons j "is")
  then have g: "length path < 3" "j < 512" "path = [] \<longrightarrow> j \<in> U" "good_path U (path @ [j]) is"
    by (auto simp: good_path_Cons)
  show ?case
  proof (cases "(p', j) = (p, i)")
    case True
    have "walk_path t q is = None \<or> walk_path t q is = Some q"
      using empty g(4) by (cases "is") (auto simp: good_path_def)
    then show ?thesis using True old new by auto
  next
    case False
    then have e: "ent t p' j = ent s p' j" using same [OF Cons.prems(1) g(2)] by blast
    show ?thesis
    proof (cases "pte_is_present (ent s p' j)")
      case True
      then show ?thesis using Cons.IH [OF pt_invD(6) [OF inv Cons.prems(1) g(1-3) True] g(4)] e by simp
    next
      case False
      then show ?thesis using e by simp
    qed
  qed
qed

lemma leaf_fresh:
  assumes inv: "pt_inv s F root U T" and v: "PML4_INDEX v \<in> U"
    and p: "T p = Some pp" "length pp < 3"
    and old: "\<not> pte_is_present (ent s p i)" and new: "pte_get_addr (ent t p i) = q"
    and empty: "\<And>j. j < 512 \<Longrightarrow> ent t q j = 0"
    and same: "\<And>p' path j. T p' = Some path \<Longrightarrow> j < 512 \<Longrightarrow> (p', j) \<noteq> (p, i) \<Longrightarrow> ent t p' j = ent s p' j"
  shows "leaf t root v = leaf s root v"
proof -
  note g = good_table_path [OF v] and r = pt_invD(1) [OF inv]
  have w: "walk_path t root (table_path v) = walk_path s root (table_path v) \<or>
      walk_path s root (table_path v) = None \<and> walk_path t root (table_path v) = Some q"
    by (rule walk_path_fresh [OF inv old new empty same r g])
  have k: "ent t x (PT_INDEX v) = ent s x (PT_INDEX v)" if "walk_path s root (table_path v) = Some x" for x
  proof -
    have "T x = Some (table_path v)" using walk_path_table [OF inv r g that] by simp
    moreover have "x \<noteq> p" using calculation p by (auto simp: table_path_def)
    ultimately show ?thesis using same by simp
  qed
  show ?thesis
  proof (cases "walk_path s root (table_path v)")
    case None
    then show ?thesis using w empty [of "PT_INDEX v"] by (auto simp: leaf_def)
  next
    case (Some x)
    then show ?thesis using w k by (auto simp: leaf_def)
  qed
qed

section \<open>Creating tables\<close>

definition mmu_frame :: "'a mmu_scheme \<Rightarrow> 'a mmu_scheme \<Rightarrow> bool" where
  "mmu_frame s t \<longleftrightarrow> hhdm_offset t = hhdm_offset s \<and> ctxs t = ctxs s \<and> kernel_ctx t = kernel_ctx s \<and>
     features t = features s \<and> tlb t = tlb s \<and> cr3 t = cr3 s"

lemma mmu_frame_refl [simp]: "mmu_frame s s"
  by (simp add: mmu_frame_def)

lemma mmu_frame_trans: "mmu_frame s t \<Longrightarrow> mmu_frame t u \<Longrightarrow> mmu_frame s u"
  by (simp add: mmu_frame_def)

lemma mmu_frame_virt: "mmu_frame s t \<Longrightarrow> PHYS_TO_VIRT t = PHYS_TO_VIRT s"
  by (rule PHYS_TO_VIRT_cong) (simp add: mmu_frame_def)

lemma mmu_frame_more: "pmm.more t = pmm.more s \<Longrightarrow> hhdm_offset t = hhdm_offset s \<Longrightarrow> mmu_frame s t"
  by (cases s; cases t) (simp add: mmu_frame_def)

lemma mmu_frame_write [simp]: "mmu_frame s (write_word a w s)"
  by (simp add: mmu_frame_def write_word_def)

lemma write_word_simps [simp]:
  "mem (write_word a w s) = (mem s)(a := w)" "PHYS_TO_VIRT (write_word a w s) = PHYS_TO_VIRT s"
  "zones (write_word a w s) = zones s" "hhdm_offset (write_word a w s) = hhdm_offset s"
  by (simp_all add: write_word_def PHYS_TO_VIRT_def fun_eq_iff)

lemma memset_page_twice: "memset_page (memset_page m p) p = memset_page m p"
  by (simp add: memset_page_def fun_eq_iff)

lemma alloc_page_table_spec:
  assumes inv: "pmm_inv s F" "0 \<notin> set (F 0)"
  shows "alloc_page_table s = Inl Panic \<and> (\<forall>i < 3. F i = []) \<or>
    (\<exists>i < 3. \<exists>q qs t. F i = q # qs \<and> alloc_page_table s = Inr (PHYS_TO_VIRT s q, t) \<and>
       pmm_inv t (F(i := qs)) \<and> mem t = memset_page (mem s) (PHYS_TO_VIRT s q) \<and> mmu_frame s t)"
proof -
  obtain q u where a: "pmm_alloc_page s = (q, u)" by fastforce
  from pmm_alloc_page_spec [OF inv a] show ?thesis
  proof (elim disjE conjE exE)
    assume "q = 0" "\<forall>i < 3. F i = []"
    then show ?thesis using a by (simp add: alloc_page_table_def)
  next
    fix i qs
    assume q: "q \<noteq> 0" "i < 3" "F i = q # qs" and u: "pmm_inv u (F(i := qs))"
      "mem u = memset_page (mem s) (PHYS_TO_VIRT s q)" "hhdm_offset u = hhdm_offset s" "pmm.more u = pmm.more s"
    let ?t = "u\<lparr>mem := memset_page (mem u) (PHYS_TO_VIRT s q),
                g_stats := (g_stats u)\<lparr>g_tables_allocated := g_tables_allocated (g_stats u) + 1\<rparr>\<rparr>"
    have v: "PHYS_TO_VIRT u = PHYS_TO_VIRT s" using u(3) by (rule PHYS_TO_VIRT_cong)
    have "mmu_frame s u" using u(4,3) by (rule mmu_frame_more)
    then have f: "mmu_frame s ?t" by (simp add: mmu_frame_def)
    have t: "alloc_page_table s = Inr (PHYS_TO_VIRT s q, ?t)"
      using a q(1) by (simp add: alloc_page_table_def v Let_def)
    have m: "mem ?t = memset_page (mem s) (PHYS_TO_VIRT s q)"
      by (simp add: u(2) memset_page_twice)
    have "pmm_inv ?t (F(i := qs))"
      using pmm_inv_cong [of ?t u] u(1) m u(2) by simp
    then show ?thesis using q t m f by blast
  qed
qed

lemma pmm_inv_write:
  assumes "pmm_inv s F" and "\<And>i p. i < 3 \<Longrightarrow> p \<in> set (F i) \<Longrightarrow> a \<noteq> PHYS_TO_VIRT s p"
  shows "pmm_inv (write_word a w s) F"
proof -
  have "zone_inv (write_word a w s) i (F i)" if i: "i < 3" for i
  proof -
    have z: "zone_inv s i (F i)" using assms(1) i by (simp add: pmm_inv_def)
    show ?thesis
    proof (rule zone_inv_frame [OF z])
      show "mem (write_word a w s) (PHYS_TO_VIRT s p) = mem s (PHYS_TO_VIRT s p)" if "p \<in> set (F i)" for p
        using assms(2) [OF i that] by simp
    qed simp_all
  qed
  then show ?thesis using assms(1) by (simp add: pmm_inv_def)
qed

lemma table_virt_aligned:
  assumes "pmm_inv s F" "pt_inv s F root U T" "T p = Some path"
  shows "IS_PAGE_ALIGNED (PHYS_TO_VIRT s p)"
  using assms pt_invD(2) [OF assms(2,3)] by (simp add: pmm_inv_def PHYS_TO_VIRT_aligned)

lemma entry_not_free:
  assumes "pmm_inv s F" "pt_inv s F root U T" "T p = Some path" "i < 512" "j < 3" "q \<in> set (F j)"
  shows "entry_at (PHYS_TO_VIRT s p) i - PHYS_TO_VIRT s q \<ge> PAGE_SIZE"
proof (rule ccontr)
  assume "\<not> ?thesis"
  then have l: "entry_at (PHYS_TO_VIRT s p) i - PHYS_TO_VIRT s q < PAGE_SIZE" by simp
  have "zone_inv s j (F j)" using assms(1,5) by (simp add: pmm_inv_def)
  then have "IS_PAGE_ALIGNED q" using assms(6) by (simp add: zone_inv_def)
  then have "IS_PAGE_ALIGNED (PHYS_TO_VIRT s q)" using assms(1) by (simp add: pmm_inv_def PHYS_TO_VIRT_aligned)
  from same_page [OF table_virt_aligned [OF assms(1-3)] this entry_in_page [OF assms(4)] l]
  have "p = q" by simp
  then show False using pt_invD(4) [OF assms(2,3,5)] assms(6) by simp
qed

lemma ent_write:
  assumes "pmm_inv s F" "pt_inv s F root U T" "T p = Some path" "T p' = Some path'" "i < 512" "j < 512"
  shows "ent (write_word (entry_at (PHYS_TO_VIRT s p) i) w s) p' j = (if p' = p \<and> j = i then w else ent s p' j)"
  using entry_at_eq [OF table_virt_aligned [OF assms(1,2,4)] table_virt_aligned [OF assms(1,2,3)] assms(6,5)]
  by (simp add: ent_def)

text \<open>Writing an entry of a table keeps the invariant when the new value has the right target.\<close>

lemma vm_inv_write:
  assumes inv: "vm_inv s F root U T" and p: "T p = Some path" and i: "i < 512"
    and w: "length path < 3 \<Longrightarrow> path = [] \<longrightarrow> i \<in> U \<Longrightarrow> pte_is_present w \<Longrightarrow> T (pte_get_addr w) = Some (path @ [i])"
  shows "vm_inv (write_word (entry_at (PHYS_TO_VIRT s p) i) w s) F root U T"
proof -
  let ?t = "write_word (entry_at (PHYS_TO_VIRT s p) i) w s"
  have pm: "pmm_inv s F" and pt: "pt_inv s F root U T" using inv by (auto simp: vm_inv_def)
  have "entry_at (PHYS_TO_VIRT s p) i \<noteq> PHYS_TO_VIRT s q" if "j < 3" "q \<in> set (F j)" for j q
    using entry_not_free [OF pm pt p i that] by auto
  then have "pmm_inv ?t F" by (rule pmm_inv_write [OF pm])
  moreover have "T (pte_get_addr (ent ?t p' j)) = Some (path' @ [j])"
    if a: "T p' = Some path'" "length path' < 3" "j < 512" "path' = [] \<longrightarrow> j \<in> U" "pte_is_present (ent ?t p' j)" for p' path' j
  proof (cases "p' = p \<and> j = i")
    case True
    then show ?thesis using a p w ent_write [OF pm pt p a(1) i a(3), of w] by simp
  next
    case False
    then show ?thesis
      using a ent_write [OF pm pt p a(1) i a(3), of w] pt_invD(6) [OF pt a(1-4)] by (auto split: if_splits)
  qed
  ultimately show ?thesis using inv unfolding vm_inv_def pt_inv_def by simp
qed

definition grows ::
  "u64 \<Rightarrow> u64 set \<Rightarrow> 'a mmu_scheme \<Rightarrow> (nat \<Rightarrow> u64 list) \<Rightarrow> (u64 \<rightharpoonup> u64 list) \<Rightarrow>
   'a mmu_scheme \<Rightarrow> (nat \<Rightarrow> u64 list) \<Rightarrow> (u64 \<rightharpoonup> u64 list) \<Rightarrow> bool" where
  "grows root U s F T t F' T' \<longleftrightarrow>
     vm_inv t F' root U T' \<and> T \<subseteq>\<^sub>m T' \<and> mmu_frame s t \<and> (\<forall>i < 3. set (F' i) \<subseteq> set (F i)) \<and>
     (\<forall>p \<in> dom T'. p \<in> dom T \<or> (\<exists>i < 3. p \<in> set (F i))) \<and>
     (\<forall>p path j. T p = Some path \<and> length path < 3 \<and> j < 512 \<and> pte_is_present (ent s p j) \<longrightarrow>
        pte_is_present (ent t p j) \<and> pte_get_addr (ent t p j) = pte_get_addr (ent s p j)) \<and>
     (\<forall>v. PML4_INDEX v \<in> U \<longrightarrow> leaf t root v = leaf s root v) \<and>
     (\<forall>x. (\<forall>p \<in> dom T'. \<not> x - PHYS_TO_VIRT s p < PAGE_SIZE) \<longrightarrow> mem t x = mem s x)"

lemma grows_refl: "vm_inv s F root U T \<Longrightarrow> grows root U s F T s F T"
  by (auto simp: grows_def)

lemma grows_trans:
  assumes a: "grows root U s F T t G S" and b: "grows root U t G S u H R"
  shows "grows root U s F T u H R"
proof -
  have v: "PHYS_TO_VIRT t = PHYS_TO_VIRT s" using a by (auto simp: grows_def mmu_frame_virt)
  have m: "T \<subseteq>\<^sub>m S" "S \<subseteq>\<^sub>m R" using a b by (auto simp: grows_def)
  have "pte_is_present (ent u p j) \<and> pte_get_addr (ent u p j) = pte_get_addr (ent s p j)"
    if "T p = Some path" "length path < 3" "j < 512" "pte_is_present (ent s p j)" for p path j
  proof -
    have "S p = Some path" using m(1) that(1) by (metis domI map_le_def)
    then show ?thesis using a b that by (auto simp: grows_def)
  qed
  moreover have "mem u x = mem s x" if "\<forall>p \<in> dom R. \<not> x - PHYS_TO_VIRT s p < PAGE_SIZE" for x
    using that a b v map_le_implies_dom_le [OF m(2)] by (auto simp: grows_def subset_iff)
  moreover have "\<forall>i < 3. set (H i) \<subseteq> set (F i)" using a b by (fastforce simp: grows_def)
  moreover have "\<forall>p \<in> dom R. p \<in> dom T \<or> (\<exists>i < 3. p \<in> set (F i))" using a b unfolding grows_def by blast
  moreover have "T \<subseteq>\<^sub>m R" using m by (rule map_le_trans)
  moreover have "mmu_frame s u" using a b mmu_frame_trans by (auto simp: grows_def)
  ultimately show ?thesis using a b unfolding grows_def by auto
qed

lemma grows_keep_nx:
  assumes inv: "vm_inv s F root U T" and p: "T p = Some path" "length path < 3" and i: "i < 512"
    and w: "pte_is_present w = pte_is_present (ent s p i)" "pte_get_addr w = pte_get_addr (ent s p i)"
  shows "grows root U s F T (write_word (entry_at (PHYS_TO_VIRT s p) i) w s) F T"
proof -
  let ?t = "write_word (entry_at (PHYS_TO_VIRT s p) i) w s"
  have pm: "pmm_inv s F" and pt: "pt_inv s F root U T" using inv by (auto simp: vm_inv_def)
  note ent = ent_write [OF pm pt p(1) _ i, of _ _ _ w]
  have "vm_inv ?t F root U T"
    using pt_invD(6) [OF pt p i] w by (intro vm_inv_write [OF inv p(1) i]) auto
  moreover have "leaf ?t root v = leaf s root v" if v: "PML4_INDEX v \<in> U" for v
    by (rule leaf_same [OF pt v]) (use p w in \<open>auto simp: ent\<close>)
  moreover have "mem ?t x = mem s x" if "\<forall>p \<in> dom T. \<not> x - PHYS_TO_VIRT s p < PAGE_SIZE" for x
    using that p(1) entry_in_page [OF i, of "PHYS_TO_VIRT s p"] by auto
  ultimately show ?thesis unfolding grows_def using p w by (auto simp: ent)
qed

lemma vm_inv_new_table:
  assumes inv: "vm_inv s F root U T" and p: "T p = Some path" "length path < 3" and i: "i < 512"
    and q: "k < 3" "F k = q # qs" and t: "pmm_inv t (F(k := qs))"
      "mem t = memset_page (mem s) (PHYS_TO_VIRT s q)" "mmu_frame s t"
  shows "vm_inv t (F(k := qs)) root U (T(q \<mapsto> path @ [i]))"
    and "\<And>p' path' j. T p' = Some path' \<Longrightarrow> j < 512 \<Longrightarrow> ent t p' j = ent s p' j"
    and "\<And>j. j < 512 \<Longrightarrow> ent t q j = 0"
    and "T q = None" and "q AND MMU_ADDR_MASK = q"
proof -
  have pm: "pmm_inv s F" and pt: "pt_inv s F root U T" and ph: "phys_ok F" and z: "0 \<notin> set (F 0)"
    using inv by (auto simp: vm_inv_def)
  have v: "PHYS_TO_VIRT t = PHYS_TO_VIRT s" using t(3) by (rule mmu_frame_virt)
  have zq: "zone_inv s k (q # qs)" using pm q by (auto simp: pmm_inv_def)
  have qin: "q \<in> set (F k)" using q by simp
  show e: "ent t p' j = ent s p' j" if "T p' = Some path'" "j < 512" for p' path' j
    using entry_not_free [OF pm pt that q(1) qin] by (simp add: ent_def v t(2) memset_page_outside)
  show e0: "ent t q j = 0" if "j < 512" for j
    using entry_in_page [OF that] by (simp add: ent_def v t(2) memset_page_def)
  show Tq: "T q = None" using pt_invD(4) [OF pt _ q(1)] qin by (cases "T q") auto
  show "q AND MMU_ADDR_MASK = q" using ph q(1) qin by (simp add: phys_ok_def)
  have nf: "q \<notin> set ((F(k := qs)) j)" if "j < 3" for j
  proof (cases "j = k")
    case False
    have "zone_inv s j (F j)" using pm that by (simp add: pmm_inv_def)
    then show ?thesis using zone_inv_disjoint [OF zq, of j "F j" q] False by auto
  qed (use zone_inv_distinct [OF zq] in simp)
  have old: "IS_PAGE_ALIGNED p' \<and> PHYS_TO_VIRT t p' \<noteq> 0 \<and> (\<forall>j < 3. p' \<notin> set ((F(k := qs)) j)) \<and> length path' \<le> 3"
    if "T p' = Some path'" for p' path'
    using pt_invD(2,3,5) [OF pt that] pt_invD(4) [OF pt that] pt_invD(4) [OF pt that q(1)] q(2) by (auto simp: v)
  have "IS_PAGE_ALIGNED q" "PHYS_TO_VIRT s q \<noteq> 0" using zq by (auto simp: zone_inv_def)
  then have new: "IS_PAGE_ALIGNED q \<and> PHYS_TO_VIRT t q \<noteq> 0 \<and> (\<forall>j < 3. q \<notin> set ((F(k := qs)) j)) \<and> length (path @ [i]) \<le> 3"
    using nf p(2) by (simp add: v)
  have "(T(q \<mapsto> path @ [i])) (pte_get_addr (ent t p' j)) = Some (path' @ [j])"
    if a: "(T(q \<mapsto> path @ [i])) p' = Some path'" "length path' < 3" "j < 512" "path' = [] \<longrightarrow> j \<in> U"
      "pte_is_present (ent t p' j)" for p' path' j
  proof -
    have "p' \<noteq> q" using e0 a(3,5) by auto
    then have "T p' = Some path'" using a(1) by simp
    moreover from this have "T (pte_get_addr (ent t p' j)) = Some (path' @ [j])"
      using pt_invD(6) [OF pt] a e by simp
    ultimately show ?thesis using Tq by auto
  qed
  moreover have "(T(q \<mapsto> path @ [i])) root = Some []" using pt_invD(1) [OF pt] Tq by auto
  ultimately have "pt_inv t (F(k := qs)) root U (T(q \<mapsto> path @ [i]))"
    unfolding pt_inv_def using old new by (auto split: if_splits)
  moreover have "phys_ok (F(k := qs))" using ph q(2) unfolding phys_ok_def by (auto split: if_splits)
  moreover have "0 \<notin> set ((F(k := qs)) 0)" using z q(2) by auto
  ultimately show "vm_inv t (F(k := qs)) root U (T(q \<mapsto> path @ [i]))"
    using t(1) unfolding vm_inv_def by blast
qed

definition nfree :: "(nat \<Rightarrow> u64 list) \<Rightarrow> nat" where
  "nfree F = length (F 0) + length (F 1) + length (F 2)"

lemma nfree_pop: "k < 3 \<Longrightarrow> F k = q # qs \<Longrightarrow> nfree (F(k := qs)) + 1 = nfree F"
  by (auto simp: nfree_def less_Suc_eq numeral_3_eq_3 numeral_2_eq_2)

lemma nfree_0: "(\<forall>i < 3. F i = []) \<Longrightarrow> nfree F = 0"
  by (simp add: nfree_def)

text \<open>A present entry at most loses its NX bit; an absent one gets a new empty table below it.\<close>

lemma get_or_create_present:
  assumes inv: "vm_inv s F root U T" and p: "T p = Some path" "length path < 3"
    and i: "i < 512" "path = [] \<longrightarrow> i \<in> U" and pr: "pte_is_present (ent s p i)"
  shows "\<exists>t. get_or_create_table (PHYS_TO_VIRT s p) i flags s = Inr (PHYS_TO_VIRT s (pte_get_addr (ent s p i)), t) \<and>
       grows root U s F T t F T \<and> T (pte_get_addr (ent s p i)) = Some (path @ [i]) \<and>
       pte_is_present (ent t p i) \<and> pte_get_addr (ent t p i) = pte_get_addr (ent s p i)"
proof -
  have pm: "pmm_inv s F" and pt: "pt_inv s F root U T" using inv by (auto simp: vm_inv_def)
  let ?a = "entry_at (PHYS_TO_VIRT s p) i"
  let ?w = "if ent s p i AND MMU_NX \<noteq> 0 then ent s p i AND NOT MMU_NX else ent s p i"
  let ?t = "write_word ?a ?w s"
  have w: "pte_is_present ?w = pte_is_present (ent s p i)" "pte_get_addr ?w = pte_get_addr (ent s p i)"
    using clear_nx by auto
  have g: "grows root U s F T ?t F T" by (rule grows_keep_nx [OF inv p i(1) w])
  have e: "ent ?t p i = ?w" using ent_write [OF pm pt p(1) p(1) i(1) i(1), of ?w] by simp
  have "write_word ?a (ent s p i) s = s" by (simp add: write_word_def ent_def)
  then have r: "get_or_create_table (PHYS_TO_VIRT s p) i flags s = Inr (PHYS_TO_VIRT s (pte_get_addr (ent s p i)), ?t)"
    using pr clear_nx unfolding get_or_create_table_def Let_def ent_def [symmetric]
    by (auto simp: ent_def [symmetric])
  have "pte_is_present (ent ?t p i)" "pte_get_addr (ent ?t p i) = pte_get_addr (ent s p i)"
    unfolding e w using pr by auto
  then show ?thesis using r g pt_invD(6) [OF pt p i pr] by (intro exI [of _ ?t] conjI)
qed

lemma grows_new_table:
  assumes inv: "vm_inv s F root U T" and p: "T p = Some path" "length path < 3" and i: "i < 512"
    and absent: "\<not> pte_is_present (ent s p i)"
    and q: "k < 3" "F k = q # qs" and u: "pmm_inv u (F(k := qs))"
      "mem u = memset_page (mem s) (PHYS_TO_VIRT s q)" "mmu_frame s u" and w: "pte_get_addr w = q"
  shows "grows root U s F T (write_word (entry_at (PHYS_TO_VIRT s p) i) w u) (F(k := qs)) (T(q \<mapsto> path @ [i]))"
    and "ent (write_word (entry_at (PHYS_TO_VIRT s p) i) w u) p i = w"
proof -
  let ?a = "entry_at (PHYS_TO_VIRT s p) i"
  let ?T = "T(q \<mapsto> path @ [i])" and ?F = "F(k := qs)" and ?t = "write_word ?a w u"
  have pt: "pt_inv s F root U T" using inv by (simp add: vm_inv_def)
  note new = vm_inv_new_table [OF inv p i q u] and vu = mmu_frame_virt [OF u(3)]
  have Tp: "?T p = Some path" "q \<noteq> p" using p(1) new(4) by auto
  have pmu: "pmm_inv u ?F" and ptu: "pt_inv u ?F root U ?T" using new(1) by (auto simp: vm_inv_def)
  have "?T (pte_get_addr w) = Some (path @ [i])" using w by simp
  then have inv': "vm_inv ?t ?F root U ?T" using vm_inv_write [OF new(1) Tp(1) i, of w, unfolded vu] by blast
  have ent: "ent ?t p' j = (if p' = p \<and> j = i then w else ent u p' j)" if "?T p' = Some path'" "j < 512" for p' path' j
    using ent_write [OF pmu ptu Tp(1) that(1) i that(2), of w] by (simp add: vu)
  have ent': "ent ?t p' j = ent s p' j" if "T p' = Some path'" "j < 512" "(p', j) \<noteq> (p, i)" for p' path' j
  proof -
    have "?T p' = Some path'" using that(1) new(4) by auto
    from ent [OF this that(2)] show ?thesis using new(2) [OF that(1,2)] that(3) by auto
  qed
  show entp: "ent ?t p i = w" using ent [OF Tp(1) i] by simp
  have entq: "ent ?t q j = 0" if "j < 512" for j
    using ent [of q "path @ [i]" j] that new(3) Tp(2) by simp
  have lf: "leaf ?t root v = leaf s root v" if "PML4_INDEX v \<in> U" for v
    by (rule leaf_fresh [OF pt that p absent _ entq ent']) (use entp w in auto)
  have "mem ?t x = mem s x" if x: "\<forall>p \<in> dom ?T. \<not> x - PHYS_TO_VIRT s p < PAGE_SIZE" for x
  proof -
    have "x \<noteq> ?a" using x p(1) entry_in_page [OF i, of "PHYS_TO_VIRT s p"] by auto
    moreover have "\<not> x - PHYS_TO_VIRT s q < PAGE_SIZE" using x by auto
    ultimately show ?thesis by (simp add: u(2) memset_page_outside)
  qed
  moreover have "pte_is_present (ent ?t p' j) \<and> pte_get_addr (ent ?t p' j) = pte_get_addr (ent s p' j)"
    if "T p' = Some path'" "j < 512" "pte_is_present (ent s p' j)" for p' path' j
    using ent' [OF that(1,2)] that(3) absent by (cases "(p', j) = (p, i)") auto
  moreover have "T \<subseteq>\<^sub>m ?T" using new(4) by (auto simp: map_le_def)
  moreover have "\<forall>x \<in> dom ?T. x \<in> dom T \<or> (\<exists>i < 3. x \<in> set (F i))" using q by auto
  ultimately show "grows root U s F T ?t ?F ?T"
    unfolding grows_def using inv' lf mmu_frame_trans [OF u(3) mmu_frame_write] q(2) by auto
qed

lemma get_or_create_spec:
  assumes inv: "vm_inv s F root U T" and p: "T p = Some path" "length path < 3"
    and i: "i < 512" "path = [] \<longrightarrow> i \<in> U"
  shows "get_or_create_table (PHYS_TO_VIRT s p) i flags s = Inl Panic \<and> nfree F = 0 \<or>
    (\<exists>q t F' T'. get_or_create_table (PHYS_TO_VIRT s p) i flags s = Inr (PHYS_TO_VIRT s q, t) \<and>
       grows root U s F T t F' T' \<and> nfree F \<le> nfree F' + 1 \<and> T' q = Some (path @ [i]) \<and>
       pte_is_present (ent t p i) \<and> pte_get_addr (ent t p i) = q)"
proof (cases "pte_is_present (ent s p i)")
  case True
  from get_or_create_present [OF assms True, of flags] show ?thesis by fastforce
next
  case False
  then have ne: "\<not> pte_is_present (mem s (entry_at (PHYS_TO_VIRT s p) i))" by (simp add: ent_def)
  have pm: "pmm_inv s F" and z: "0 \<notin> set (F 0)" using inv by (auto simp: vm_inv_def)
  from alloc_page_table_spec [OF pm z] show ?thesis
  proof (elim disjE conjE exE)
    assume "alloc_page_table s = Inl Panic" "\<forall>i < 3. F i = []"
    then show ?thesis using ne by (simp add: get_or_create_table_def nfree_0)
  next
    fix k q qs u
    assume q: "k < 3" "F k = q # qs" and al: "alloc_page_table s = Inr (PHYS_TO_VIRT s q, u)"
      and u: "pmm_inv u (F(k := qs))" "mem u = memset_page (mem s) (PHYS_TO_VIRT s q)" "mmu_frame s u"
    note new = vm_inv_new_table [OF inv p i(1) q u]
    have vu: "VIRT_TO_PHYS u (PHYS_TO_VIRT s q) = q"
      using u(3) by (auto simp: mmu_frame_def VIRT_TO_PHYS_def PHYS_TO_VIRT_def)
    have nn: "PHYS_TO_VIRT s q \<noteq> 0"
      using new(1) pt_invD(3) [of u "F(k := qs)" root U "T(q \<mapsto> path @ [i])" q "path @ [i]"] mmu_frame_virt [OF u(3)]
      by (simp add: vm_inv_def del: fun_upd_apply) simp
    define w where "w = pte_create q ((flags AND NOT MMU_NX) OR MMU_PRESENT OR MMU_WRITABLE)"
    have w: "pte_is_present w" "pte_get_addr w = q"
      using new(5) by (simp_all only: w_def pte_is_present_create table_flags_present pte_get_addr_create)
    let ?t = "write_word (entry_at (PHYS_TO_VIRT s p) i) w u"
    note g = grows_new_table [OF inv p i(1) False q u w(2)]
    have "get_or_create_table (PHYS_TO_VIRT s p) i flags s = Inr (PHYS_TO_VIRT s q, ?t)"
      using ne al nn by (simp add: get_or_create_table_def vu w_def)
    then show ?thesis
      using nfree_pop [of k F, OF q] w g
      by (intro disjI2 exI [of _ q] exI [of _ ?t] exI [of _ "F(k := qs)"] exI [of _ "T(q \<mapsto> path @ [i])"] conjI) simp_all
  qed
qed

section \<open>Walks\<close>

lemma grows_present:
  "grows root U s F T t F' T' \<Longrightarrow> T p = Some path \<Longrightarrow> length path < 3 \<Longrightarrow> j < 512 \<Longrightarrow>
   pte_is_present (ent s p j) \<Longrightarrow> pte_is_present (ent t p j) \<and> pte_get_addr (ent t p j) = pte_get_addr (ent s p j)"
  by (auto simp: grows_def)

lemma growsD:
  assumes "grows root U s F T t F' T'"
  shows "vm_inv t F' root U T'" and "mmu_frame s t" and "PHYS_TO_VIRT t = PHYS_TO_VIRT s"
    and "T p = Some path \<Longrightarrow> T' p = Some path"
    and "PML4_INDEX v \<in> U \<Longrightarrow> leaf t root v = leaf s root v"
  using assms mmu_frame_virt [of s t] unfolding grows_def map_le_def by (simp_all, metis domI)

lemma vm_virt_nonnull: "vm_inv s F root U T \<Longrightarrow> T p = Some path \<Longrightarrow> PHYS_TO_VIRT s p \<noteq> 0"
  unfolding vm_inv_def using pt_invD(3) by blast

lemma walk_create_spec:
  assumes inv: "vm_inv s F root U T" and root: "pml4_virt (ctxs s ctx) = PHYS_TO_VIRT s root"
    and v: "PML4_INDEX v \<in> U"
  shows "walk_page_tables ctx v True flags s = Inl Panic \<and> nfree F \<le> 2 \<or>
    (\<exists>pt t F' T'. walk_page_tables ctx v True flags s = Inr (entry_at (PHYS_TO_VIRT s pt) (PT_INDEX v), t) \<and>
       grows root U s F T t F' T' \<and> nfree F \<le> nfree F' + 3 \<and> T' pt = Some (table_path v) \<and> walk_path t root (table_path v) = Some pt)"
    (is "?panic \<or> ?ok")
proof -
  have r: "T root = Some []" using inv pt_invD(1) by (auto simp: vm_inv_def)
  note walk = walk_page_tables_def walk_step_def root
  from get_or_create_spec [OF inv r _ index_less(1), of v flags]
  consider "get_or_create_table (PHYS_TO_VIRT s root) (PML4_INDEX v) flags s = Inl Panic" "nfree F = 0"
    | q3 s3 F3 T3 where "get_or_create_table (PHYS_TO_VIRT s root) (PML4_INDEX v) flags s = Inr (PHYS_TO_VIRT s q3, s3)"
      "grows root U s F T s3 F3 T3" "nfree F \<le> nfree F3 + 1" "T3 q3 = Some [PML4_INDEX v]"
      "pte_is_present (ent s3 root (PML4_INDEX v))" "pte_get_addr (ent s3 root (PML4_INDEX v)) = q3"
    using v by auto
  then show ?thesis
  proof cases
    case 1
    then show ?thesis by (simp add: walk)
  next
    case (2 q3 s3 F3 T3)
    note g3 = growsD [OF 2(2)]
    from get_or_create_spec [OF g3(1) 2(4) _ index_less(2), of v flags]
    consider "get_or_create_table (PHYS_TO_VIRT s q3) (PDPT_INDEX v) flags s3 = Inl Panic" "nfree F3 = 0"
      | q2 s2 F2 T2 where "get_or_create_table (PHYS_TO_VIRT s q3) (PDPT_INDEX v) flags s3 = Inr (PHYS_TO_VIRT s q2, s2)"
        "grows root U s3 F3 T3 s2 F2 T2" "nfree F3 \<le> nfree F2 + 1" "T2 q2 = Some [PML4_INDEX v, PDPT_INDEX v]"
        "pte_is_present (ent s2 q3 (PDPT_INDEX v))" "pte_get_addr (ent s2 q3 (PDPT_INDEX v)) = q2"
      unfolding g3(3) by auto
    then show ?thesis
    proof cases
      case 1
      then show ?thesis using 2 vm_virt_nonnull [OF g3(1) 2(4)] by (simp add: walk g3(3))
    next
      case h2: (2 q2 s2 F2 T2)
      note g2 = growsD [OF h2(2)]
      have v2: "PHYS_TO_VIRT s2 = PHYS_TO_VIRT s" using g2(3) g3(3) by simp
      from get_or_create_spec [OF g2(1) h2(4) _ index_less(3), of v flags]
      consider "get_or_create_table (PHYS_TO_VIRT s q2) (PD_INDEX v) flags s2 = Inl Panic" "nfree F2 = 0"
        | q1 s1 F1 T1 where "get_or_create_table (PHYS_TO_VIRT s q2) (PD_INDEX v) flags s2 = Inr (PHYS_TO_VIRT s q1, s1)"
          "grows root U s2 F2 T2 s1 F1 T1" "nfree F2 \<le> nfree F1 + 1" "T1 q1 = Some (table_path v)"
          "pte_is_present (ent s1 q2 (PD_INDEX v))" "pte_get_addr (ent s1 q2 (PD_INDEX v)) = q1"
        unfolding v2 by (auto simp: table_path_def)
      then show ?thesis
      proof cases
        case 1
        then show ?thesis
          using 2 h2 vm_virt_nonnull [OF g3(1) 2(4)] vm_virt_nonnull [OF g2(1) h2(4)]
          by (simp add: walk g3(3) v2)
      next
        case h1: (2 q1 s1 F1 T1)
        note g1 = growsD [OF h1(2)]
        have v1: "PHYS_TO_VIRT s1 = PHYS_TO_VIRT s" using g1(3) v2 by simp
        have g: "grows root U s F T s1 F1 T1" "grows root U s3 F3 T3 s1 F1 T1"
          using grows_trans [OF 2(2) grows_trans [OF h2(2) h1(2)]] grows_trans [OF h2(2) h1(2)] by auto
        have p3: "pte_is_present (ent s1 root (PML4_INDEX v))" "pte_get_addr (ent s1 root (PML4_INDEX v)) = q3"
          using grows_present [OF g(2) g3(4) [OF r] _ index_less(1) 2(5)] 2(6) by auto
        have p2: "pte_is_present (ent s1 q3 (PDPT_INDEX v))" "pte_get_addr (ent s1 q3 (PDPT_INDEX v)) = q2"
          using grows_present [OF h1(2) g2(4) [OF 2(4)] _ index_less(2) h2(5)] h2(6) by auto
        have "walk_path s1 root (table_path v) = Some q1"
          using p3 p2 h1(5,6) by (simp add: table_path_def)
        moreover have "walk_page_tables ctx v True flags s = Inr (entry_at (PHYS_TO_VIRT s q1) (PT_INDEX v), s1)"
          using 2(1) h2(1) h1(1) vm_virt_nonnull [OF g3(1) 2(4)] vm_virt_nonnull [OF g2(1) h2(4)]
            vm_virt_nonnull [OF g1(1) h1(4)] by (simp add: walk g3(3) v2 v1)
        moreover have "nfree F \<le> nfree F1 + 3" using 2(3) h2(3) h1(3) by simp
        ultimately show ?thesis using g(1) h1(4) by blast
      qed
    qed
  qed
qed

lemma find_pte_eq:
  assumes inv: "vm_inv s F root U T" and root: "pml4_virt (ctxs s ctx) = PHYS_TO_VIRT s root"
    and v: "PML4_INDEX v \<in> U"
  shows "find_pte s ctx v = (case walk_path s root (table_path v) of None \<Rightarrow> 0
           | Some pt \<Rightarrow> entry_at (PHYS_TO_VIRT s pt) (PT_INDEX v))"
proof -
  have pt: "pt_inv s F root U T" using inv by (simp add: vm_inv_def)
  let ?e3 = "ent s root (PML4_INDEX v)"
  let ?q3 = "pte_get_addr ?e3"
  let ?e2 = "ent s ?q3 (PDPT_INDEX v)"
  let ?q2 = "pte_get_addr ?e2"
  let ?e1 = "ent s ?q2 (PD_INDEX v)"
  have 3: "T ?q3 = Some [PML4_INDEX v]" if "pte_is_present ?e3"
    using pt_invD(6) [OF pt pt_invD(1) [OF pt] _ index_less(1) _ that] v by simp
  have 2: "T ?q2 = Some [PML4_INDEX v, PDPT_INDEX v]" if "pte_is_present ?e3" "pte_is_present ?e2"
    using pt_invD(6) [OF pt 3 [OF that(1)] _ index_less(2) _ that(2)] by simp
  have 1: "T (pte_get_addr ?e1) = Some (table_path v)" if "pte_is_present ?e3" "pte_is_present ?e2" "pte_is_present ?e1"
    using pt_invD(6) [OF pt 2 [OF that(1,2)] _ index_less(3) _ that(3)] by (simp add: table_path_def)
  show ?thesis
    using vm_virt_nonnull [OF inv 3] vm_virt_nonnull [OF inv 2] vm_virt_nonnull [OF inv 1]
    by (auto simp: find_pte_def walk_page_tables_def walk_step_def root table_path_def ent_def [symmetric] Let_def)
qed

lemma entry_nonnull:
  assumes "vm_inv s F root U T" "T p = Some path" "i < 512"
  shows "entry_at (PHYS_TO_VIRT s p) i \<noteq> 0"
proof
  assume e: "entry_at (PHYS_TO_VIRT s p) i = 0"
  have a: "IS_PAGE_ALIGNED (PHYS_TO_VIRT s p)"
    using assms table_virt_aligned [of s F root U T] by (auto simp: vm_inv_def)
  have "IS_PAGE_ALIGNED (0 :: u64)" by (simp add: IS_PAGE_ALIGNED_def)
  from same_page [OF a this, of 0] entry_in_page [OF assms(3), of "PHYS_TO_VIRT s p"] e
  have "PHYS_TO_VIRT s p = 0" by simp
  then show False using vm_virt_nonnull [OF assms(1,2)] by simp
qed

lemma find_pte_leaf:
  assumes inv: "vm_inv s F root U T" and root: "pml4_virt (ctxs s ctx) = PHYS_TO_VIRT s root"
    and v: "PML4_INDEX v \<in> U"
  shows "(find_pte s ctx v \<noteq> 0 \<and> pte_is_present (mem s (find_pte s ctx v))) = (leaf s root v \<noteq> None)"
    and "leaf s root v = Some e \<Longrightarrow> mem s (find_pte s ctx v) = e"
proof -
  have pt: "pt_inv s F root U T" using inv by (simp add: vm_inv_def)
  have "entry_at (PHYS_TO_VIRT s q) (PT_INDEX v) \<noteq> 0" if "walk_path s root (table_path v) = Some q" for q
    using walk_path_table [OF pt pt_invD(1) [OF pt] good_table_path [OF v] that]
    by (intro entry_nonnull [OF inv]) auto
  then show "(find_pte s ctx v \<noteq> 0 \<and> pte_is_present (mem s (find_pte s ctx v))) = (leaf s root v \<noteq> None)"
    "leaf s root v = Some e \<Longrightarrow> mem s (find_pte s ctx v) = e"
    by (auto simp: find_pte_eq [OF assms] leaf_def ent_def split: option.splits if_splits)
qed

end
