(* ===== verification/Mmu_Map.thy ===== *)
theory Mmu_Map
  imports Mmu_Tree
begin

text \<open>
  What mapping, unmapping and rewriting entries do to the translations of an address space
  (\<open>aspace\<close>), the interface \<open>page_map\<close> provided by \<^verbatim>\<open>mmu_map_page\<close> and \<^verbatim>\<open>mmu_unmap_page\<close>, and the
  properties of \<^verbatim>\<open>src/src/kernel/mm/mmu.c\<close>.
\<close>

section \<open>Mapping and unmapping a page\<close>

lemma leaf_write:
  assumes inv: "vm_inv s F root U T" and pt: "T pt = Some (table_path v)" "walk_path s root (table_path v) = Some pt"
    and w: "PML4_INDEX w \<in> U"
  shows "leaf (write_word (entry_at (PHYS_TO_VIRT s pt) (PT_INDEX v)) e s) root w =
    (if vpn w = vpn v then (if pte_is_present e then Some e else None) else leaf s root w)"
proof -
  let ?t = "write_word (entry_at (PHYS_TO_VIRT s pt) (PT_INDEX v)) e s"
  have pm: "pmm_inv s F" and pi: "pt_inv s F root U T" using inv by (auto simp: vm_inv_def)
  note r = pt_invD(1) [OF pi] and g = good_table_path [OF w]
  note ent = ent_write [OF pm pi pt(1) _ index_less(4), of _ _ _ v e]
  have "ent ?t p i = ent s p i" if "T p = Some path" "length path < 3" "i < 512" for p path i
    using ent [OF that(1,3)] that pt(1) by (auto simp: table_path_def)
  then have wp: "walk_path ?t root (table_path w) = walk_path s root (table_path w)"
    by (intro walk_path_same [OF pi _ r g]) auto
  have T: "T q = Some (table_path w)" if "walk_path s root (table_path w) = Some q" for q
    using walk_path_table [OF pi r g that] by simp
  show ?thesis
  proof (cases "vpn w = vpn v")
    case True
    then have i: "table_path w = table_path v" "PT_INDEX w = PT_INDEX v" by (auto simp: vpn_eq_iff table_path_def)
    then show ?thesis using True wp pt ent [OF pt(1) index_less(4), of v] by (simp add: leaf_def)
  next
    case False
    have "ent ?t q (PT_INDEX w) = ent s q (PT_INDEX w)" if q: "walk_path s root (table_path w) = Some q" for q
    proof -
      have "\<not> (q = pt \<and> PT_INDEX w = PT_INDEX v)"
        using False T [OF q] pt(1) by (auto simp: vpn_eq_iff table_path_def)
      then show ?thesis using ent [OF T [OF q] index_less(4), of w] by auto
    qed
    then show ?thesis using False wp by (simp add: leaf_def split: option.splits)
  qed
qed

text \<open>Statistics, \<^verbatim>\<open>invlpg\<close> and the like do not touch memory.\<close>

definition mem_eq :: "'a mmu_scheme \<Rightarrow> 'a mmu_scheme \<Rightarrow> bool" where
  "mem_eq s t \<longleftrightarrow> mem t = mem s \<and> zones t = zones s \<and> hhdm_offset t = hhdm_offset s"

lemma mem_eq_virt: "mem_eq s t \<Longrightarrow> PHYS_TO_VIRT t = PHYS_TO_VIRT s"
  by (rule PHYS_TO_VIRT_cong) (simp add: mem_eq_def)

lemma mem_eq_ent: "mem_eq s t \<Longrightarrow> ent t = ent s"
  using mem_eq_virt [of s t] by (auto simp: ent_def fun_eq_iff mem_eq_def)

lemma mem_eq_leaf: "mem_eq s t \<Longrightarrow> leaf t root v = leaf s root v"
proof -
  assume m: "mem_eq s t"
  have "walk_path t p is = walk_path s p is" for p "is"
    by (induction "is" arbitrary: p) (simp_all add: mem_eq_ent [OF m])
  then show ?thesis by (simp add: leaf_def mem_eq_ent [OF m] split: option.splits)
qed

lemma mem_eq_vm_inv: "mem_eq s t \<Longrightarrow> vm_inv s F root U T \<Longrightarrow> vm_inv t F root U T"
  using mem_eq_virt [of s t] mem_eq_ent [of s t] pmm_inv_cong [of t s F]
  by (simp add: vm_inv_def pt_inv_def mem_eq_def)

lemma mem_eq_simps [simp]:
  "mem_eq s s" "mem_eq s (mmu_invlpg v t) = mem_eq s t" "mem_eq s (upd_stats c f t) = mem_eq s t"
  "mem_eq s (t\<lparr>g_stats := x\<rparr>) = mem_eq s t" "mem_eq s (count_flushes h c t) = mem_eq s t"
  by (simp_all add: mem_eq_def mmu_invlpg_def upd_stats_def upd_ctx_def count_flushes_def)

lemma upd_stats_pml4 [simp]:
  "pml4_virt (ctxs (upd_stats c f s) d) = pml4_virt (ctxs s d)" "pml4_phys (ctxs (upd_stats c f s) d) = pml4_phys (ctxs s d)"
  by (simp_all add: upd_stats_def upd_ctx_def)

lemma invlpg_simps [simp]:
  "ctxs (mmu_invlpg v s) = ctxs s" "kernel_ctx (mmu_invlpg v s) = kernel_ctx s" "mem (mmu_invlpg v s) = mem s"
  "PHYS_TO_VIRT (mmu_invlpg v s) = PHYS_TO_VIRT s"
  by (simp_all add: mmu_invlpg_def PHYS_TO_VIRT_def fun_eq_iff)

lemma upd_stats_simps [simp]:
  "kernel_ctx (upd_stats c f s) = kernel_ctx s" "mem (upd_stats c f s) = mem s" "tlb (upd_stats c f s) = tlb s"
  "PHYS_TO_VIRT (upd_stats c f s) = PHYS_TO_VIRT s"
  by (simp_all add: upd_stats_def upd_ctx_def PHYS_TO_VIRT_def fun_eq_iff)

text \<open>An address space: the tables that a context's top-level table roots.\<close>

definition aspace :: "'a mmu_scheme \<Rightarrow> u64 \<Rightarrow> (nat \<Rightarrow> u64 list) \<Rightarrow> u64 \<Rightarrow> u64 set \<Rightarrow> (u64 \<rightharpoonup> u64 list) \<Rightarrow> bool" where
  "aspace s ctx F root U T \<longleftrightarrow> vm_inv s F root U T \<and> pml4_virt (ctxs s (or_kernel s ctx)) = PHYS_TO_VIRT s root"

lemma aspace_translate:
  assumes "aspace s ctx F root U T" and "PML4_INDEX v \<in> U"
  shows "mmu_virt_to_phys s ctx v =
     (case leaf s root v of None \<Rightarrow> 0 | Some e \<Rightarrow> pte_get_addr e + (v AND (PAGE_SIZE - 1)))"
    and "mmu_is_mapped s ctx v \<longleftrightarrow> leaf s root v \<noteq> None"
    and "mmu_get_flags s ctx v = (case leaf s root v of None \<Rightarrow> 0 | Some e \<Rightarrow> pte_get_flags e)"
proof -
  have i: "vm_inv s F root U T" "pml4_virt (ctxs s (or_kernel s ctx)) = PHYS_TO_VIRT s root"
    using assms(1) by (auto simp: aspace_def)
  note l = find_pte_leaf [OF i assms(2)]
  show "mmu_virt_to_phys s ctx v =
     (case leaf s root v of None \<Rightarrow> 0 | Some e \<Rightarrow> pte_get_addr e + (v AND (PAGE_SIZE - 1)))"
    "mmu_get_flags s ctx v = (case leaf s root v of None \<Rightarrow> 0 | Some e \<Rightarrow> pte_get_flags e)"
    "mmu_is_mapped s ctx v \<longleftrightarrow> leaf s root v \<noteq> None"
    using l by (auto simp: mmu_virt_to_phys_def mmu_get_flags_def mmu_is_mapped_def Let_def split: option.splits)
qed

lemma mmu_map_page_spec:
  assumes sp: "aspace s ctx F root U T" and v: "PML4_INDEX v \<in> U"
  shows "mmu_map_page ctx v p flags s = Inl Panic \<and> nfree F \<le> 2 \<or>
    (\<exists>t F' T'. mmu_map_page ctx v p flags s = Inr (0, t) \<and> aspace t ctx F' root U T' \<and> nfree F \<le> nfree F' + 3 \<and>
       features t = features s \<and> kernel_ctx t = kernel_ctx s \<and> PHYS_TO_VIRT t = PHYS_TO_VIRT s \<and> T \<subseteq>\<^sub>m T' \<and>
       (\<forall>i < 3. set (F' i) \<subseteq> set (F i)) \<and> (\<forall>q \<in> dom T'. q \<in> dom T \<or> (\<exists>i < 3. q \<in> set (F i))) \<and>
       (\<forall>w. PML4_INDEX w \<in> U \<longrightarrow> leaf t root w =
          (if vpn w = vpn v
           then Some (pte_create (p AND NOT (PAGE_SIZE - 1)) (map_arch_flags (supports_global_pages (features s)) flags))
           else leaf s root w)) \<and>
       (\<forall>x. (\<forall>q \<in> dom T'. \<not> x - PHYS_TO_VIRT s q < PAGE_SIZE) \<longrightarrow> mem t x = mem s x) \<and>
       (\<forall>g. (v AND NOT (PAGE_SIZE - 1), g) \<notin> tlb t))"
proof -
  let ?c = "or_kernel s ctx" and ?v = "v AND NOT (PAGE_SIZE - 1)"
  let ?fl = "map_arch_flags (supports_global_pages (features s)) flags"
  let ?e = "pte_create (p AND NOT (PAGE_SIZE - 1)) ?fl"
  have inv: "vm_inv s F root U T" and root: "pml4_virt (ctxs s ?c) = PHYS_TO_VIRT s root"
    using sp by (auto simp: aspace_def)
  have ix: "table_path ?v = table_path v" "PT_INDEX ?v = PT_INDEX v" "PML4_INDEX ?v \<in> U"
    using v by (simp_all add: table_path_def)
  from walk_create_spec [OF inv root ix(3), of ?fl] show ?thesis
  proof (elim disjE conjE exE)
    assume "walk_page_tables ?c ?v True ?fl s = Inl Panic" "nfree F \<le> 2"
    then show ?thesis by (simp add: mmu_map_page_def)
  next
    fix pt u F' T'
    assume u: "walk_page_tables ?c ?v True ?fl s = Inr (entry_at (PHYS_TO_VIRT s pt) (PT_INDEX ?v), u)"
      and g: "grows root U s F T u F' T'" and n: "nfree F \<le> nfree F' + 3" and pt: "T' pt = Some (table_path ?v)" "walk_path u root (table_path ?v) = Some pt"
    note gd = growsD [OF g]
    let ?a = "entry_at (PHYS_TO_VIRT s pt) (PT_INDEX v)"
    let ?w = "write_word ?a ?e u"
    let ?i = "mmu_invlpg ?v ?w"
    let ?t = "upd_stats ?c (\<lambda>x. x\<lparr>pages_mapped_4k := pages_mapped_4k x + 1\<rparr>)
       (?i\<lparr>g_stats := (g_stats ?i)\<lparr>g_pages_mapped := g_pages_mapped (g_stats ?i) + 1\<rparr>\<rparr>)"
    have vu: "PHYS_TO_VIRT u = PHYS_TO_VIRT s" by (rule gd(3))
    have m: "mem_eq ?w ?t" by simp
    have res: "mmu_map_page ctx v p flags s = Inr (0, ?t)"
      using u entry_nonnull [OF gd(1) pt(1) index_less(4), of ?v] by (simp add: mmu_map_page_def Let_def vu)
    have ptv: "T' pt = Some (table_path v)" "walk_path u root (table_path v) = Some pt" using pt ix(1) by simp_all
    have "vm_inv ?w F' root U T'"
      using vm_inv_write [OF gd(1) ptv(1) index_less(4), of v ?e] by (simp add: vu table_path_def)
    then have "vm_inv ?t F' root U T'" by (rule mem_eq_vm_inv [OF m])
    moreover have "pml4_virt (ctxs ?t (or_kernel ?t ctx)) = PHYS_TO_VIRT ?t root"
    proof -
      have "ctxs u = ctxs s" "kernel_ctx u = kernel_ctx s" using gd(2) by (auto simp: mmu_frame_def)
      then have "or_kernel ?t ctx = ?c" "pml4_virt (ctxs ?t ?c) = pml4_virt (ctxs s ?c)"
        by (simp_all add: or_kernel_def write_word_def)
      moreover have "PHYS_TO_VIRT ?t = PHYS_TO_VIRT s" using mem_eq_virt [OF m] vu by simp
      ultimately show ?thesis using root by simp
    qed
    moreover have "leaf ?t root w = (if vpn w = vpn v then Some ?e else leaf s root w)" if "PML4_INDEX w \<in> U" for w
      using leaf_write [OF gd(1) ptv that, of ?e] gd(5) [OF that] mem_eq_leaf [OF m, of root w] by (simp add: vu)
    moreover have "mem ?t x = mem s x" if x: "\<forall>q \<in> dom T'. \<not> x - PHYS_TO_VIRT s q < PAGE_SIZE" for x
    proof -
      have "\<not> x - PHYS_TO_VIRT s pt < PAGE_SIZE" using x ptv(1) by auto
      then have "x \<noteq> ?a" using entry_in_page [OF index_less(4), of "PHYS_TO_VIRT s pt" v] by auto
      then show ?thesis using g x by (simp add: grows_def)
    qed
    moreover have "(?v, gl) \<notin> tlb ?t" for gl by (simp add: mmu_invlpg_def and.assoc)
    moreover have "features ?t = features s" "kernel_ctx ?t = kernel_ctx s"
      using gd(2) by (simp_all add: mmu_frame_def mmu_invlpg_def write_word_def upd_stats_def upd_ctx_def)
    moreover have "PHYS_TO_VIRT ?t = PHYS_TO_VIRT s" using mem_eq_virt [OF m] vu by simp
    moreover have "T \<subseteq>\<^sub>m T'" "\<forall>i < 3. set (F' i) \<subseteq> set (F i)" "\<forall>q \<in> dom T'. q \<in> dom T \<or> (\<exists>i < 3. q \<in> set (F i))"
      using g by (simp_all add: grows_def)
    ultimately show ?thesis using res n unfolding aspace_def by blast
  qed
qed


section \<open>Rewriting an entry that is present\<close>

lemma rewrite_leaf:
  assumes sp: "aspace s ctx F root U T" and v: "PML4_INDEX v \<in> U" and l: "leaf s root v = Some old"
  shows "find_pte s (or_kernel s ctx) v \<noteq> 0" and "mem s (find_pte s (or_kernel s ctx) v) = old" and "pte_is_present old"
    and "aspace (write_word (find_pte s (or_kernel s ctx) v) e s) ctx F root U T"
    and "PML4_INDEX w \<in> U \<Longrightarrow> leaf (write_word (find_pte s (or_kernel s ctx) v) e s) root w =
      (if vpn w = vpn v then (if pte_is_present e then Some e else None) else leaf s root w)"
    and "\<forall>q \<in> dom T. \<not> x - PHYS_TO_VIRT s q < PAGE_SIZE \<Longrightarrow>
      mem (write_word (find_pte s (or_kernel s ctx) v) e s) x = mem s x"
proof -
  let ?c = "or_kernel s ctx"
  have inv: "vm_inv s F root U T" and root: "pml4_virt (ctxs s ?c) = PHYS_TO_VIRT s root"
    using sp by (auto simp: aspace_def)
  have pi: "pt_inv s F root U T" using inv by (simp add: vm_inv_def)
  obtain pt where wp: "walk_path s root (table_path v) = Some pt" using l by (auto simp: leaf_def split: option.splits)
  have T: "T pt = Some (table_path v)" using walk_path_table [OF pi pt_invD(1) [OF pi] good_table_path [OF v] wp] by simp
  have f: "find_pte s ?c v = entry_at (PHYS_TO_VIRT s pt) (PT_INDEX v)"
    using find_pte_eq [OF inv root v] wp by simp
  show "find_pte s ?c v \<noteq> 0" "mem s (find_pte s ?c v) = old" "pte_is_present old"
    using find_pte_leaf [OF inv root v] l by auto
  show "PML4_INDEX w \<in> U \<Longrightarrow> leaf (write_word (find_pte s ?c v) e s) root w =
      (if vpn w = vpn v then (if pte_is_present e then Some e else None) else leaf s root w)"
    unfolding f by (rule leaf_write [OF inv T wp])
  have "vm_inv (write_word (find_pte s ?c v) e s) F root U T"
    unfolding f by (rule vm_inv_write [OF inv T index_less(4)]) (simp add: table_path_def)
  moreover have "or_kernel (write_word a e s) ctx = ?c" "ctxs (write_word a e s) = ctxs s" for a
    by (simp_all add: write_word_def or_kernel_def)
  ultimately show "aspace (write_word (find_pte s ?c v) e s) ctx F root U T"
    using root by (simp add: aspace_def)
  show "\<forall>q \<in> dom T. \<not> x - PHYS_TO_VIRT s q < PAGE_SIZE \<Longrightarrow> mem (write_word (find_pte s ?c v) e s) x = mem s x"
    using entry_in_page [OF index_less(4), of "PHYS_TO_VIRT s pt" v] T unfolding f by auto
qed

lemma aspace_mem_eq:
  "mem_eq s t \<Longrightarrow> pml4_virt (ctxs t (or_kernel t ctx)) = pml4_virt (ctxs s (or_kernel s ctx)) \<Longrightarrow>
   aspace s ctx F root U T \<Longrightarrow> aspace t ctx F root U T"
  unfolding aspace_def using mem_eq_vm_inv [of s t] mem_eq_virt [of s t] by simp

lemma not_mapped:
  assumes "aspace s ctx F root U T" "PML4_INDEX v \<in> U" "leaf s root v = None"
  shows "find_pte s (or_kernel s ctx) v = 0 \<or> \<not> pte_is_present (mem s (find_pte s (or_kernel s ctx) v))"
  using find_pte_leaf(1) [of s F root U T "or_kernel s ctx" v] assms by (auto simp: aspace_def)

lemma walk_query: "walk_page_tables ctx v False f s = Inr (find_pte s ctx v, s)"
  by (simp add: find_pte_def walk_page_tables_def walk_step_def Let_def)

lemma find_pte_page [simp]: "find_pte s ctx (v AND - 4096) = find_pte s ctx v"
  by (simp add: find_pte_def walk_page_tables_def walk_step_def)

lemma mmu_unmap_page_spec:
  assumes sp: "aspace s ctx F root U T" and v: "PML4_INDEX v \<in> U"
  shows "leaf s root v = None \<and> mmu_unmap_page ctx v s = Inr (-1, s) \<or>
    leaf s root v \<noteq> None \<and> (\<exists>t. mmu_unmap_page ctx v s = Inr (0, t) \<and> aspace t ctx F root U T \<and>
       (\<forall>w. PML4_INDEX w \<in> U \<longrightarrow> leaf t root w = (if vpn w = vpn v then None else leaf s root w)) \<and>
       (\<forall>x. (\<forall>q \<in> dom T. \<not> x - PHYS_TO_VIRT s q < PAGE_SIZE) \<longrightarrow> mem t x = mem s x) \<and>
       (\<forall>g. (v AND NOT (PAGE_SIZE - 1), g) \<notin> tlb t))"
proof (cases "leaf s root v")
  case None
  then show ?thesis
    using not_mapped [OF sp v None] by (auto simp: mmu_unmap_page_def Let_def walk_query)
next
  case (Some old)
  let ?c = "or_kernel s ctx"
  note r = rewrite_leaf [OF sp v Some]
  let ?w = "write_word (find_pte s ?c v) 0 s"
  let ?i = "mmu_invlpg (v AND NOT (PAGE_SIZE - 1)) ?w"
  let ?t = "upd_stats ?c (\<lambda>x. x\<lparr>pages_unmapped := pages_unmapped x + 1\<rparr>)
     (?i\<lparr>g_stats := (g_stats ?i)\<lparr>g_pages_unmapped := g_pages_unmapped (g_stats ?i) + 1\<rparr>\<rparr>)"
  have m: "mem_eq ?w ?t" by simp
  have "mmu_unmap_page ctx v s = Inr (0, ?t)"
    using r(1-3) by (simp add: mmu_unmap_page_def Let_def walk_query)
  moreover have "or_kernel ?t ctx = ?c" "or_kernel ?w ctx = ?c" "pml4_virt (ctxs ?t c) = pml4_virt (ctxs ?w c)" for c
    by (simp_all add: or_kernel_def write_word_def)
  then have "aspace ?t ctx F root U T"
    using aspace_mem_eq [OF m _ r(4)] by simp
  moreover have "leaf ?t root w = (if vpn w = vpn v then None else leaf s root w)" if "PML4_INDEX w \<in> U" for w
    using r(5) [OF that, of 0] mem_eq_leaf [OF m, of root w] by simp
  moreover have "mem ?t x = mem s x" if "\<forall>q \<in> dom T. \<not> x - PHYS_TO_VIRT s q < PAGE_SIZE" for x
    using r(6) [OF that, of 0] by simp
  moreover have "(v AND NOT (PAGE_SIZE - 1), g) \<notin> tlb ?t" for g by (simp add: mmu_invlpg_def and.assoc)
  ultimately show ?thesis using Some by blast
qed

end
