(* ===== verification/Mmu_Ranges.thy ===== *)
theory Mmu_Ranges
  imports Mmu_Map Interfaces
begin

text \<open>
  \<^verbatim>\<open>mmu_map_page\<close> and \<^verbatim>\<open>mmu_unmap_page\<close> provide the interface \<open>page_map\<close>; the loops over ranges
  and batches are sequences of its operations.  Copy on write takes a page off the free lists,
  fills it and rewrites one entry (\<open>mmu_break_cow_spec\<close>).
\<close>

section \<open>Mapping is a page map\<close>

definition as_ok :: "u64 \<Rightarrow> u64 \<Rightarrow> u64 set \<Rightarrow> bool \<times> u64 \<Rightarrow> 'a mmu_scheme \<Rightarrow> bool" where
  "as_ok ctx root U g s \<longleftrightarrow> (\<exists>F T. aspace s ctx F root U T) \<and> (supports_global_pages (features s), kernel_ctx s) = g"

definition map_put :: "u64 \<Rightarrow> u64 \<Rightarrow> u64 \<Rightarrow> u64 \<Rightarrow> 'a mmu_scheme \<Rightarrow> 'a mmu_scheme option" where
  "map_put ctx flags v p s = (case mmu_map_page ctx v p flags s of Inr (r, t) \<Rightarrow> Some t | Inl _ \<Rightarrow> None)"

definition map_del :: "u64 \<Rightarrow> u64 \<Rightarrow> 'a mmu_scheme \<Rightarrow> 'a mmu_scheme" where
  "map_del ctx v s = (case mmu_unmap_page ctx v s of Inr (r, t) \<Rightarrow> t | Inl _ \<Rightarrow> s)"

definition map_entry :: "bool \<Rightarrow> u64 \<Rightarrow> u64 \<Rightarrow> u64" where
  "map_entry g flags p = pte_create (p AND NOT (PAGE_SIZE - 1)) (map_arch_flags g flags)"

lemma leaf_vpn: "vpn v = vpn w \<Longrightarrow> leaf s root v = leaf s root w"
  by (simp add: leaf_def table_path_def vpn_eq_iff)

lemma mmu_map_page_ok:
  assumes "as_ok ctx root U g s" "PML4_INDEX v \<in> U"
  shows "mmu_map_page ctx v p flags s =
    (case map_put ctx flags v p s of None \<Rightarrow> Inl Panic | Some t \<Rightarrow> Inr (0, t))"
  using mmu_map_page_spec [of s ctx _ root U _ v p flags] assms by (fastforce simp: as_ok_def map_put_def)

lemma map_put_spec:
  assumes "as_ok ctx root U g s" "PML4_INDEX v \<in> U" "map_put ctx flags v p s = Some t"
  shows "as_ok ctx root U g t" and "PML4_INDEX w \<in> U \<Longrightarrow>
    leaf t root w = (if vpn w = vpn v then Some (map_entry (fst g) flags p) else leaf s root w)"
proof -
  obtain F T where "aspace s ctx F root U T" and g: "(supports_global_pages (features s), kernel_ctx s) = g"
    using assms(1) by (auto simp: as_ok_def)
  from mmu_map_page_spec [OF this(1) assms(2), of p flags] assms(3)
  obtain F' T' where "aspace t ctx F' root U T'" "features t = features s" "kernel_ctx t = kernel_ctx s"
    "\<forall>w. PML4_INDEX w \<in> U \<longrightarrow> leaf t root w = (if vpn w = vpn v then Some (map_entry (fst g) flags p) else leaf s root w)"
    by (auto simp: map_put_def map_entry_def g [symmetric])
  then show "as_ok ctx root U g t" "PML4_INDEX w \<in> U \<Longrightarrow>
      leaf t root w = (if vpn w = vpn v then Some (map_entry (fst g) flags p) else leaf s root w)"
    using g by (auto simp: as_ok_def)
qed

lemma mmu_unmap_page_features:
  "mmu_unmap_page ctx v s = Inr (r, t) \<Longrightarrow> features t = features s \<and> kernel_ctx t = kernel_ctx s"
  by (auto simp: mmu_unmap_page_def walk_query Let_def upd_stats_def upd_ctx_def mmu_invlpg_def write_word_def split: if_splits)

lemma map_del_spec:
  assumes "as_ok ctx root U g s" "PML4_INDEX v \<in> U"
  shows "as_ok ctx root U g (map_del ctx v s)" and "PML4_INDEX w \<in> U \<Longrightarrow>
    leaf (map_del ctx v s) root w = (if vpn w = vpn v then None else leaf s root w)"
proof -
  obtain F T where "aspace s ctx F root U T" and g: "(supports_global_pages (features s), kernel_ctx s) = g"
    using assms(1) by (auto simp: as_ok_def)
  from mmu_unmap_page_spec [OF this(1) assms(2)] this(1)
  obtain r t where t: "mmu_unmap_page ctx v s = Inr (r, t)" "aspace t ctx F root U T"
    "\<forall>w. PML4_INDEX w \<in> U \<longrightarrow> leaf t root w = (if vpn w = vpn v then None else leaf s root w)"
    using leaf_vpn [of _ v s root] by fastforce
  then show "as_ok ctx root U g (map_del ctx v s)" "PML4_INDEX w \<in> U \<Longrightarrow>
      leaf (map_del ctx v s) root w = (if vpn w = vpn v then None else leaf s root w)"
    using g mmu_unmap_page_features [OF t(1)] by (auto simp: as_ok_def map_del_def)
qed

interpretation pm: page_map "as_ok ctx root U g" "\<lambda>v. PML4_INDEX v \<in> U" vpn "\<lambda>s. leaf s root"
  "map_entry (fst g) flags" "map_put ctx flags" "map_del ctx"
  for ctx root U g flags
  by unfold_locales (auto simp: map_put_spec map_del_spec)

section \<open>Ranges and batches\<close>

lemma map_loop_put_all:
  "as_ok ctx root U g s \<Longrightarrow> (\<forall>k < n. PML4_INDEX (vs + of_nat (i + k) * PAGE_SIZE) \<in> U) \<Longrightarrow>
   map_loop ctx vs ps flags i n s =
     (case put_all (map_put ctx flags)
             (map (\<lambda>k. (vs + of_nat k * PAGE_SIZE, ps + of_nat k * PAGE_SIZE)) [i..<i + n]) s of
        None \<Rightarrow> Inl Panic | Some t \<Rightarrow> Inr (0, t))"
proof (induction n arbitrary: i s)
  case 0
  then show ?case by simp
next
  case (Suc n)
  let ?v = "vs + of_nat i * PAGE_SIZE" and ?p = "ps + of_nat i * PAGE_SIZE"
  have v: "PML4_INDEX ?v \<in> U" using Suc.prems(2) by (metis add_0_right zero_less_Suc)
  have rest: "\<forall>k < n. PML4_INDEX (vs + of_nat (Suc i + k) * PAGE_SIZE) \<in> U"
    using Suc.prems(2) by (metis Suc_less_eq add_Suc_right add_Suc)
  have up: "[i..<i + Suc n] = i # [Suc i..<Suc i + n]" by (simp add: upt_rec)
  show ?case
  proof (cases "map_put ctx flags ?v ?p s")
    case None
    then show ?thesis using mmu_map_page_ok [OF Suc.prems(1) v] unfolding up by simp
  next
    case (Some t)
    then have "as_ok ctx root U g t" using map_put_spec(1) [OF Suc.prems(1) v] by blast
    from Suc.IH [OF this rest] show ?thesis
      using mmu_map_page_ok [OF Suc.prems(1) v] Some unfolding up by simp
  qed
qed

lemma map_batch_put_all:
  "as_ok ctx root U g s \<Longrightarrow> \<forall>m \<in> set ms. PML4_INDEX (m_virt_addr m) \<in> U \<and> m_flags m = flags \<Longrightarrow>
   mmu_map_batch ctx ms s =
     (case put_all (map_put ctx flags) (map (\<lambda>m. (m_virt_addr m, m_phys_addr m)) ms) s of
        None \<Rightarrow> Inl Panic | Some t \<Rightarrow> Inr (0, t))"
proof (induction ms arbitrary: s)
  case Nil
  then show ?case by simp
next
  case (Cons m ms)
  have v: "PML4_INDEX (m_virt_addr m) \<in> U" "m_flags m = flags" using Cons.prems by auto
  note mp = mmu_map_page_ok [OF Cons.prems(1) v(1), of "m_phys_addr m" flags]
  show ?case
  proof (cases "map_put ctx flags (m_virt_addr m) (m_phys_addr m) s")
    case None
    then show ?thesis using mp v by simp
  next
    case (Some t)
    then have "as_ok ctx root U g t" using map_put_spec(1) [OF Cons.prems(1) v(1)] by blast
    from Cons.IH [OF this] show ?thesis using mp Some Cons.prems(2) v(2) by simp
  qed
qed

lemma unmap_loop_fold:
  "as_ok ctx root U g s \<Longrightarrow> (\<forall>k < n. PML4_INDEX (vs + of_nat (i + k) * PAGE_SIZE) \<in> U) \<Longrightarrow>
   unmap_loop ctx vs i n s = Inr (fold (map_del ctx) (map (\<lambda>k. vs + of_nat k * PAGE_SIZE) [i..<i + n]) s)"
proof (induction n arbitrary: i s)
  case 0
  then show ?case by simp
next
  case (Suc n)
  let ?v = "vs + of_nat i * PAGE_SIZE"
  have v: "PML4_INDEX ?v \<in> U" using Suc.prems(2) by (metis add_0_right zero_less_Suc)
  have rest: "\<forall>k < n. PML4_INDEX (vs + of_nat (Suc i + k) * PAGE_SIZE) \<in> U"
    using Suc.prems(2) by (metis Suc_less_eq add_Suc_right add_Suc)
  have up: "[i..<i + Suc n] = i # [Suc i..<Suc i + n]" by (simp add: upt_rec)
  obtain r t where "mmu_unmap_page ctx ?v s = Inr (r, t)"
    by (cases "mmu_unmap_page ctx ?v s") (auto simp: mmu_unmap_page_def walk_query Let_def split: if_splits)
  with Suc.IH [OF map_del_spec(1) [OF Suc.prems(1) v] rest] show ?case
    unfolding up by (simp add: map_del_def)
qed


lemma put_all_progress:
  "aspace s ctx F root U T \<Longrightarrow> \<forall>m \<in> set ms. PML4_INDEX (fst m) \<in> U \<Longrightarrow> 3 * length ms \<le> nfree F \<Longrightarrow>
   \<exists>t. put_all (map_put ctx flags) ms s = Some t"
proof (induction ms arbitrary: s F T)
  case Nil
  then show ?case by simp
next
  case (Cons m ms)
  obtain v p where m: "m = (v, p)" by fastforce
  have v: "PML4_INDEX v \<in> U" using Cons.prems(2) m by simp
  from mmu_map_page_spec [OF Cons.prems(1) v, of p flags] Cons.prems(3)
  obtain t F' T' where "mmu_map_page ctx v p flags s = Inr (0, t)" "aspace t ctx F' root U T'" "nfree F \<le> nfree F' + 3"
    by auto
  then show ?case using Cons.IH [of t F' T'] Cons.prems(2,3) by (simp add: m map_put_def)
qed

lemma unat_vpn: "unat (vpn v) = unat v div 4096 mod 2 ^ 36"
  by (simp add: vpn_def take_bit_eq_mod drop_bit_eq_div unat_div unat_mod)

lemma unat_vpn_add: "unat (vpn (v + of_nat k * PAGE_SIZE)) = (unat v div 4096 + k) mod 2 ^ 36"
proof -
  have "unat (v + of_nat k * PAGE_SIZE) = (unat v + k * 4096) mod (4096 * 2 ^ 52)"
    by (simp add: unat_word_ariths unat_of_nat mod_simps)
  then have "unat (v + of_nat k * PAGE_SIZE) div 4096 = (unat v + k * 4096) div 4096 mod 2 ^ 52"
    by (simp only: mod_mult2_eq)
  also have "\<dots> = (unat v div 4096 + k) mod 2 ^ 52" by (simp add: add.commute)
  finally have "unat (v + of_nat k * PAGE_SIZE) div 4096 = (unat v div 4096 + k) mod 2 ^ 52" .
  moreover have "(2 :: nat) ^ 36 dvd 2 ^ 52" by (rule le_imp_power_dvd) simp
  ultimately show ?thesis by (simp only: unat_vpn mod_mod_cancel)
qed

lemma mod_add_inj:
  assumes "(a + k) mod n = (a + l) mod n" "k < n" "l < (n :: nat)"
  shows "k = l"
proof -
  have "k = l" if "k \<le> l" "(a + k) mod n = (a + l) mod n" "l < n" for k l
  proof -
    have "n dvd (a + l) - (a + k)" using that by (intro mod_eq_dvd_iff_nat [THEN iffD1]) auto
    then have "n dvd l - k" by simp
    then show ?thesis using that by (auto dest: dvd_imp_le)
  qed
  then show ?thesis using assms by (metis nat_le_linear)
qed

lemma vpn_add_inj:
  "k < 2 ^ 36 \<Longrightarrow> l < 2 ^ 36 \<Longrightarrow> vpn (v + of_nat k * PAGE_SIZE) = vpn (v + of_nat l * PAGE_SIZE) \<Longrightarrow> k = l"
  using mod_add_inj [of "unat v div 4096" k "2 ^ 36" l] unat_vpn_add [of v k] unat_vpn_add [of v l] by simp

section \<open>Translations after ranges\<close>

lemma or_kernel_idem: "or_kernel s (or_kernel s ctx) = or_kernel s ctx"
  by (simp add: or_kernel_def)

lemma aspace_or_kernel: "aspace s ctx F root U T \<Longrightarrow> aspace s (or_kernel s ctx) F root U T"
  by (simp add: aspace_def or_kernel_idem)

definition range_pages :: "u64 \<Rightarrow> u64 \<Rightarrow> nat \<Rightarrow> (u64 \<times> u64) list" where
  "range_pages vs ps n = map (\<lambda>k. (vs + of_nat k * PAGE_SIZE, ps + of_nat k * PAGE_SIZE)) [0..<n]"

lemma range_pages_lookup:
  assumes n: "n \<le> 2 ^ 36"
  shows "k < n \<Longrightarrow> map_of (rev (map (\<lambda>(v, p). (vpn v, e p)) (range_pages vs ps n))) (vpn (vs + of_nat k * PAGE_SIZE)) =
      Some (e (ps + of_nat k * PAGE_SIZE))"
    and "(\<forall>k < n. vpn w \<noteq> vpn (vs + of_nat k * PAGE_SIZE)) \<Longrightarrow>
      map_of (rev (map (\<lambda>(v, p). (vpn v, e p)) (range_pages vs ps n))) (vpn w) = None"
proof -
  let ?kv = "map (\<lambda>(v, p). (vpn v, e p)) (range_pages vs ps n)"
  have kv: "?kv = map (\<lambda>k. (vpn (vs + of_nat k * PAGE_SIZE), e (ps + of_nat k * PAGE_SIZE))) [0..<n]"
    by (simp add: range_pages_def comp_def)
  have "inj_on (\<lambda>k. vpn (vs + of_nat k * PAGE_SIZE)) {0..<n}"
    using vpn_add_inj n by (auto intro!: inj_onI)
  then have d: "distinct (map fst (rev ?kv))"
    unfolding kv by (simp add: distinct_map rev_map [symmetric] comp_def)
  show "k < n \<Longrightarrow> map_of (rev ?kv) (vpn (vs + of_nat k * PAGE_SIZE)) = Some (e (ps + of_nat k * PAGE_SIZE))"
    using map_of_eq_Some_iff [OF d] unfolding kv by auto
  show "(\<forall>k < n. vpn w \<noteq> vpn (vs + of_nat k * PAGE_SIZE)) \<Longrightarrow> map_of (rev ?kv) (vpn w) = None"
    unfolding kv by (auto simp: map_of_eq_None_iff)
qed

lemma mmu_map_range_spec:
  assumes sp: "aspace s ctx F root U T"
    and cov: "\<forall>k < num_pages_of sz. PML4_INDEX (vs + of_nat k * PAGE_SIZE) \<in> U"
    and n: "num_pages_of sz \<le> 2 ^ 36" and mem: "3 * num_pages_of sz \<le> nfree F"
  shows "\<exists>t. mmu_map_range ctx vs ps sz flags s = Inr (0, t) \<and>
     put_all (map_put (or_kernel s ctx) flags) (range_pages vs ps (num_pages_of sz)) s = Some t"
proof -
  let ?c = "or_kernel s ctx" and ?n = "num_pages_of sz"
  have c: "aspace s ?c F root U T" by (rule aspace_or_kernel [OF sp])
  then have ok: "as_ok ?c root U (supports_global_pages (features s), kernel_ctx s) s" by (auto simp: as_ok_def)
  obtain t where "put_all (map_put ?c flags) (range_pages vs ps ?n) s = Some t"
    using put_all_progress [OF c, of "range_pages vs ps ?n" flags] cov mem by (auto simp: range_pages_def)
  then show ?thesis
    using map_loop_put_all [OF ok, of ?n vs 0 ps flags] cov by (simp add: mmu_map_range_def range_pages_def)
qed

lemma as_ok_kernel:
  "as_ok (or_kernel s ctx) root U (g, kernel_ctx s) t \<Longrightarrow> or_kernel t ctx = or_kernel s ctx"
  by (auto simp: as_ok_def or_kernel_def)

lemma as_ok_translate:
  assumes ok: "as_ok (or_kernel s ctx) root U (g, kernel_ctx s) t" and w: "PML4_INDEX w \<in> U"
  shows "mmu_virt_to_phys t ctx w = (case leaf t root w of None \<Rightarrow> 0 | Some e \<Rightarrow> pte_get_addr e + (w AND (PAGE_SIZE - 1)))"
    and "mmu_is_mapped t ctx w \<longleftrightarrow> leaf t root w \<noteq> None"
proof -
  note k = as_ok_kernel [OF ok]
  obtain F T where "aspace t (or_kernel s ctx) F root U T" using ok by (auto simp: as_ok_def)
  then have "aspace t ctx F root U T"
    using or_kernel_idem [of t ctx] unfolding aspace_def k by simp
  from aspace_translate [OF this w]
  show "mmu_virt_to_phys t ctx w = (case leaf t root w of None \<Rightarrow> 0 | Some e \<Rightarrow> pte_get_addr e + (w AND (PAGE_SIZE - 1)))"
    "mmu_is_mapped t ctx w \<longleftrightarrow> leaf t root w \<noteq> None" by blast+
qed

section \<open>Copy on write\<close>

lemma pmm_inv_page:
  assumes inv: "pmm_inv s F" and q: "IS_PAGE_ALIGNED q" "\<forall>i < 3. q \<notin> set (F i)"
    and t: "\<And>x. \<not> x - PHYS_TO_VIRT s q < PAGE_SIZE \<Longrightarrow> mem t x = mem s x" "hhdm_offset t = hhdm_offset s" "zones t = zones s"
  shows "pmm_inv t F"
proof -
  have al: "IS_PAGE_ALIGNED (hhdm_offset s)" using inv by (simp add: pmm_inv_def)
  have "zone_inv t i (F i)" if i: "i < 3" for i
  proof -
    have z: "zone_inv s i (F i)" using inv i by (simp add: pmm_inv_def)
    have "mem t (PHYS_TO_VIRT s p) = mem s (PHYS_TO_VIRT s p)" if p: "p \<in> set (F i)" for p
    proof (rule t(1), rule notI)
      assume "PHYS_TO_VIRT s p - PHYS_TO_VIRT s q < PAGE_SIZE"
      moreover have "IS_PAGE_ALIGNED p" using z p by (simp add: zone_inv_def)
      ultimately have "p = q"
        using aligned_in_page [of "PHYS_TO_VIRT s q" "PHYS_TO_VIRT s p"] q(1) al by (simp add: PHYS_TO_VIRT_aligned)
      then show False using q(2) i p by blast
    qed
    then show ?thesis using t by (intro zone_inv_frame [OF z]) simp_all
  qed
  then show ?thesis using inv t by (simp add: pmm_inv_def)
qed

text \<open>Taking a page off the free lists and filling it changes no table.\<close>

lemma vm_inv_take_page:
  assumes inv: "vm_inv s F root U T" and q: "k < 3" "F k = q # qs"
    and t: "pmm_inv t (F(k := qs))" "\<forall>x. \<not> x - PHYS_TO_VIRT s q < PAGE_SIZE \<longrightarrow> mem t x = mem s x" "mmu_frame s t"
  shows "vm_inv t (F(k := qs)) root U T" and "PML4_INDEX v \<in> U \<Longrightarrow> leaf t root v = leaf s root v"
    and "PML4_INDEX v \<in> U \<Longrightarrow> walk_path t root (table_path v) = walk_path s root (table_path v)"
proof -
  have pm: "pmm_inv s F" and pt: "pt_inv s F root U T" and ph: "phys_ok F" and z: "0 \<notin> set (F 0)"
    using inv by (auto simp: vm_inv_def)
  have v: "PHYS_TO_VIRT t = PHYS_TO_VIRT s" using t(3) by (rule mmu_frame_virt)
  have e: "ent t p' j = ent s p' j" if "T p' = Some path'" "j < 512" for p' path' j
    using entry_not_free [OF pm pt that q(1), of q] q(2) t(2) by (simp add: ent_def v linorder_not_less)
  have sub: "x \<in> set (F i)" if "x \<in> set ((F(k := qs)) i)" for x i using that q(2) by (auto split: if_splits)
  have "pt_inv t (F(k := qs)) root U T"
    unfolding pt_inv_def v using pt_invD(1-5) [OF pt] pt_invD(6) [OF pt] sub e by metis
  moreover have "phys_ok (F(k := qs))" using ph sub by (simp only: phys_ok_def) blast
  moreover have "0 \<notin> set ((F(k := qs)) 0)" using z sub by blast
  ultimately show "vm_inv t (F(k := qs)) root U T" using t(1) by (simp add: vm_inv_def)
  show "PML4_INDEX v \<in> U \<Longrightarrow> leaf t root v = leaf s root v"
    using e by (intro leaf_same [OF pt]) (simp_all add: e)
  show "PML4_INDEX v \<in> U \<Longrightarrow> walk_path t root (table_path v) = walk_path s root (table_path v)"
    by (rule walk_path_same [OF pt _ pt_invD(1) [OF pt] good_table_path]) (simp_all add: e)
qed

lemma pte_is_present_flags:
  "pte_is_present e \<Longrightarrow> pte_is_present ((pte_get_flags e OR MMU_WRITABLE) AND NOT MMU_AVAILABLE_1)"
  by (simp add: pte_is_present_def pte_get_flags_def bit.conj_disj_distrib2 and.assoc)

lemma pte_addr_aligned: "IS_PAGE_ALIGNED (pte_get_addr e)"
  by (simp add: IS_PAGE_ALIGNED_def pte_get_addr_def and.assoc)

lemma pmm_alloc_page_some:
  assumes "pmm_inv s F" "0 \<notin> set (F 0)" "0 < nfree F"
  obtains k q qs t where "pmm_alloc_page s = (q, t)" "q \<noteq> 0" "k < 3" "F k = q # qs" "pmm_inv t (F(k := qs))"
    "mem t = memset_page (mem s) (PHYS_TO_VIRT s q)" "hhdm_offset t = hhdm_offset s" "pmm.more t = pmm.more s"
proof -
  obtain q t where a: "pmm_alloc_page s = (q, t)" by fastforce
  have "\<not> (\<forall>i < 3. F i = [])" using assms(3) nfree_0 [of F] by auto
  with pmm_alloc_page_spec [OF assms(1,2) a] that a show ?thesis by blast
qed

lemma free_page_facts:
  assumes "pmm_inv s F" "k < 3" "F k = q # qs"
  shows "IS_PAGE_ALIGNED q" "PHYS_TO_VIRT s q \<noteq> 0" "\<forall>i < 3. q \<notin> set ((F(k := qs)) i)"
    "IS_PAGE_ALIGNED (PHYS_TO_VIRT s q)"
proof -
  have z: "zone_inv s k (q # qs)" using assms by (auto simp: pmm_inv_def)
  then show q: "IS_PAGE_ALIGNED q" "PHYS_TO_VIRT s q \<noteq> 0" by (auto simp: zone_inv_def)
  then show "IS_PAGE_ALIGNED (PHYS_TO_VIRT s q)" using assms(1) by (simp add: pmm_inv_def PHYS_TO_VIRT_aligned)
  have "q \<notin> set (F i)" if "i < 3" "i \<noteq> k" for i
  proof -
    have "zone_inv s i (F i)" using assms(1) that by (simp add: pmm_inv_def)
    then show ?thesis using zone_inv_disjoint [OF z, of i "F i" q] that by auto
  qed
  then show "\<forall>i < 3. q \<notin> set ((F(k := qs)) i)" using zone_inv_distinct [OF z] by auto
qed

lemma find_pte_not_free:
  assumes sp: "aspace s ctx F root U T" and v: "PML4_INDEX v \<in> U" and l: "leaf s root v = Some old"
    and q: "k < 3" "q \<in> set (F k)"
  shows "\<not> find_pte s (or_kernel s ctx) v - PHYS_TO_VIRT s q < PAGE_SIZE"
proof -
  have inv: "vm_inv s F root U T" and root: "pml4_virt (ctxs s (or_kernel s ctx)) = PHYS_TO_VIRT s root"
    using sp by (auto simp: aspace_def)
  then have pm: "pmm_inv s F" and pt: "pt_inv s F root U T" by (auto simp: vm_inv_def)
  obtain p where p: "walk_path s root (table_path v) = Some p" using l by (auto simp: leaf_def split: option.splits)
  have "T p = Some ([] @ table_path v)" by (rule walk_path_table [OF pt pt_invD(1) [OF pt] good_table_path [OF v] p])
  then show ?thesis
    using entry_not_free [OF pm pt _ index_less(4) q, of p _ v] find_pte_eq [OF inv root v] p by (simp add: linorder_not_less)
qed

lemma mmu_break_cow_spec:
  assumes sp: "aspace s ctx F root U T" and v: "PML4_INDEX v \<in> U" and l: "leaf s root v = Some old"
    and cow: "pte_get_flags old AND MMU_AVAILABLE_1 \<noteq> 0" and free: "0 < nfree F"
    and used: "\<forall>i < 3. pte_get_addr old \<notin> set (F i)"
  shows "\<exists>k q qs t. k < 3 \<and> F k = q # qs \<and> mmu_break_cow ctx v s = (0, t) \<and> aspace t ctx (F(k := qs)) root U T \<and>
    (\<forall>w. PML4_INDEX w \<in> U \<longrightarrow> leaf t root w = (if vpn w = vpn v
        then Some (pte_create q ((pte_get_flags old OR MMU_WRITABLE) AND NOT MMU_AVAILABLE_1)) else leaf s root w)) \<and>
    (\<forall>d < PAGE_SIZE. mem t (PHYS_TO_VIRT s q + d) = mem s (PHYS_TO_VIRT s (pte_get_addr old) + d)) \<and>
    (\<forall>x. \<not> x - PHYS_TO_VIRT s q < PAGE_SIZE \<and> (\<forall>p \<in> dom T. \<not> x - PHYS_TO_VIRT s p < PAGE_SIZE) \<longrightarrow> mem t x = mem s x)"
proof -
  let ?c = "or_kernel s ctx" and ?old = "pte_get_addr old"
  let ?e = "\<lambda>q. pte_create q ((pte_get_flags old OR MMU_WRITABLE) AND NOT MMU_AVAILABLE_1)"
  have inv: "vm_inv s F root U T" and root: "pml4_virt (ctxs s ?c) = PHYS_TO_VIRT s root" using sp by (auto simp: aspace_def)
  then have pm: "pmm_inv s F" "0 \<notin> set (F 0)" by (auto simp: vm_inv_def)
  note r = rewrite_leaf [OF sp v l]
  obtain k q qs u where a: "pmm_alloc_page s = (q, u)" "q \<noteq> 0" and q: "k < 3" "F k = q # qs"
    and u: "pmm_inv u (F(k := qs))" "mem u = memset_page (mem s) (PHYS_TO_VIRT s q)" "hhdm_offset u = hhdm_offset s" "pmm.more u = pmm.more s"
    by (rule pmm_alloc_page_some [OF pm free])
  note qf = free_page_facts [OF pm(1) q]
  have fr: "mmu_frame s u" using u(4,3) by (rule mmu_frame_more)
  have vu: "PHYS_TO_VIRT u = PHYS_TO_VIRT s" by (rule mmu_frame_virt [OF fr])
  let ?u = "u\<lparr>mem := memcpy_page (mem u) (PHYS_TO_VIRT s q) (PHYS_TO_VIRT s ?old)\<rparr>"
  have out: "\<forall>x. \<not> x - PHYS_TO_VIRT s q < PAGE_SIZE \<longrightarrow> mem ?u x = mem s x"
    by (simp add: memcpy_page_def u(2) memset_page_outside)
  have fr': "mmu_frame s ?u" using fr by (simp add: mmu_frame_def)
  have "pmm_inv ?u (F(k := qs))"
    by (rule pmm_inv_page [OF u(1) qf(1,3)]) (simp_all add: memcpy_page_def vu)
  note tk = vm_inv_take_page [OF inv q this out fr']
  have ou: "or_kernel ?u ctx = ?c" "ctxs ?u = ctxs s" using fr' by (simp_all add: mmu_frame_def or_kernel_def)
  have spu: "aspace ?u ctx (F(k := qs)) root U T"
    unfolding aspace_def ou mmu_frame_virt [OF fr'] using tk(1) root by blast
  have rootu: "pml4_virt (ctxs ?u ?c) = PHYS_TO_VIRT ?u root" using root ou(2) mmu_frame_virt [OF fr'] by simp
  have fp: "find_pte ?u ?c v = find_pte s ?c v"
    unfolding find_pte_eq [OF inv root v] find_pte_eq [OF tk(1) rootu v] tk(3) [OF v] mmu_frame_virt [OF fr'] ..
  have lu: "leaf ?u root v = Some old" using tk(2) [OF v] l by simp
  note ru = rewrite_leaf [OF spu v lu, unfolded ou fp]
  let ?p = "find_pte s ?c v"
  let ?w = "write_word ?p (?e q) ?u"
  let ?t = "upd_stats ?c (\<lambda>x. x\<lparr>cow_breaks := cow_breaks x + 1\<rparr>) (mmu_invlpg v ?w)"
  have m: "mem_eq ?w ?t" by simp
  have np: "\<not> ?p - PHYS_TO_VIRT s q < PAGE_SIZE" using find_pte_not_free [OF sp v l q(1), of q] q(2) by simp
  then have "mem u ?p = old" using r(2) u(2) by (simp add: memset_page_outside)
  then have res: "mmu_break_cow ctx v s = (0, ?t)"
    using r(1-3) a cow by (simp add: mmu_break_cow_def Let_def vu)
  have "or_kernel ?t ctx = or_kernel ?w ctx" "pml4_virt (ctxs ?t c) = pml4_virt (ctxs ?w c)" for c
    by (simp_all add: or_kernel_def)
  then have spt: "aspace ?t ctx (F(k := qs)) root U T" using aspace_mem_eq [OF m _ ru(4)] by simp
  have pr: "pte_is_present (?e q)" using r(3) pte_is_present_flags by simp
  have lt: "leaf ?t root w = (if vpn w = vpn v then Some (?e q) else leaf s root w)" if "PML4_INDEX w \<in> U" for w
    using ru(5) [OF that, of "?e q"] mem_eq_leaf [OF m, of root w] tk(2) [OF that] pr by simp
  have ct: "mem ?t (PHYS_TO_VIRT s q + d) = mem s (PHYS_TO_VIRT s ?old + d)" if d: "d < PAGE_SIZE" for d
  proof -
    have "IS_PAGE_ALIGNED (PHYS_TO_VIRT s ?old)" using pm(1) by (simp add: pmm_inv_def PHYS_TO_VIRT_aligned pte_addr_aligned)
    then have "\<not> PHYS_TO_VIRT s ?old + d - PHYS_TO_VIRT s q < PAGE_SIZE"
      using same_page [of "PHYS_TO_VIRT s ?old" "PHYS_TO_VIRT s q" "PHYS_TO_VIRT s ?old + d"] qf(4) d used q by auto
    moreover have "PHYS_TO_VIRT s q + d \<noteq> ?p" using np d add_diff_cancel_left' [of "PHYS_TO_VIRT s q" d] by metis
    ultimately show ?thesis using d by (simp add: memcpy_page_def u(2) memset_page_outside)
  qed
  have "mem ?t x = mem s x" if "\<not> x - PHYS_TO_VIRT s q < PAGE_SIZE" "\<forall>p \<in> dom T. \<not> x - PHYS_TO_VIRT s p < PAGE_SIZE" for x
    using ru(6) [of x "?e q"] that out mmu_frame_virt [OF fr'] by simp
  then show ?thesis using q res spt lt ct by blast
qed

end
