(* ===== verification/Mmu_Contract.thy ===== *)
theory Mmu_Contract
  imports Mmu_Ranges
begin

text \<open>
  New address spaces, and the properties of \<^verbatim>\<open>src/src/kernel/mm/mmu.c\<close>.
\<close>

section \<open>New contexts\<close>

definition copy_entry :: "u64 \<Rightarrow> nat \<Rightarrow> 'a mmu_scheme \<Rightarrow> 'a mmu_scheme" where
  "copy_entry d i s = write_word (entry_at d (of_nat i)) (mem s (entry_at (pml4_virt (ctxs s (kernel_ctx s))) (of_nat i))) s"

lemma copy_entry_frame: "mmu_frame s (copy_entry d i s)" "zones (copy_entry d i s) = zones s"
  by (simp_all add: copy_entry_def)

lemma copy_entries_frame: "mmu_frame s (fold (copy_entry d) is s) \<and> zones (fold (copy_entry d) is s) = zones s"
proof (induction "is" arbitrary: s)
  case Nil
  then show ?case by simp
next
  case (Cons i "is")
  have "mmu_frame (copy_entry d i s) (fold (copy_entry d) is (copy_entry d i s))" using Cons by blast
  then have "mmu_frame s (fold (copy_entry d) is (copy_entry d i s))"
    using mmu_frame_trans copy_entry_frame(1) by blast
  then show ?case using Cons [of "copy_entry d i s"] copy_entry_frame(2) [of d i s] by simp
qed

lemma of_nat_index: "i < 512 \<Longrightarrow> (of_nat i :: u64) < 512"
  by (simp add: word_less_nat_alt unat_of_nat_small)

lemma copy_entries_mem:
  assumes k: "IS_PAGE_ALIGNED k" "IS_PAGE_ALIGNED d" "k \<noteq> d"
  shows "pml4_virt (ctxs s (kernel_ctx s)) = k \<Longrightarrow> \<forall>i \<in> set is. i < 512 \<Longrightarrow>
    mem (fold (copy_entry d) is s) x =
      (if \<exists>i \<in> set is. x = entry_at d (of_nat i) then mem s (x - d + k) else mem s x)"
proof (induction "is" arbitrary: s)
  case Nil
  then show ?case by simp
next
  case (Cons i "is")
  let ?s = "copy_entry d i s"
  have ks: "pml4_virt (ctxs ?s (kernel_ctx ?s)) = k"
    using Cons.prems(1) by (simp add: copy_entry_def write_word_def)
  have ne: "entry_at k (of_nat j) \<noteq> entry_at d (of_nat i)" if "j < 512" for j
    using entry_at_eq [OF k(1,2) of_nat_index [OF that] of_nat_index, of i] Cons.prems(2) k(3) by auto
  have src: "entry_at d (of_nat j) - d + k = entry_at k (of_nat j)" for j by (simp add: entry_at_def)
  have m: "mem ?s y = (if y = entry_at d (of_nat i) then mem s (y - d + k) else mem s y)" for y
    by (cases "y = entry_at d (of_nat i)")
      (simp_all only: copy_entry_def Cons.prems(1) src write_word_simps fun_upd_apply if_True if_False)
  have keep: "mem ?s (x - d + k) = mem s (x - d + k)" if "j \<in> set is" "x = entry_at d (of_nat j)" for j
  proof -
    have "entry_at k (of_nat j) \<noteq> entry_at d (of_nat i)" using ne that(1) Cons.prems(2) by simp
    from m [of "entry_at k (of_nat j)", unfolded if_not_P [OF this]] show ?thesis unfolding that(2) src .
  qed
  have f: "mem (fold (copy_entry d) (i # is) s) x =
      (if \<exists>j \<in> set is. x = entry_at d (of_nat j) then mem ?s (x - d + k) else mem ?s x)"
    using Cons.IH [OF ks] Cons.prems(2) by simp
  show ?case
  proof (cases "\<exists>j \<in> set is. x = entry_at d (of_nat j)")
    case True
    then have "mem ?s (x - d + k) = mem s (x - d + k)" using keep by blast
    moreover have "\<exists>j \<in> set (i # is). x = entry_at d (of_nat j)" using True by (meson list.set_intros(2))
    ultimately show ?thesis unfolding f using True by (simp only: if_True)
  next
    case False
    then have "(\<exists>j \<in> set (i # is). x = entry_at d (of_nat j)) = (x = entry_at d (of_nat i))" by (simp only: set_simps bex_simps) blast
    then show ?thesis unfolding f m [of x] using False by (simp only: if_False)
  qed
qed

definition copy_half :: "u64 \<Rightarrow> 'a mmu_scheme \<Rightarrow> 'a mmu_scheme" where
  "copy_half d s = fold (copy_entry d) [256..<512] s"

lemma copied_half:
  assumes k: "IS_PAGE_ALIGNED k" "IS_PAGE_ALIGNED d" "k \<noteq> d" and ks: "pml4_virt (ctxs s (kernel_ctx s)) = k"
    and zero: "\<forall>x. x - d < PAGE_SIZE \<longrightarrow> mem s x = 0"
  shows "i < 512 \<Longrightarrow> mem (copy_half d s) (entry_at d i) = (if 256 \<le> i then mem s (entry_at k i) else 0)"
    and "\<not> x - d < PAGE_SIZE \<Longrightarrow> mem (copy_half d s) x = mem s x"
proof -
  have m: "mem (copy_half d s) x =
      (if \<exists>i \<in> {256..<512}. x = entry_at d (of_nat i) then mem s (x - d + k) else mem s x)" for x
    using copy_entries_mem [OF k ks, of "[256..<512]" x] by (simp add: copy_half_def del: upt_rec_numeral)
  have ex: "(\<exists>j \<in> {256..<512}. entry_at d i = entry_at d (of_nat j)) = (256 \<le> i)" if i: "i < 512" for i
  proof
    assume "\<exists>j \<in> {256..<512}. entry_at d i = entry_at d (of_nat j)"
    then obtain j where j: "256 \<le> j" "j < 512" "entry_at d i = entry_at d (of_nat j)" by auto
    then have "i = of_nat j" using entry_at_inj [OF i of_nat_index] by blast
    then show "256 \<le> i" using j by (simp add: word_le_nat_alt unat_of_nat_small)
  next
    assume "256 \<le> i"
    then have "unat i \<in> {256..<512}" using i by (simp add: word_le_nat_alt word_less_nat_alt)
    moreover have "entry_at d i = entry_at d (of_nat (unat i))" by simp
    ultimately show "\<exists>j \<in> {256..<512}. entry_at d i = entry_at d (of_nat j)" by blast
  qed
  show "mem (copy_half d s) (entry_at d i) = (if 256 \<le> i then mem s (entry_at k i) else 0)" if i: "i < 512"
    unfolding m ex [OF i] using zero entry_in_page [OF i, of d] by (simp add: entry_at_def add.commute)
  have "x - d < PAGE_SIZE" if "j \<in> {256..<512}" "x = entry_at d (of_nat j)" for x and j :: nat
    using entry_in_page [OF of_nat_index, of j d] that by simp
  then show "\<not> x - d < PAGE_SIZE \<Longrightarrow> mem (copy_half d s) x = mem s x"
    unfolding m by (metis (no_types, lifting))
qed

lemma aspace_empty:
  assumes "pmm_inv t F" "0 \<notin> set (F 0)" "phys_ok F" and r: "IS_PAGE_ALIGNED r" "PHYS_TO_VIRT t r \<noteq> 0" "\<forall>i < 3. r \<notin> set (F i)"
    and e: "\<And>i. i < 256 \<Longrightarrow> ent t r i = 0" and c: "pml4_virt (ctxs t (or_kernel t ctx)) = PHYS_TO_VIRT t r"
  shows "aspace t ctx F r {..<256} [r \<mapsto> []]" and "PML4_INDEX v < 256 \<Longrightarrow> leaf t r v = None"
proof -
  have "pt_inv t F r {..<256} [r \<mapsto> []]" using r e unfolding pt_inv_def by (auto split: if_splits)
  then show "aspace t ctx F r {..<256} [r \<mapsto> []]" using assms by (simp add: aspace_def vm_inv_def)
  show "PML4_INDEX v < 256 \<Longrightarrow> leaf t r v = None" using e by (simp add: leaf_def table_path_def)
qed

lemma mmu_create_context_run:
  assumes pm: "pmm_inv s F" "0 \<notin> set (F 0)" and n: "2 \<le> nfree F"
  obtains k1 q1 qs1 k2 q2 qs2 s2 where "k1 < 3" "F k1 = q1 # qs1" "k2 < 3" "(F(k1 := qs1)) k2 = q2 # qs2"
    "pmm_inv s2 (F(k1 := qs1, k2 := qs2))" "mmu_frame s s2"
    "mem s2 = memset_page (memset_page (mem s) (PHYS_TO_VIRT s q1)) (PHYS_TO_VIRT s q2)"
    "IS_PAGE_ALIGNED q2" "PHYS_TO_VIRT s q2 \<noteq> 0" "\<forall>i < 3. q2 \<notin> set ((F(k1 := qs1, k2 := qs2)) i)"
    "PHYS_TO_VIRT s q1 \<noteq> 0"
    "mmu_create_context s = Inr (PHYS_TO_VIRT s q1, copy_half (PHYS_TO_VIRT s q2)
       (upd_ctx (PHYS_TO_VIRT s q1) (\<lambda>c. c\<lparr>pml4_phys := q2, pml4_virt := PHYS_TO_VIRT s q2, page_count := 1, c_stats := zero_stats\<rparr>) s2))"
proof -
  have n0: "0 < nfree F" using n by simp
  obtain k1 q1 qs1 s1 where a1: "pmm_alloc_page s = (q1, s1)" "q1 \<noteq> 0" and q1: "k1 < 3" "F k1 = q1 # qs1"
    and s1: "pmm_inv s1 (F(k1 := qs1))" "mem s1 = memset_page (mem s) (PHYS_TO_VIRT s q1)" "hhdm_offset s1 = hhdm_offset s" "pmm.more s1 = pmm.more s"
    by (rule pmm_alloc_page_some [OF pm n0])
  let ?F1 = "F(k1 := qs1)"
  have fr1: "mmu_frame s s1" using s1(4,3) by (rule mmu_frame_more)
  have v1: "PHYS_TO_VIRT s1 = PHYS_TO_VIRT s" by (rule mmu_frame_virt [OF fr1])
  have z1: "0 \<notin> set (?F1 0)" using pm(2) q1(2) by auto
  have "nfree ?F1 + 1 = nfree F" by (rule nfree_pop [of k1 F, OF q1])
  then have "nfree ?F1 \<noteq> 0" using n by linarith
  then have "\<not> (\<forall>i < 3. ?F1 i = [])" by (rule contrapos_nn) (rule nfree_0)
  then obtain k2 q2 qs2 s2 where q2: "k2 < 3" "?F1 k2 = q2 # qs2" and a2: "alloc_page_table s1 = Inr (PHYS_TO_VIRT s q2, s2)"
    and s2: "pmm_inv s2 (?F1(k2 := qs2))" "mem s2 = memset_page (mem s1) (PHYS_TO_VIRT s q2)" and fr2: "mmu_frame s1 s2"
    using alloc_page_table_spec [OF s1(1) z1] unfolding v1 by blast
  have fr: "mmu_frame s s2" using fr1 fr2 by (rule mmu_frame_trans)
  have vp: "VIRT_TO_PHYS s2 (PHYS_TO_VIRT s q2) = q2" using fr by (simp add: mmu_frame_def VIRT_TO_PHYS_def PHYS_TO_VIRT_def)
  note f1 = free_page_facts [OF pm(1) q1] and f2 = free_page_facts [OF s1(1) q2, unfolded v1]
  have "mmu_create_context s = Inr (PHYS_TO_VIRT s q1, copy_half (PHYS_TO_VIRT s q2)
       (upd_ctx (PHYS_TO_VIRT s q1) (\<lambda>c. c\<lparr>pml4_phys := q2, pml4_virt := PHYS_TO_VIRT s q2, page_count := 1, c_stats := zero_stats\<rparr>) s2))"
    using a1 a2 f1(2) f2(2) by (simp add: mmu_create_context_def v1 vp copy_half_def copy_entry_def [abs_def] Let_def del: upt_rec_numeral)
  moreover have "mem s2 = memset_page (memset_page (mem s) (PHYS_TO_VIRT s q1)) (PHYS_TO_VIRT s q2)"
    by (simp add: s2(2) s1(2))
  ultimately show ?thesis using that [OF q1 q2 s2(1) fr _ f2(1,2,3) f1(2)] by blast
qed

lemma mmu_create_context_spec:
  assumes pm: "pmm_inv s F" "0 \<notin> set (F 0)" "phys_ok F" and n: "2 \<le> nfree F"
    and K: "pml4_virt (ctxs s (kernel_ctx s)) = PHYS_TO_VIRT s K" "IS_PAGE_ALIGNED K" "\<forall>i < 3. K \<notin> set (F i)"
    and kc: "\<forall>i < 3. \<forall>p \<in> set (F i). PHYS_TO_VIRT s p \<noteq> kernel_ctx s"
  shows "\<exists>ctx t F' root. mmu_create_context s = Inr (ctx, t) \<and> ctx \<noteq> 0 \<and> ctx \<noteq> kernel_ctx t \<and>
    aspace t ctx F' root {..<256} [root \<mapsto> []] \<and> (\<forall>v. PML4_INDEX v < 256 \<longrightarrow> leaf t root v = None) \<and>
    (\<forall>i. 256 \<le> i \<and> i < 512 \<longrightarrow> ent t root i = ent s K i) \<and> (\<forall>c. c \<noteq> ctx \<longrightarrow> ctxs t c = ctxs s c)"
proof (rule mmu_create_context_run [OF pm(1,2) n])
  fix k1 q1 qs1 k2 q2 qs2 and s2 :: "'a mmu_scheme"
  let ?F = "F(k1 := qs1, k2 := qs2)" and ?ctx = "PHYS_TO_VIRT s q1" and ?d = "PHYS_TO_VIRT s q2"
  let ?s3 = "upd_ctx ?ctx (\<lambda>c. c\<lparr>pml4_phys := q2, pml4_virt := ?d, page_count := 1, c_stats := zero_stats\<rparr>) s2"
  let ?t = "copy_half ?d ?s3"
  assume q: "k1 < 3" "F k1 = q1 # qs1" "k2 < 3" "(F(k1 := qs1)) k2 = q2 # qs2"
    and s2: "pmm_inv s2 ?F" "mmu_frame s s2" "mem s2 = memset_page (memset_page (mem s) ?ctx) ?d"
    and q2: "IS_PAGE_ALIGNED q2" "?d \<noteq> 0" "\<forall>i < 3. q2 \<notin> set (?F i)" and c0: "?ctx \<noteq> 0"
    and res: "mmu_create_context s = Inr (?ctx, ?t)"
  have v2: "PHYS_TO_VIRT s2 = PHYS_TO_VIRT s" by (rule mmu_frame_virt [OF s2(2)])
  have sub: "x \<in> set (F i)" if "x \<in> set (?F i)" for x i using that q(2,4) by (auto split: if_splits)
  have q2F: "q2 \<in> set (F k2)" using q(2,4) by (auto split: if_splits)
  have Kq: "K \<noteq> q2" "K \<noteq> q1" using K(3) q q2F by auto
  have kne: "?ctx \<noteq> kernel_ctx s" using kc q by auto
  have al: "IS_PAGE_ALIGNED (PHYS_TO_VIRT s x)" if "IS_PAGE_ALIGNED x" for x
    using pm(1) that by (simp add: pmm_inv_def PHYS_TO_VIRT_aligned)
  have k3: "pml4_virt (ctxs ?s3 (kernel_ctx ?s3)) = PHYS_TO_VIRT s K" "mem ?s3 = mem s2"
    using s2(2) K(1) kne by (simp_all add: upd_ctx_def mmu_frame_def)
  have tfr: "mmu_frame ?s3 ?t" "zones ?t = zones s2" using copy_entries_frame [of ?s3 ?d "[256..<512]"]
    by (auto simp: copy_half_def upd_ctx_def simp del: upt_rec_numeral)
  have v3: "PHYS_TO_VIRT ?s3 = PHYS_TO_VIRT s" using v2 by (simp add: upd_ctx_def PHYS_TO_VIRT_def fun_eq_iff)
  have vt: "PHYS_TO_VIRT ?t = PHYS_TO_VIRT s" using mmu_frame_virt [OF tfr(1)] v3 by (simp only:)
  have nd: "PHYS_TO_VIRT s K \<noteq> ?d" using Kq by simp
  have z3: "\<forall>x. x - ?d < PAGE_SIZE \<longrightarrow> mem ?s3 x = 0" unfolding k3(2) by (simp add: s2(3) memset_page_def)
  note half = copied_half [OF al [OF K(2)] al [OF q2(1)] nd k3(1) z3, unfolded k3(2)]
  have hh: "hhdm_offset ?t = hhdm_offset s2" "hhdm_offset s2 = hhdm_offset s"
    using tfr(1) s2(2) by (simp_all add: mmu_frame_def upd_ctx_def del: upt_rec_numeral)
  have pt: "pmm_inv ?t ?F"
    using half(2) hh(1) tfr(2) by (intro pmm_inv_page [OF s2(1) q2(1,3)]) (simp_all only: v2)
  have top: "ent ?t q2 i = (if 256 \<le> i then mem s2 (entry_at (PHYS_TO_VIRT s K) i) else 0)" if "i < 512" for i
    unfolding ent_def vt using half(1) [OF that] .
  have "mem s2 (entry_at (PHYS_TO_VIRT s K) i) = ent s K i" if i: "i < 512" for i
  proof -
    have "\<not> entry_at (PHYS_TO_VIRT s K) i - PHYS_TO_VIRT s x < PAGE_SIZE" if "x = q1 \<or> x = q2" for x
    proof -
      have "IS_PAGE_ALIGNED x" using that q2(1) free_page_facts(1) [OF pm(1) q(1,2)] by auto
      from same_page [OF al [OF K(2)] al [OF this] entry_in_page [OF i]] that Kq show ?thesis by auto
    qed
    then show ?thesis by (simp add: s2(3) ent_def memset_page_outside)
  qed
  then have kern: "ent ?t q2 i = ent s K i" if "256 \<le> i" "i < 512" for i using top [OF that(2)] that by simp
  have cc: "ctxs ?t = ctxs ?s3" "kernel_ctx ?t = kernel_ctx s" using tfr(1) s2(2) by (simp_all add: mmu_frame_def upd_ctx_def del: upt_rec_numeral)
  have c: "pml4_virt (ctxs ?t (or_kernel ?t ?ctx)) = PHYS_TO_VIRT ?t q2"
    unfolding vt cc or_kernel_def using c0 by (simp add: upd_ctx_def)
  have ze: "ent ?t q2 i = 0" if "i < 256" for i
    using top [of i] that by (simp add: word_less_nat_alt word_le_nat_alt)
  have ph: "0 \<notin> set (?F 0)" "phys_ok ?F" using pm(2,3) sub unfolding phys_ok_def by blast+
  note em = aspace_empty [OF pt ph q2(1) _ q2(3) ze c, unfolded vt, OF q2(2)]
  have "ctxs ?t x = ctxs s x" if "x \<noteq> ?ctx" for x
    unfolding cc using that s2(2) by (simp add: upd_ctx_def mmu_frame_def)
  then show ?thesis
    using res c0 kne cc(2) em kern by (intro exI [of _ ?ctx] exI [of _ ?t] exI [of _ ?F] exI [of _ q2]) (simp del: fun_upd_apply)
qed

section \<open>A concrete address space\<close>

definition ctx0 :: mmu_context where
  "ctx0 = \<lparr>pml4_phys = 0x8000, pml4_virt = hhdm0 + 0x8000, page_count = 1, c_stats = zero_stats\<rparr>"

definition mmu_with :: "'a \<Rightarrow> 'a mmu_scheme" where
  "mmu_with x = \<lparr>mem = (\<lambda>_. 0)(hhdm0 + 0x4000 := hhdm0 + 0x3000, hhdm0 + 0x3000 := hhdm0 + 0x2000, hhdm0 + 0x2000 := hhdm0 + 0x1000),
     hhdm_offset = hhdm0, zones = [zone0\<lparr>free_pages := 4, free_stack := hhdm0 + 0x4000\<rparr>, zone0, zone0],
     total_memory_bytes = 0, usable_memory_bytes = 0,
     ctxs = (\<lambda>_. ctx0), kernel_ctx = 0xffffffff80000000, mmu_initialized = True,
     g_stats = \<lparr>g_pages_mapped = 0, g_pages_unmapped = 0, g_tables_allocated = 0, g_tlb_flushes = 0\<rparr>,
     features = \<lparr>supports_2mb_pages = True, supports_1gb_pages = False, supports_global_pages = True, supports_nx = True, supports_pcid = False\<rparr>,
     cr3 = 0x8000, tlb = {}, \<dots> = x\<rparr>"

abbreviation mmu0 :: mmu where
  "mmu0 \<equiv> mmu_with ()"

definition mmu0_free :: "nat \<Rightarrow> u64 list" where
  "mmu0_free = (\<lambda>_. [])(0 := [0x4000, 0x3000, 0x2000, 0x1000])"

lemma mmu_with_pmm: "pmm_inv (mmu_with x) mmu0_free"
proof -
  have "zone_inv (mmu_with x) 0 (mmu0_free 0)"
    by (simp add: zone_inv_def mmu_with_def mmu0_free_def zone0_def PHYS_TO_VIRT_def IS_PAGE_ALIGNED_def pmm_addr_to_zone_def)
  moreover have "zone_inv (mmu_with x) 1 (mmu0_free 1)" "zone_inv (mmu_with x) 2 (mmu0_free 2)"
    by (simp_all add: zone_inv_def mmu_with_def mmu0_free_def zone0_def)
  moreover have "\<forall>i < (3::nat). i = 0 \<or> i = 1 \<or> i = 2" by auto
  ultimately show ?thesis
    by (auto simp: pmm_inv_def mmu_with_def IS_PAGE_ALIGNED_def)
qed

lemma mmu0_free_facts: "0 \<notin> set (mmu0_free 0)" "phys_ok mmu0_free" "nfree mmu0_free = 4" "\<forall>i < 3. 0x8000 \<notin> set (mmu0_free i)"
  by (auto simp: mmu0_free_def phys_ok_def nfree_def)

lemma mmu0_kernel: "\<forall>i < 3. \<forall>p \<in> set (mmu0_free i). PHYS_TO_VIRT mmu0 p \<noteq> kernel_ctx mmu0"
  by (auto simp: mmu0_free_def mmu_with_def PHYS_TO_VIRT_def)

lemma mmu_with_space: "aspace (mmu_with x) 0 mmu0_free 0x8000 {..<256} [0x8000 \<mapsto> []]" "PML4_INDEX v < 256 \<Longrightarrow> leaf (mmu_with x) 0x8000 v = None"
proof -
  have al: "IS_PAGE_ALIGNED (hhdm0 + 0x8000)" "IS_PAGE_ALIGNED (hhdm0 + 0x4000)" "IS_PAGE_ALIGNED (hhdm0 + 0x3000)" "IS_PAGE_ALIGNED (hhdm0 + 0x2000)"
    by (simp_all add: IS_PAGE_ALIGNED_def)
  have ne: "entry_at (hhdm0 + 0x8000) i \<noteq> q" if "i < 512" "IS_PAGE_ALIGNED q" "hhdm0 + 0x8000 \<noteq> q" for i q
    using entry_at_eq [OF al(1) that(2,1), of 0] that(3) by (simp add: entry_at_def)
  have e: "ent (mmu_with x) 0x8000 i = 0" if "i < 256" for i
  proof -
    have "i < 512" using that by (rule less_trans) simp
    then show ?thesis
      using ne [of i, OF _ al(2)] ne [of i, OF _ al(3)] ne [of i, OF _ al(4)] by (simp add: ent_def mmu_with_def PHYS_TO_VIRT_def)
  qed
  have r: "IS_PAGE_ALIGNED 0x8000" "PHYS_TO_VIRT (mmu_with x) 0x8000 \<noteq> 0"
    "pml4_virt (ctxs (mmu_with x) (or_kernel (mmu_with x) 0)) = PHYS_TO_VIRT (mmu_with x) 0x8000"
    by (simp_all add: IS_PAGE_ALIGNED_def PHYS_TO_VIRT_def mmu_with_def or_kernel_def ctx0_def)
  note em = aspace_empty [OF mmu_with_pmm mmu0_free_facts(1,2) r(1,2) mmu0_free_facts(4) e r(3)]
  show "aspace (mmu_with x) 0 mmu0_free 0x8000 {..<256} [0x8000 \<mapsto> []]" by (rule em(1))
  show "PML4_INDEX v < 256 \<Longrightarrow> leaf (mmu_with x) 0x8000 v = None" by (rule em(2))
qed

lemmas mmu0_pmm = mmu_with_pmm [where x = "()"]
lemmas mmu0_space = mmu_with_space [where x = "()"]

lemma user_page: "PML4_INDEX 0x400000 \<in> {..<256}" "PML4_INDEX 0x400123 \<in> {..<256}" "PML4_INDEX 0x401000 \<in> {..<256}"
  by (simp_all add: PML4_INDEX_def)

definition mmu1 :: mmu where
  "mmu1 = (case mmu_map_page 0 0x400000 0x200000 MMU_MAP_WRITE mmu0 of Inr (r, t) \<Rightarrow> t | Inl _ \<Rightarrow> mmu0)"

lemma mmu1_space:
  obtains F T where "aspace mmu1 0 F 0x8000 {..<256} T" "0 < nfree F" "mmu_virt_to_phys mmu1 0 0x400000 = 0x200000"
    "mmu_is_mapped mmu1 0 0x400000" "\<forall>i < 3. 0x200000 \<notin> set (F i)" "0x200000 \<notin> dom T"
proof -
  obtain F T where t: "aspace mmu1 0 F 0x8000 {..<256} T" "nfree mmu0_free \<le> nfree F + 3"
    "\<forall>i < 3. set (F i) \<subseteq> set (mmu0_free i)" "\<forall>q \<in> dom T. q = 0x8000 \<or> (\<exists>i < 3. q \<in> set (mmu0_free i))"
    "leaf mmu1 0x8000 0x400000 = Some (pte_create (0x200000 AND NOT (PAGE_SIZE - 1)) (map_arch_flags (supports_global_pages (features mmu0)) MMU_MAP_WRITE))"
    using mmu_map_page_spec [OF mmu0_space(1) user_page(1), of "0x200000" MMU_MAP_WRITE] mmu0_free_facts(3) user_page(1)
    unfolding mmu1_def by auto
  have f: "0x200000 \<notin> set (mmu0_free i)" for i by (simp add: mmu0_free_def)
  show ?thesis
  proof (rule that)
    show "aspace mmu1 0 F 0x8000 {..<256} T" "0 < nfree F" using t mmu0_free_facts(3) by auto
    show "mmu_virt_to_phys mmu1 0 0x400000 = 0x200000" "mmu_is_mapped mmu1 0 0x400000"
      by (simp_all add: aspace_translate [OF t(1) user_page(1)] t(5))
    show "\<forall>i < 3. 0x200000 \<notin> set (F i)" using t(3) f by blast
    show "0x200000 \<notin> dom T" using bspec [OF t(4), of "0x200000"] f by auto
  qed
qed

section \<open>Properties\<close>

definition tlb_clear :: "'a mmu_scheme \<Rightarrow> u64 \<Rightarrow> bool" where
  "tlb_clear t v \<longleftrightarrow> (\<forall>g. (v AND NOT (PAGE_SIZE - 1), g) \<notin> tlb t)"

lemma map_entry_translate:
  "pte_get_addr (pte_create (p AND NOT (PAGE_SIZE - 1)) f) = p AND MMU_ADDR_MASK"
  by (simp add: and.assoc)

text \<open>C8. With three free pages \<^verbatim>\<open>mmu_map_page\<close> succeeds; every address of the page then translates to the
  frame plus its page offset, every other address translates as before, the flags are those asked
  for, no stale translation of the page stays cached, and only page tables and free pages are written.\<close>

theorem mmu_map_page_translates:
  assumes sp: "aspace s ctx F root U T" and v: "PML4_INDEX v \<in> U" and n: "3 \<le> nfree F"
  shows "\<exists>t F' T'. mmu_map_page ctx v p flags s = Inr (0, t) \<and> aspace t ctx F' root U T' \<and> tlb_clear t v \<and>
    (\<forall>w. PML4_INDEX w \<in> U \<longrightarrow> mmu_virt_to_phys t ctx w =
       (if vpn w = vpn v then (p AND MMU_ADDR_MASK) + (w AND (PAGE_SIZE - 1)) else mmu_virt_to_phys s ctx w)) \<and>
    mmu_get_flags t ctx v = map_arch_flags (supports_global_pages (features s)) flags AND MMU_FLAGS_MASK \<and>
    (\<forall>x. (\<forall>q. q \<in> dom T \<or> (\<exists>i < 3. q \<in> set (F i)) \<longrightarrow> \<not> x - PHYS_TO_VIRT s q < PAGE_SIZE) \<longrightarrow> mem t x = mem s x)"
proof -
  obtain t F' T' where t: "mmu_map_page ctx v p flags s = Inr (0, t)" "aspace t ctx F' root U T'"
    "\<forall>w. PML4_INDEX w \<in> U \<longrightarrow> leaf t root w = (if vpn w = vpn v
       then Some (pte_create (p AND NOT (PAGE_SIZE - 1)) (map_arch_flags (supports_global_pages (features s)) flags))
       else leaf s root w)"
    "\<forall>x. (\<forall>q \<in> dom T'. \<not> x - PHYS_TO_VIRT s q < PAGE_SIZE) \<longrightarrow> mem t x = mem s x" "tlb_clear t v"
    "\<forall>q \<in> dom T'. q \<in> dom T \<or> (\<exists>i < 3. q \<in> set (F i))"
    using mmu_map_page_spec [OF sp v, of p flags] n unfolding tlb_clear_def by auto
  have "mmu_virt_to_phys t ctx w = (if vpn w = vpn v then (p AND MMU_ADDR_MASK) + (w AND (PAGE_SIZE - 1)) else mmu_virt_to_phys s ctx w)"
    if "PML4_INDEX w \<in> U" for w
    using that t(3) by (simp add: aspace_translate [OF sp that] aspace_translate [OF t(2) that] and.assoc)
  moreover have "mmu_get_flags t ctx v = map_arch_flags (supports_global_pages (features s)) flags AND MMU_FLAGS_MASK"
    using t(3) v by (simp add: aspace_translate [OF t(2) v])
  moreover have "mem t x = mem s x" if "\<forall>q. q \<in> dom T \<or> (\<exists>i < 3. q \<in> set (F i)) \<longrightarrow> \<not> x - PHYS_TO_VIRT s q < PAGE_SIZE" for x
    using that t(4,6) by blast
  ultimately show ?thesis using t(1,2,5) by blast
qed

theorem mmu_map_page_translates_witness:
  "\<exists>t. mmu_map_page 0 0x400000 0x200000 MMU_MAP_WRITE mmu0 = Inr (0, t) \<and> mmu_virt_to_phys t 0 0x400123 = 0x200123 \<and>
     mmu_get_flags t 0 0x400000 = MMU_PRESENT OR MMU_WRITABLE"
proof -
  obtain t where t: "mmu_map_page 0 0x400000 0x200000 MMU_MAP_WRITE mmu0 = Inr (0, t)"
    "\<forall>w. PML4_INDEX w \<in> {..<256} \<longrightarrow> mmu_virt_to_phys t 0 w =
       (if vpn w = vpn 0x400000 then (0x200000 AND MMU_ADDR_MASK) + (w AND (PAGE_SIZE - 1)) else mmu_virt_to_phys mmu0 0 w)"
    "mmu_get_flags t 0 0x400000 = map_arch_flags (supports_global_pages (features mmu0)) MMU_MAP_WRITE AND MMU_FLAGS_MASK"
    using mmu_map_page_translates [OF mmu0_space(1) user_page(1), of "0x200000" MMU_MAP_WRITE] mmu0_free_facts(3) by auto
  have "mmu_virt_to_phys t 0 0x400123 = 0x200123" using t(2) user_page(2) by (simp add: vpn_def)
  then show ?thesis using t(1,3) by (simp add: map_arch_flags_def)
qed

text \<open>C9. \<^verbatim>\<open>mmu_unmap_page\<close> fails and changes nothing when the page is not mapped; otherwise the page has
  no translation afterwards, none cached either, and every other page translates as before.\<close>

theorem mmu_unmap_page_translates:
  assumes sp: "aspace s ctx F root U T" and v: "PML4_INDEX v \<in> U"
  shows "if mmu_is_mapped s ctx v
    then \<exists>t. mmu_unmap_page ctx v s = Inr (0, t) \<and> aspace t ctx F root U T \<and> tlb_clear t v \<and>
      (\<forall>w. PML4_INDEX w \<in> U \<longrightarrow> mmu_is_mapped t ctx w = (vpn w \<noteq> vpn v \<and> mmu_is_mapped s ctx w) \<and>
         mmu_virt_to_phys t ctx w = (if vpn w = vpn v then 0 else mmu_virt_to_phys s ctx w))
    else mmu_unmap_page ctx v s = Inr (-1, s)"
proof (cases "leaf s root v")
  case None
  then show ?thesis using mmu_unmap_page_spec [OF sp v] by (simp add: aspace_translate(2) [OF sp v])
next
  case (Some e)
  then obtain t where t: "mmu_unmap_page ctx v s = Inr (0, t)" "aspace t ctx F root U T" "tlb_clear t v"
    "\<forall>w. PML4_INDEX w \<in> U \<longrightarrow> leaf t root w = (if vpn w = vpn v then None else leaf s root w)"
    using mmu_unmap_page_spec [OF sp v] unfolding tlb_clear_def by auto
  have "mmu_is_mapped t ctx w = (vpn w \<noteq> vpn v \<and> mmu_is_mapped s ctx w) \<and>
      mmu_virt_to_phys t ctx w = (if vpn w = vpn v then 0 else mmu_virt_to_phys s ctx w)" if "PML4_INDEX w \<in> U" for w
    using that t(4) by (simp add: aspace_translate [OF sp that] aspace_translate [OF t(2) that])
  then show ?thesis using t Some aspace_translate(2) [OF sp v] by auto
qed

theorem mmu_unmap_page_translates_witness:
  "mmu_unmap_page 0 0x400000 mmu0 = Inr (-1, mmu0) \<and> mmu_is_mapped mmu1 0 0x400000 \<and>
   (\<exists>t. mmu_unmap_page 0 0x400000 mmu1 = Inr (0, t) \<and> \<not> mmu_is_mapped t 0 0x400000 \<and> tlb_clear t 0x400000)"
proof (rule mmu1_space)
  fix F T assume m: "aspace mmu1 0 F 0x8000 {..<256} T" "mmu_is_mapped mmu1 0 0x400000"
  have "\<not> mmu_is_mapped mmu0 0 0x400000"
    using aspace_translate(2) [OF mmu0_space(1) user_page(1)] mmu0_space(2) user_page(1) by simp
  then show ?thesis
    using mmu_unmap_page_translates [OF m(1) user_page(1)] mmu_unmap_page_translates [OF mmu0_space(1) user_page(1)] m(2) user_page(1)
    by auto
qed

text \<open>C10. With enough free pages \<^verbatim>\<open>mmu_map_range\<close> succeeds and translates page \<open>k\<close> of the range to frame
  \<open>k\<close>, leaves every address outside the range as it was, and \<^verbatim>\<open>mmu_unmap_range\<close> over the same range
  restores every translation when the range was unmapped before.\<close>

theorem mmu_map_range_translates:
  assumes sp: "aspace s ctx F root U T" and n: "n = num_pages_of sz" "n \<le> 2 ^ 36" "3 * n \<le> nfree F"
    and cov: "\<forall>k < n. PML4_INDEX (vs + of_nat k * PAGE_SIZE) \<in> U"
  shows "\<exists>t. mmu_map_range ctx vs ps sz flags s = Inr (0, t) \<and>
    (\<forall>k < n. mmu_virt_to_phys t ctx (vs + of_nat k * PAGE_SIZE) =
       ((ps + of_nat k * PAGE_SIZE) AND MMU_ADDR_MASK) + ((vs + of_nat k * PAGE_SIZE) AND (PAGE_SIZE - 1))) \<and>
    (\<forall>w. PML4_INDEX w \<in> U \<and> (\<forall>k < n. vpn w \<noteq> vpn (vs + of_nat k * PAGE_SIZE)) \<longrightarrow>
       mmu_virt_to_phys t ctx w = mmu_virt_to_phys s ctx w) \<and>
    ((\<forall>k < n. \<not> mmu_is_mapped s ctx (vs + of_nat k * PAGE_SIZE)) \<longrightarrow>
       (\<exists>u. mmu_unmap_range ctx vs sz t = Inr (0, u) \<and>
         (\<forall>w. PML4_INDEX w \<in> U \<longrightarrow> mmu_virt_to_phys u ctx w = mmu_virt_to_phys s ctx w)))"
proof -
  let ?c = "or_kernel s ctx" and ?g = "supports_global_pages (features s)" and ?ms = "range_pages vs ps n"
  have ok: "as_ok ?c root U (?g, kernel_ctx s) s" using aspace_or_kernel [OF sp] by (auto simp: as_ok_def)
  obtain t where t: "mmu_map_range ctx vs ps sz flags s = Inr (0, t)" "put_all (map_put ?c flags) ?ms s = Some t"
    using mmu_map_range_spec [OF sp, of sz vs ps flags] n cov by auto
  have cv: "\<forall>m \<in> set ?ms. PML4_INDEX (fst m) \<in> U" using cov by (auto simp: range_pages_def)
  have okt: "as_ok ?c root U (?g, kernel_ctx s) t" by (rule pm.put_all_ok [OF ok cv t(2)])
  note tr = as_ok_translate [OF okt] and tr0 = as_ok_translate [OF ok]
  have lk: "leaf t root w = (case map_of (rev (map (\<lambda>(v, p). (vpn v, map_entry ?g flags p)) ?ms)) (vpn w) of
      Some e \<Rightarrow> Some e | None \<Rightarrow> leaf s root w)" if "PML4_INDEX w \<in> U" for w
    using pm.put_all_lookup [OF ok cv that t(2)] by simp
  have inside: "mmu_virt_to_phys t ctx (vs + of_nat k * PAGE_SIZE) =
       ((ps + of_nat k * PAGE_SIZE) AND MMU_ADDR_MASK) + ((vs + of_nat k * PAGE_SIZE) AND (PAGE_SIZE - 1))" if "k < n" for k
    using cov that lk range_pages_lookup(1) [OF n(2) that, of "map_entry ?g flags" vs ps]
    by (simp add: tr map_entry_def and.assoc)
  have outside: "mmu_virt_to_phys t ctx w = mmu_virt_to_phys s ctx w"
    if "PML4_INDEX w \<in> U" "\<forall>k < n. vpn w \<noteq> vpn (vs + of_nat k * PAGE_SIZE)" for w
    using that(1) lk range_pages_lookup(2) [OF n(2) that(2), of "map_entry ?g flags" ps] by (simp add: tr tr0)
  let ?u = "fold (map_del ?c) (map fst ?ms) t"
  have un: "mmu_unmap_range ctx vs sz t = Inr (0, ?u)"
    using unmap_loop_fold [OF okt, of n vs 0] cov n(1)
    by (simp add: mmu_unmap_range_def range_pages_def comp_def as_ok_kernel [OF okt])
  have oku: "as_ok ?c root U (?g, kernel_ctx s) ?u" by (rule pm.fold_del_ok [OF okt]) (use cv in auto)
  have restore: "mmu_virt_to_phys ?u ctx w = mmu_virt_to_phys s ctx w"
    if nm: "\<forall>k < n. \<not> mmu_is_mapped s ctx (vs + of_nat k * PAGE_SIZE)" and w: "PML4_INDEX w \<in> U" for w
  proof -
    have "\<forall>m \<in> set ?ms. leaf s root (fst m) = None" using nm cov by (auto simp: range_pages_def tr0)
    then have "leaf ?u root w = leaf s root w"
      using pm.put_del_lookup [OF ok cv t(2) w] leaf_vpn by blast
    then show ?thesis using w by (simp add: as_ok_translate [OF oku] tr0)
  qed
  show ?thesis using t(1) inside outside un restore by blast
qed

theorem mmu_map_range_translates_witness:
  "\<exists>t u. mmu_map_range 0 0x400000 0x200000 0x1000 MMU_MAP_WRITE mmu0 = Inr (0, t) \<and> mmu_virt_to_phys t 0 0x400000 = 0x200000 \<and>
     mmu_unmap_range 0 0x400000 0x1000 t = Inr (0, u) \<and> mmu_virt_to_phys u 0 0x400000 = 0"
proof -
  have n: "1 = num_pages_of 0x1000" by (simp add: num_pages_of_def)
  have z: "leaf mmu0 0x8000 0x400000 = None" by (rule mmu0_space(2)) (use user_page(1) in simp)
  have i: "mmu_virt_to_phys mmu0 0 0x400000 = 0" "\<not> mmu_is_mapped mmu0 0 0x400000"
    by (simp_all add: aspace_translate [OF mmu0_space(1) user_page(1)] z)
  obtain t where t: "mmu_map_range 0 0x400000 0x200000 0x1000 MMU_MAP_WRITE mmu0 = Inr (0, t)" "mmu_virt_to_phys t 0 0x400000 = 0x200000"
    and u: "\<exists>u. mmu_unmap_range 0 0x400000 0x1000 t = Inr (0, u) \<and> (\<forall>w. PML4_INDEX w \<in> {..<256} \<longrightarrow> mmu_virt_to_phys u 0 w = mmu_virt_to_phys mmu0 0 w)"
    using mmu_map_range_translates [OF mmu0_space(1) n, of "0x400000" "0x200000" MMU_MAP_WRITE] mmu0_free_facts(3) user_page(1) i(2)
    by auto
  show ?thesis using t u i(1) user_page(1) by fastforce
qed

lemma reflag_page_spec:
  assumes sp: "aspace s ctx F root U T" and v: "PML4_INDEX v \<in> U" and l: "leaf s root v = Some old"
    and f: "pte_is_present (f (pte_get_flags old))"
  defines "t \<equiv> reflag_page f (or_kernel s ctx) v s"
  shows "aspace t ctx F root U T" and "PML4_INDEX w \<in> U \<Longrightarrow> leaf t root w =
      (if vpn w = vpn v then Some (pte_create (pte_get_addr old) (f (pte_get_flags old))) else leaf s root w)"
    and "\<forall>q \<in> dom T. \<not> x - PHYS_TO_VIRT s q < PAGE_SIZE \<Longrightarrow> mem t x = mem s x"
    and "hhdm_offset t = hhdm_offset s"
proof -
  let ?e = "pte_create (pte_get_addr old) (f (pte_get_flags old))"
  note r = rewrite_leaf [OF sp v l]
  let ?w = "write_word (find_pte s (or_kernel s ctx) v) ?e s"
  have t: "t = mmu_invlpg v ?w" using r(1-3) by (simp add: t_def reflag_page_def Let_def)
  have m: "mem_eq ?w t" by (simp add: t)
  have "or_kernel t ctx = or_kernel ?w ctx" "ctxs t = ctxs ?w" by (simp_all add: t or_kernel_def mmu_invlpg_def)
  then show "aspace t ctx F root U T" using aspace_mem_eq [OF m _ r(4)] by simp
  have "pte_is_present ?e" using f by simp
  then show "PML4_INDEX w \<in> U \<Longrightarrow> leaf t root w = (if vpn w = vpn v then Some ?e else leaf s root w)"
    using r(5) [of w ?e] mem_eq_leaf [OF m, of root w] by simp
  show "\<forall>q \<in> dom T. \<not> x - PHYS_TO_VIRT s q < PAGE_SIZE \<Longrightarrow> mem t x = mem s x"
    using r(6) [of x ?e] by (simp add: t mmu_invlpg_def)
  show "hhdm_offset t = hhdm_offset s" by (simp add: t mmu_invlpg_def write_word_def)
qed

lemma pte_addr_mask: "pte_get_addr e AND MMU_ADDR_MASK = pte_get_addr e"
  by (simp add: pte_get_addr_def and.assoc)

lemma aspace_frame_disjoint:
  assumes sp: "aspace s ctx F root U T" and p: "IS_PAGE_ALIGNED p" "d < PAGE_SIZE" and q: "q \<in> dom T \<or> (\<exists>i < 3. q \<in> set (F i))" and "p \<noteq> q"
  shows "\<not> PHYS_TO_VIRT s p + d - PHYS_TO_VIRT s q < PAGE_SIZE"
proof -
  have inv: "pmm_inv s F" "pt_inv s F root U T" using sp by (auto simp: aspace_def vm_inv_def)
  have al: "IS_PAGE_ALIGNED (PHYS_TO_VIRT s x)" if "IS_PAGE_ALIGNED x" for x
    using inv(1) that by (simp add: pmm_inv_def PHYS_TO_VIRT_aligned)
  have "IS_PAGE_ALIGNED q" using q inv(1) pt_invD(2) [OF inv(2)] by (auto simp: pmm_inv_def zone_inv_def)
  then show ?thesis
    using same_page [OF al [OF p(1)] al, of q "PHYS_TO_VIRT s p + d"] p(2) assms(5) by auto
qed

lemma is_cow_page_leaf:
  assumes sp: "aspace s ctx F root U T" and v: "PML4_INDEX v \<in> U"
  shows "mmu_is_cow_page s ctx v = (case leaf s root v of None \<Rightarrow> False | Some e \<Rightarrow> pte_get_flags e AND MMU_AVAILABLE_1 \<noteq> 0)"
  using find_pte_leaf [of s F root U T "or_kernel s ctx" v] sp v
  by (auto simp: mmu_is_cow_page_def aspace_def Let_def split: option.splits)

lemma mark_unmark: "(((e AND NOT w) OR a) OR w) AND NOT a = (e OR w) AND NOT (a :: u64)"
  by (rule bit_eqI) (auto simp: bit_simps)

lemma cow_flags:
  assumes "pte_is_present e"
  defines "m \<equiv> (pte_get_flags e AND NOT MMU_WRITABLE) OR MMU_AVAILABLE_1"
  shows "pte_is_present m" "m AND MMU_FLAGS_MASK = m" "m AND MMU_AVAILABLE_1 \<noteq> 0" "m AND MMU_WRITABLE = 0"
    "(m OR MMU_WRITABLE) AND NOT MMU_AVAILABLE_1 = (pte_get_flags e OR MMU_WRITABLE) AND NOT MMU_AVAILABLE_1"
proof -
  show "pte_is_present m" using assms(1)
    by (simp add: m_def pte_is_present_def pte_get_flags_def bit.conj_disj_distrib2 and.assoc)
  show "m AND MMU_FLAGS_MASK = m" by (simp add: m_def pte_get_flags_def bit.conj_disj_distrib2 and.assoc)
  show "m AND MMU_AVAILABLE_1 \<noteq> 0" "m AND MMU_WRITABLE = 0"
    by (simp_all add: m_def bit.conj_disj_distrib2 and.assoc word_ao_absorbs)
  show "(m OR MMU_WRITABLE) AND NOT MMU_AVAILABLE_1 = (pte_get_flags e OR MMU_WRITABLE) AND NOT MMU_AVAILABLE_1"
    unfolding m_def by (rule mark_unmark)
qed

text \<open>C11. Copy on write: \<^verbatim>\<open>mmu_mark_cow\<close> write-protects a mapped page without moving it; \<^verbatim>\<open>mmu_break_cow\<close> then
  gives the page a frame of its own, taken from the free lists, with the contents of the shared
  frame and write access restored, while the shared frame and every other mapping stay as they were.\<close>

theorem mmu_cow_private_copy:
  assumes sp: "aspace s ctx F root U T" and v: "PML4_INDEX v \<in> U" and map: "mmu_is_mapped s ctx v"
    and free: "0 < nfree F" and al: "v AND (PAGE_SIZE - 1) = 0"
    and used: "\<forall>i < 3. mmu_virt_to_phys s ctx v \<notin> set (F i)"
    and data: "\<forall>p \<in> dom T. p \<noteq> mmu_virt_to_phys s ctx v"
  shows "\<exists>t u q i qs. mmu_mark_cow ctx v PAGE_SIZE s = (0, t) \<and> mmu_is_cow_page t ctx v \<and>
    mmu_get_flags t ctx v AND MMU_WRITABLE = 0 \<and> mmu_virt_to_phys t ctx v = mmu_virt_to_phys s ctx v \<and>
    mmu_break_cow ctx v t = (0, u) \<and> i < 3 \<and> F i = q # qs \<and> aspace u ctx (F(i := qs)) root U T \<and>
    \<not> mmu_is_cow_page u ctx v \<and> mmu_get_flags u ctx v = (mmu_get_flags s ctx v OR MMU_WRITABLE) AND NOT MMU_AVAILABLE_1 \<and>
    (\<forall>w. PML4_INDEX w \<in> U \<longrightarrow> mmu_virt_to_phys u ctx w = (if vpn w = vpn v then q + (w AND (PAGE_SIZE - 1)) else mmu_virt_to_phys s ctx w)) \<and>
    (\<forall>d < PAGE_SIZE. mem u (PHYS_TO_VIRT s q + d) = mem s (PHYS_TO_VIRT s (mmu_virt_to_phys s ctx v) + d) \<and>
       mem u (PHYS_TO_VIRT s (mmu_virt_to_phys s ctx v) + d) = mem s (PHYS_TO_VIRT s (mmu_virt_to_phys s ctx v) + d))"
proof -
  let ?c = "or_kernel s ctx"
  obtain old where l: "leaf s root v = Some old" using map aspace_translate(2) [OF sp v] by auto
  let ?p = "pte_get_addr old"
  let ?m = "(pte_get_flags old AND NOT MMU_WRITABLE) OR MMU_AVAILABLE_1"
  let ?t = "reflag_page (\<lambda>f. (f AND NOT MMU_WRITABLE) OR MMU_AVAILABLE_1) ?c v s"
  have p: "mmu_virt_to_phys s ctx v = ?p" using aspace_translate(1) [OF sp v] l al by simp
  note cf = cow_flags [OF rewrite_leaf(3) [OF sp v l]]
  note rf = reflag_page_spec [OF sp v l, of "\<lambda>f. (f AND NOT MMU_WRITABLE) OR MMU_AVAILABLE_1", OF cf(1)]
  have mk: "mmu_mark_cow ctx v PAGE_SIZE s = (0, ?t)"
    by (simp add: mmu_mark_cow_def reflag_range_def num_pages_of_def upt_rec)
  let ?e = "pte_create ?p ?m"
  have le: "leaf ?t root v = Some ?e" using rf(2) [OF v] by simp
  have e: "pte_get_addr ?e = ?p" "pte_get_flags ?e = ?m"
    using cf(2) pte_addr_mask [of old] by simp_all
  have vt: "PHYS_TO_VIRT ?t = PHYS_TO_VIRT s" using rf(4) by (simp add: PHYS_TO_VIRT_def fun_eq_iff)
  have "\<forall>i < 3. pte_get_addr ?e \<notin> set (F i)" unfolding e using used p by simp
  from mmu_break_cow_spec [OF rf(1) v le _ free this, unfolded e vt, OF cf(3)]
  obtain k q qs u where k: "k < 3" "F k = q # qs" and br: "mmu_break_cow ctx v ?t = (0, u)"
    and spu: "aspace u ctx (F(k := qs)) root U T"
    and lu: "\<forall>w. PML4_INDEX w \<in> U \<longrightarrow> leaf u root w = (if vpn w = vpn v
        then Some (pte_create q ((?m OR MMU_WRITABLE) AND NOT MMU_AVAILABLE_1)) else leaf ?t root w)"
    and cp: "\<forall>d < PAGE_SIZE. mem u (PHYS_TO_VIRT s q + d) = mem ?t (PHYS_TO_VIRT s ?p + d)"
    and fr: "\<forall>x. \<not> x - PHYS_TO_VIRT s q < PAGE_SIZE \<and> (\<forall>p \<in> dom T. \<not> x - PHYS_TO_VIRT s p < PAGE_SIZE) \<longrightarrow> mem u x = mem ?t x"
    by blast
  have sv: "PML4_INDEX w \<in> U \<Longrightarrow> leaf u root w = (if vpn w = vpn v then Some (pte_create q ((pte_get_flags old OR MMU_WRITABLE) AND NOT MMU_AVAILABLE_1)) else leaf s root w)" for w
    using lu rf(2) unfolding cf(5) by simp
  have qa: "q AND MMU_ADDR_MASK = q" using sp k by (auto simp: aspace_def vm_inv_def phys_ok_def)
  have fl: "(((pte_get_flags old OR MMU_WRITABLE) AND NOT MMU_AVAILABLE_1) AND MMU_FLAGS_MASK) = (pte_get_flags old OR MMU_WRITABLE) AND NOT MMU_AVAILABLE_1"
    "((pte_get_flags old OR MMU_WRITABLE) AND NOT MMU_AVAILABLE_1) AND MMU_AVAILABLE_1 = 0"
    by (simp_all add: pte_get_flags_def bit.conj_disj_distrib2 and.assoc)
  have tr: "mmu_virt_to_phys u ctx w = (if vpn w = vpn v then q + (w AND (PAGE_SIZE - 1)) else mmu_virt_to_phys s ctx w)"
    if "PML4_INDEX w \<in> U" for w
    using sv [OF that] qa by (simp add: aspace_translate(1) [OF spu that] aspace_translate(1) [OF sp that])
  have keep: "mem ?t (PHYS_TO_VIRT s ?p + d) = mem s (PHYS_TO_VIRT s ?p + d)"
    "mem u (PHYS_TO_VIRT s ?p + d) = mem s (PHYS_TO_VIRT s ?p + d)" if d: "d < PAGE_SIZE" for d
  proof -
    note dj = aspace_frame_disjoint [OF sp pte_addr_aligned d]
    have T: "\<forall>x \<in> dom T. \<not> PHYS_TO_VIRT s ?p + d - PHYS_TO_VIRT s x < PAGE_SIZE" 
    proof
      fix x assume "x \<in> dom T"
      then show "\<not> PHYS_TO_VIRT s ?p + d - PHYS_TO_VIRT s x < PAGE_SIZE" using dj [of x old] data p by metis
    qed
    then show a: "mem ?t (PHYS_TO_VIRT s ?p + d) = mem s (PHYS_TO_VIRT s ?p + d)" by (rule rf(3))
    have "q \<in> set (F k)" using k by simp
    then have "\<not> PHYS_TO_VIRT s ?p + d - PHYS_TO_VIRT s q < PAGE_SIZE" using dj [of q old] k(1) used p by metis
    then show "mem u (PHYS_TO_VIRT s ?p + d) = mem s (PHYS_TO_VIRT s ?p + d)" using fr T a by auto
  qed
  have t_facts: "mmu_is_cow_page ?t ctx v" "mmu_get_flags ?t ctx v AND MMU_WRITABLE = 0" "mmu_virt_to_phys ?t ctx v = ?p"
    unfolding is_cow_page_leaf [OF rf(1) v] aspace_translate [OF rf(1) v] le option.case e using cf(3,4) al by simp_all
  have "\<not> mmu_is_cow_page u ctx v" "mmu_get_flags u ctx v = (mmu_get_flags s ctx v OR MMU_WRITABLE) AND NOT MMU_AVAILABLE_1"
    using sv [OF v] fl l by (simp_all only: is_cow_page_leaf [OF spu v] aspace_translate(3) [OF spu v] aspace_translate(3) [OF sp v]
      if_True refl option.case pte_get_flags_create) simp_all
  then show ?thesis unfolding p using mk t_facts br k spu tr cp keep
    by (intro exI [of _ ?t] exI [of _ u] exI [of _ q] exI [of _ k] exI [of _ qs] conjI) simp_all
qed

theorem mmu_cow_private_copy_witness:
  "mmu_virt_to_phys mmu1 0 0x400000 = 0x200000 \<and>
   (\<exists>t u q. mmu_mark_cow 0 0x400000 PAGE_SIZE mmu1 = (0, t) \<and> mmu_is_cow_page t 0 0x400000 \<and> mmu_break_cow 0 0x400000 t = (0, u) \<and>
     mmu_virt_to_phys u 0 0x400000 = q \<and> (\<forall>d < PAGE_SIZE. mem u (PHYS_TO_VIRT mmu1 q + d) = mem mmu1 (PHYS_TO_VIRT mmu1 0x200000 + d)))"
proof (rule mmu1_space)
  fix F T assume m: "aspace mmu1 0 F 0x8000 {..<256} T" "0 < nfree F" "mmu_virt_to_phys mmu1 0 0x400000 = 0x200000"
    "mmu_is_mapped mmu1 0 0x400000" "\<forall>i < 3. 0x200000 \<notin> set (F i)" "0x200000 \<notin> dom T"
  have h: "0x400000 AND (PAGE_SIZE - 1) = 0" "\<forall>i < 3. mmu_virt_to_phys mmu1 0 0x400000 \<notin> set (F i)"
    "\<forall>p \<in> dom T. p \<noteq> mmu_virt_to_phys mmu1 0 0x400000" using m by auto
  obtain t u q where "mmu_mark_cow 0 0x400000 PAGE_SIZE mmu1 = (0, t)" "mmu_is_cow_page t 0 0x400000" "mmu_break_cow 0 0x400000 t = (0, u)"
    "\<forall>w. PML4_INDEX w \<in> {..<256} \<longrightarrow> mmu_virt_to_phys u 0 w = (if vpn w = vpn 0x400000 then q + (w AND (PAGE_SIZE - 1)) else mmu_virt_to_phys mmu1 0 w)"
    "\<forall>d < PAGE_SIZE. mem u (PHYS_TO_VIRT mmu1 q + d) = mem mmu1 (PHYS_TO_VIRT mmu1 0x200000 + d)"
    using mmu_cow_private_copy [OF m(1) user_page(1) m(4,2) h] unfolding m(3) by blast
  then show ?thesis using m(3) user_page(1) h(1) by (intro conjI exI [of _ t] exI [of _ u] exI [of _ q]) simp_all
qed

text \<open>C12. With two free pages \<^verbatim>\<open>mmu_create_context\<close> returns a fresh context whose user half translates nothing
  and can be mapped, whose kernel half is that of the kernel context, and leaves the other contexts alone.\<close>

theorem mmu_create_context_isolated:
  assumes "pmm_inv s F" and "0 \<notin> set (F 0)" and "phys_ok F" and "2 \<le> nfree F"
    and "pml4_virt (ctxs s (kernel_ctx s)) = PHYS_TO_VIRT s K" and "IS_PAGE_ALIGNED K" and "\<forall>i < 3. K \<notin> set (F i)"
    and "\<forall>i < 3. \<forall>p \<in> set (F i). PHYS_TO_VIRT s p \<noteq> kernel_ctx s"
  shows "\<exists>ctx t F' root. mmu_create_context s = Inr (ctx, t) \<and> ctx \<noteq> 0 \<and> ctx \<noteq> kernel_ctx t \<and>
    aspace t ctx F' root {..<256} [root \<mapsto> []] \<and>
    (\<forall>v. PML4_INDEX v < 256 \<longrightarrow> \<not> mmu_is_mapped t ctx v \<and> mmu_virt_to_phys t ctx v = 0) \<and>
    (\<forall>i. 256 \<le> i \<and> i < 512 \<longrightarrow> ent t root i = ent s K i) \<and> (\<forall>c. c \<noteq> ctx \<longrightarrow> ctxs t c = ctxs s c)"
proof -
  obtain ctx t F' root where r: "mmu_create_context s = Inr (ctx, t)" "ctx \<noteq> 0" "ctx \<noteq> kernel_ctx t"
    "aspace t ctx F' root {..<256} [root \<mapsto> []]" "\<forall>v. PML4_INDEX v < 256 \<longrightarrow> leaf t root v = None"
    "\<forall>i. 256 \<le> i \<and> i < 512 \<longrightarrow> ent t root i = ent s K i" "\<forall>c. c \<noteq> ctx \<longrightarrow> ctxs t c = ctxs s c"
    using mmu_create_context_spec [OF assms] by blast
  have "\<not> mmu_is_mapped t ctx v \<and> mmu_virt_to_phys t ctx v = 0" if "PML4_INDEX v < 256" for v
    using r(5) that by (simp add: aspace_translate [OF r(4), of v])
  then show ?thesis using r by blast
qed

theorem mmu_create_context_isolated_witness:
  "\<exists>ctx t. mmu_create_context mmu0 = Inr (ctx, t) \<and> ctx \<noteq> 0 \<and> \<not> mmu_is_mapped t ctx 0x400000"
proof -
  have k: "pml4_virt (ctxs mmu0 (kernel_ctx mmu0)) = PHYS_TO_VIRT mmu0 0x8000" "IS_PAGE_ALIGNED 0x8000" "2 \<le> nfree mmu0_free"
    using mmu0_free_facts(3) by (simp_all add: mmu_with_def ctx0_def PHYS_TO_VIRT_def IS_PAGE_ALIGNED_def)
  show ?thesis
    using mmu_create_context_isolated [OF mmu0_pmm mmu0_free_facts(1,2) k(3,1,2) mmu0_free_facts(4) mmu0_kernel] user_page(1) by force
qed

end
