(* ===== verification/Vmm.thy ===== *)
theory Vmm
  imports Mmu_Contract
begin

text \<open>
  Virtual memory regions, \<^verbatim>\<open>src/src/kernel/mm/vmm.c\<close> and \<^verbatim>\<open>src/src/include/mm/vmm.h\<close>.

  The state extends that of the page tables.  Region descriptors (\<^verbatim>\<open>struct vm_area\<close>) and address spaces
  (\<^verbatim>\<open>struct vm_space\<close>) are two stores from pointers to records; the pages they live in come from
  \<^verbatim>\<open>pmm_alloc_page\<close>, and \<open>kernel_space\<close> is the address of the static kernel space.  Every operation runs under
  \<^verbatim>\<open>vmm_lock\<close>, so it is one state transformer.  Messages to the console are left out.
\<close>

section \<open>Data\<close>

abbreviation (input) VMM_READ :: u32 where "VMM_READ \<equiv> 1"
abbreviation (input) VMM_WRITE :: u32 where "VMM_WRITE \<equiv> 2"
abbreviation (input) VMM_EXEC :: u32 where "VMM_EXEC \<equiv> 4"
abbreviation (input) VMM_USER :: u32 where "VMM_USER \<equiv> 8"
abbreviation (input) VMM_NOCACHE :: u32 where "VMM_NOCACHE \<equiv> 16"
abbreviation (input) VMM_TYPE_ANON :: u32 where "VMM_TYPE_ANON \<equiv> 0"
abbreviation (input) VMM_TYPE_PHYS :: u32 where "VMM_TYPE_PHYS \<equiv> 1"
abbreviation (input) VMM_ALLOC_LAZY :: u32 where "VMM_ALLOC_LAZY \<equiv> 1"
abbreviation (input) VMM_ALLOC_ZERO :: u32 where "VMM_ALLOC_ZERO \<equiv> 2"
abbreviation (input) VMM_ALLOC_COW :: u32 where "VMM_ALLOC_COW \<equiv> 4"
abbreviation (input) VMM_FAULT_PRESENT :: u64 where "VMM_FAULT_PRESENT \<equiv> 1"
abbreviation (input) VMM_FAULT_WRITE :: u64 where "VMM_FAULT_WRITE \<equiv> 2"
abbreviation (input) MMU_MAP_EXEC :: u64 where "MMU_MAP_EXEC \<equiv> 8"
abbreviation (input) CANONICAL_USER_MAX :: u64 where "CANONICAL_USER_MAX \<equiv> 0x00007FFFFFFFFFFF"
abbreviation (input) CANONICAL_KERNEL_MIN :: u64 where "CANONICAL_KERNEL_MIN \<equiv> 0xFFFF800000000000"

record vm_area =
  va_start :: u64
  va_end :: u64
  va_flags :: u32
  va_type :: u32
  va_alloc_flags :: u32
  va_phys_base :: u64
  va_next :: u64

record vm_space =
  vs_mmu_ctx :: u64
  vs_areas :: u64
  vs_total_size :: u64
  vs_mapped_size :: u64
  vs_area_count :: u64

record vmm_stats =
  lazy_allocations :: u64
  eager_allocations :: u64
  page_faults_handled :: u64
  cow_faults_handled :: u64
  protection_faults :: u64
  regions_created :: u64
  regions_destroyed :: u64
  regions_split :: u64
  regions_merged :: u64

record vmm = mmu +
  area_at :: "u64 \<Rightarrow> vm_area"
  space_at :: "u64 \<Rightarrow> vm_space"
  kernel_space :: u64
  vmm_initialized :: bool
  v_stats :: vmm_stats

definition upd_area :: "u64 \<Rightarrow> (vm_area \<Rightarrow> vm_area) \<Rightarrow> 'a vmm_scheme \<Rightarrow> 'a vmm_scheme" where
  "upd_area a f s = s\<lparr>area_at := (area_at s)(a := f (area_at s a))\<rparr>"

definition upd_space :: "u64 \<Rightarrow> (vm_space \<Rightarrow> vm_space) \<Rightarrow> 'a vmm_scheme \<Rightarrow> 'a vmm_scheme" where
  "upd_space p f s = s\<lparr>space_at := (space_at s)(p := f (space_at s p))\<rparr>"

definition upd_vstats :: "(vmm_stats \<Rightarrow> vmm_stats) \<Rightarrow> 'a vmm_scheme \<Rightarrow> 'a vmm_scheme" where
  "upd_vstats f s = s\<lparr>v_stats := f (v_stats s)\<rparr>"

definition or_kernel_space :: "'a vmm_scheme \<Rightarrow> u64 \<Rightarrow> u64" where
  "or_kernel_space s space = (if space = 0 then kernel_space s else space)"

definition ALIGN_DOWN :: "u64 \<Rightarrow> u64 \<Rightarrow> u64" where
  "ALIGN_DOWN addr align = addr AND NOT (align - 1)"

definition ALIGN_UP :: "u64 \<Rightarrow> u64 \<Rightarrow> u64" where
  "ALIGN_UP addr align = (addr + align - 1) AND NOT (align - 1)"

abbreviation anext :: "'a vmm_scheme \<Rightarrow> u64 \<Rightarrow> u64" where
  "anext s a \<equiv> va_next (area_at s a)"

abbreviation ctx_of :: "'a vmm_scheme \<Rightarrow> u64 \<Rightarrow> u64" where
  "ctx_of s space \<equiv> vs_mmu_ctx (space_at s space)"

text \<open>
  The values of \<open>virt\<close> in \<^verbatim>\<open>for (virt = v; virt < e; virt += PAGE_SIZE)\<close>.  At every use both bounds are aligned to
  pages, and then the loop ends (\<open>pages_between_eq\<close>).
\<close>

partial_function (option) pages_between :: "u64 \<Rightarrow> u64 \<Rightarrow> u64 list option" where
  "pages_between v e =
     (if v < e then Option.bind (pages_between (v + PAGE_SIZE) e) (\<lambda>vs. Some (v # vs)) else Some [])"

section \<open>Addresses and lists of regions\<close>

definition vmm_is_canonical_addr :: "u64 \<Rightarrow> bool" where
  "vmm_is_canonical_addr addr \<longleftrightarrow> addr \<le> CANONICAL_USER_MAX \<or> addr \<ge> CANONICAL_KERNEL_MIN"

definition vmm_find_area :: "u64 \<Rightarrow> u64 \<Rightarrow> 'a vmm_scheme \<Rightarrow> u64 result" where
  "vmm_find_area space virt_addr s =
     (let space = or_kernel_space s space
      in returns (find_node (anext s) (\<lambda>a. virt_addr \<ge> va_start (area_at s a) \<and> virt_addr < va_end (area_at s a))
           (vs_areas (space_at s space))))"

definition vmm_validate_range :: "u64 \<Rightarrow> u64 \<Rightarrow> u64 \<Rightarrow> u32 \<Rightarrow> 'a vmm_scheme \<Rightarrow> int result" where
  "vmm_validate_range space virt_addr sz required_flags s =
     (if \<not> vmm_is_canonical_addr virt_addr \<or> \<not> vmm_is_canonical_addr (virt_addr + sz - 1) then Inr (-1)
      else rbind (vmm_find_area space virt_addr s) (\<lambda>area.
        if area = 0 then Inr (-1)
        else if virt_addr + sz > va_end (area_at s area) then Inr (-1)
        else if va_flags (area_at s area) AND required_flags \<noteq> required_flags then Inr (-1)
        else Inr 0))"

text \<open>The search for a gap ends with the start of a gap (\<open>Inl\<close>) or at the last region (\<open>Inr\<close>).\<close>

partial_function (option) find_gap :: "u64 \<Rightarrow> 'a vmm_scheme \<Rightarrow> u64 \<Rightarrow> (u64 + u64) option" where
  "find_gap aligned_size s area =
     (if anext s area \<noteq> 0
      then let gap_start = va_end (area_at s area); gap_end = va_start (area_at s (anext s area))
           in if gap_end - gap_start \<ge> aligned_size then Some (Inl gap_start) else find_gap aligned_size s (anext s area)
      else Some (Inr area))"

definition vmm_find_free_area :: "u64 \<Rightarrow> u64 \<Rightarrow> bool \<Rightarrow> 'a vmm_scheme \<Rightarrow> u64 result" where
  "vmm_find_free_area space sz user s =
     (let search_start = (if user then 0x0000000000001000 else 0xFFFF900000000000);
          search_end = (if user then 0x00007FFFFFFFF000 else 0xFFFFFFFF80000000);
          aligned_size = ALIGN_UP sz PAGE_SIZE;
          area = vs_areas (space_at s space)
      in if area = 0 then Inr search_start
         else if va_start (area_at s area) \<ge> search_start + aligned_size then Inr search_start
         else rbind (returns (find_gap aligned_size s area)) (\<lambda>r.
           case r of
             Inl gap_start \<Rightarrow> Inr gap_start
           | Inr area \<Rightarrow> if search_end - va_end (area_at s area) \<ge> aligned_size then Inr (va_end (area_at s area)) else Inr 0))"

definition vmm_insert_area :: "u64 \<Rightarrow> u64 \<Rightarrow> 'a vmm_scheme \<Rightarrow> 'a vmm_scheme result" where
  "vmm_insert_area space new_area s =
     (let head = vs_areas (space_at s space)
      in if head = 0 then
           Inr (upd_area new_area (\<lambda>a. a\<lparr>va_next := 0\<rparr>) (upd_space space (\<lambda>p. p\<lparr>vs_areas := new_area\<rparr>) s))
         else if va_start (area_at s new_area) < va_start (area_at s head) then
           Inr (upd_space space (\<lambda>p. p\<lparr>vs_areas := new_area\<rparr>) (upd_area new_area (\<lambda>a. a\<lparr>va_next := head\<rparr>) s))
         else rbind (returns (find_last (anext s) (\<lambda>a. va_start (area_at s a) < va_start (area_at s new_area)) head)) (\<lambda>prev.
           let s = upd_area new_area (\<lambda>a. a\<lparr>va_next := anext s prev\<rparr>) s
           in Inr (upd_area prev (\<lambda>a. a\<lparr>va_next := new_area\<rparr>) s)))"

definition vmm_remove_area :: "u64 \<Rightarrow> u64 \<Rightarrow> 'a vmm_scheme \<Rightarrow> 'a vmm_scheme result" where
  "vmm_remove_area space area s =
     rbind (if vs_areas (space_at s space) = area
            then Inr (upd_space space (\<lambda>p. p\<lparr>vs_areas := anext s area\<rparr>) s)
            else rbind (returns (find_node (anext s) (\<lambda>p. anext s p = area) (vs_areas (space_at s space)))) (\<lambda>prev.
              Inr (if prev \<noteq> 0 then upd_area prev (\<lambda>a. a\<lparr>va_next := anext s area\<rparr>) s else s)))
       (\<lambda>s. Inr (pmm_free_page (VIRT_TO_PHYS s area) s))"

definition vmm_can_merge_areas :: "u64 \<Rightarrow> u64 \<Rightarrow> 'a vmm_scheme \<Rightarrow> bool" where
  "vmm_can_merge_areas pa pb s =
     (let a = area_at s pa; b = area_at s pb
      in if pa = 0 \<or> pb = 0 then False
         else if va_end a \<noteq> va_start b then False
         else if va_flags a \<noteq> va_flags b \<or> va_type a \<noteq> va_type b \<or> va_alloc_flags a \<noteq> va_alloc_flags b then False
         else if va_type a = VMM_TYPE_PHYS \<and> va_phys_base a + (va_end a - va_start a) \<noteq> va_phys_base b then False
         else True)"

definition vmm_flags_to_mmu :: "u32 \<Rightarrow> u64" where
  "vmm_flags_to_mmu vmm_flags =
     (let m = 0;
          m = (if vmm_flags AND VMM_WRITE \<noteq> 0 then m OR MMU_MAP_WRITE else m);
          m = (if vmm_flags AND VMM_USER \<noteq> 0 then m OR MMU_MAP_USER else m);
          m = (if vmm_flags AND VMM_NOCACHE \<noteq> 0 then m OR MMU_MAP_NOCACHE else m)
      in if vmm_flags AND VMM_EXEC = 0 then m OR MMU_MAP_EXEC else m)"

section \<open>Address spaces\<close>

definition zero_vstats :: vmm_stats where
  "zero_vstats = \<lparr>lazy_allocations = 0, eager_allocations = 0, page_faults_handled = 0, cow_faults_handled = 0,
     protection_faults = 0, regions_created = 0, regions_destroyed = 0, regions_split = 0, regions_merged = 0\<rparr>"

definition vmm_init :: "'a vmm_scheme \<Rightarrow> 'a vmm_scheme" where
  "vmm_init s =
     (let s = s\<lparr>v_stats := zero_vstats\<rparr>;
          s = upd_space (kernel_space s) (\<lambda>p. p\<lparr>vs_mmu_ctx := mmu_get_kernel_context s, vs_areas := 0, vs_total_size := 0,
                                               vs_mapped_size := 0, vs_area_count := 0\<rparr>) s
      in s\<lparr>vmm_initialized := True\<rparr>)"

definition vmm_get_kernel_space :: "'a vmm_scheme \<Rightarrow> u64" where
  "vmm_get_kernel_space s = kernel_space s"

definition vmm_create_space :: "'a vmm_scheme \<Rightarrow> (u64 \<times> 'a vmm_scheme) result" where
  "vmm_create_space s =
     (let (phys, s) = pmm_alloc_page s
      in if phys = 0 then Inr (0, s)
         else
           let space = PHYS_TO_VIRT s phys;
               s = upd_space space (\<lambda>_. \<lparr>vs_mmu_ctx = 0, vs_areas = 0, vs_total_size = 0, vs_mapped_size = 0, vs_area_count = 0\<rparr>) s
           in rbind (mmu_create_context s) (\<lambda>(ctx, s).
                let s = upd_space space (\<lambda>p. p\<lparr>vs_mmu_ctx := ctx\<rparr>) s
                in if ctx = 0 then Inr (0, pmm_free_page phys s)
                   else Inr (space, upd_space space (\<lambda>p. p\<lparr>vs_areas := 0, vs_total_size := 0, vs_mapped_size := 0,
                                                             vs_area_count := 0\<rparr>) s)))"

text \<open>Giving back the frame of a page and unmapping it.\<close>

definition release_page :: "u64 \<Rightarrow> u64 \<Rightarrow> 'a vmm_scheme \<Rightarrow> 'a vmm_scheme result" where
  "release_page ctx v s =
     (let p = mmu_virt_to_phys s ctx v;
          s = (if p \<noteq> 0 then pmm_free_page p s else s)
      in rbind (mmu_unmap_page ctx v s) (\<lambda>(_, s). Inr s))"

definition destroy_area :: "u64 \<Rightarrow> u64 \<Rightarrow> 'a vmm_scheme \<Rightarrow> 'a vmm_scheme result" where
  "destroy_area space area s =
     rbind (if va_type (area_at s area) = VMM_TYPE_ANON
            then rbind (returns (pages_between (va_start (area_at s area)) (va_end (area_at s area)))) (\<lambda>vs.
                   rfold (\<lambda>v s. if mmu_is_mapped s (ctx_of s space) v then release_page (ctx_of s space) v s else Inr s) vs s)
            else Inr s)
       (\<lambda>s. Inr (upd_vstats (\<lambda>x. x\<lparr>regions_destroyed := regions_destroyed x + 1\<rparr>) (pmm_free_page (VIRT_TO_PHYS s area) s)))"

partial_function (option) destroy_areas :: "u64 \<Rightarrow> u64 \<Rightarrow> 'a vmm_scheme \<Rightarrow> 'a vmm_scheme result option" where
  "destroy_areas space area s =
     (if area = 0 then Some (Inr s)
      else let nxt = anext s area
           in case destroy_area space area s of
                Inl h \<Rightarrow> Some (Inl h)
              | Inr s \<Rightarrow> destroy_areas space nxt s)"

definition vmm_destroy_space :: "u64 \<Rightarrow> 'a vmm_scheme \<Rightarrow> 'a vmm_scheme result" where
  "vmm_destroy_space space s =
     (if space = 0 \<or> space = kernel_space s then Inr s
      else rbind (rbind (returns (destroy_areas space (vs_areas (space_at s space)) s)) (\<lambda>r. r)) (\<lambda>s.
        let s = mmu_destroy_context (ctx_of s space) s
        in Inr (pmm_free_page (VIRT_TO_PHYS s space) s)))"

definition vmm_switch_space :: "u64 \<Rightarrow> 'a vmm_scheme \<Rightarrow> 'a vmm_scheme" where
  "vmm_switch_space space s = (if space = 0 then s else mmu_switch_context (ctx_of s space) s)"

section \<open>Mapping and unmapping regions\<close>

text \<open>
  The two loops that map a new region.  \<open>mapped\<close> are the pages done so far, which are taken back when a page fails; the
  result says whether all pages are mapped.
\<close>

fun map_phys_pages :: "u64 \<Rightarrow> u64 \<Rightarrow> u64 list \<Rightarrow> u64 list \<Rightarrow> u64 \<Rightarrow> 'a vmm_scheme \<Rightarrow> (bool \<times> 'a vmm_scheme) result" where
  "map_phys_pages ctx mmu_flags mapped [] phys s = Inr (True, s)"
| "map_phys_pages ctx mmu_flags mapped (v # vs) phys s =
     rbind (mmu_map_page ctx v phys mmu_flags s) (\<lambda>(r, s).
       if r \<noteq> 0
       then rbind (rfold (\<lambda>v s. rbind (mmu_unmap_page ctx v s) (\<lambda>(_, s). Inr s)) mapped s) (\<lambda>s. Inr (False, s))
       else map_phys_pages ctx mmu_flags (mapped @ [v]) vs (phys + PAGE_SIZE) s)"

fun map_fresh_pages :: "u64 \<Rightarrow> u64 \<Rightarrow> bool \<Rightarrow> u64 list \<Rightarrow> u64 list \<Rightarrow> 'a vmm_scheme \<Rightarrow> (bool \<times> 'a vmm_scheme) result" where
  "map_fresh_pages ctx mmu_flags zero mapped [] s = Inr (True, s)"
| "map_fresh_pages ctx mmu_flags zero mapped (v # vs) s =
     (let (phys, s) = pmm_alloc_page s
      in if phys = 0 then rbind (rfold (release_page ctx) mapped s) (\<lambda>s. Inr (False, s))
         else
           let s = (if zero then s\<lparr>mem := memset_page (mem s) (PHYS_TO_VIRT s phys)\<rparr> else s)
           in rbind (mmu_map_page ctx v phys mmu_flags s) (\<lambda>(r, s).
                if r \<noteq> 0 then rbind (rfold (release_page ctx) mapped (pmm_free_page phys s)) (\<lambda>s. Inr (False, s))
                else map_fresh_pages ctx mmu_flags zero (mapped @ [v]) vs s))"

definition overlaps :: "u64 \<Rightarrow> u64 \<Rightarrow> vm_area \<Rightarrow> bool" where
  "overlaps virt_start virt_end a \<longleftrightarrow> \<not> (virt_end \<le> va_start a \<or> virt_start \<ge> va_end a)"

definition map_area_pages ::
  "u64 \<Rightarrow> u64 \<Rightarrow> u32 \<Rightarrow> u32 \<Rightarrow> u64 \<Rightarrow> u64 \<Rightarrow> u64 \<Rightarrow> 'a vmm_scheme \<Rightarrow> (bool \<times> 'a vmm_scheme) result" where
  "map_area_pages space mmu_flags type alloc_flags phys_addr virt_start virt_end s =
     (let count_mapped = \<lambda>(ok, s).
            if ok
            then (True, upd_vstats (\<lambda>x. x\<lparr>eager_allocations := eager_allocations x + (virt_end - virt_start) div PAGE_SIZE\<rparr>)
                          (upd_space space (\<lambda>p. p\<lparr>vs_mapped_size := vs_mapped_size p + (virt_end - virt_start)\<rparr>) s))
            else (False, s)
      in if type = VMM_TYPE_PHYS
         then rbind (returns (pages_between virt_start virt_end)) (\<lambda>vs.
                rbind (map_phys_pages (ctx_of s space) mmu_flags [] vs phys_addr s) (\<lambda>r. Inr (count_mapped r)))
         else if type = VMM_TYPE_ANON \<and> alloc_flags AND VMM_ALLOC_LAZY = 0 \<and> alloc_flags AND VMM_ALLOC_COW = 0
         then rbind (returns (pages_between virt_start virt_end)) (\<lambda>vs.
                rbind (map_fresh_pages (ctx_of s space) mmu_flags
                         (alloc_flags AND VMM_ALLOC_ZERO \<noteq> 0 \<or> alloc_flags AND NOT VMM_ALLOC_ZERO = 0) [] vs s)
                  (\<lambda>r. Inr (count_mapped r)))
         else Inr (True, s))"

definition vmm_map_region_internal ::
  "u64 \<Rightarrow> u64 \<Rightarrow> u64 \<Rightarrow> u32 \<Rightarrow> u32 \<Rightarrow> u32 \<Rightarrow> u64 \<Rightarrow> 'a vmm_scheme \<Rightarrow> (int \<times> 'a vmm_scheme) result" where
  "vmm_map_region_internal space virt_addr sz flags type alloc_flags phys_addr s =
     (let space = or_kernel_space s space
      in if \<not> vmm_is_canonical_addr virt_addr then Inr (-1, s)
         else
           let virt_start = ALIGN_DOWN virt_addr PAGE_SIZE;
               virt_end = ALIGN_UP (virt_addr + sz) PAGE_SIZE;
               aligned_size = virt_end - virt_start
           in if aligned_size = 0 then Inr (-1, s)
              else rbind (returns (find_node (anext s) (\<lambda>a. overlaps virt_start virt_end (area_at s a)) (vs_areas (space_at s space)))) (\<lambda>area.
                if area \<noteq> 0 then Inr (-1, s)
                else
                  let (area_phys, s) = pmm_alloc_page s
                  in if area_phys = 0 then Inr (-1, s)
                     else
                       let new_area = PHYS_TO_VIRT s area_phys;
                           s = upd_area new_area (\<lambda>_. \<lparr>va_start = virt_start, va_end = virt_end, va_flags = flags, va_type = type,
                                 va_alloc_flags = alloc_flags, va_phys_base = phys_addr, va_next = 0\<rparr>) s
                       in rbind (map_area_pages space (vmm_flags_to_mmu flags) type alloc_flags phys_addr virt_start virt_end s) (\<lambda>(ok, s).
                            if \<not> ok then Inr (-1, pmm_free_page area_phys s)
                            else rbind (vmm_insert_area space new_area s) (\<lambda>s.
                              let s = upd_space space (\<lambda>p. p\<lparr>vs_total_size := vs_total_size p + aligned_size,
                                                             vs_area_count := vs_area_count p + 1\<rparr>) s
                              in Inr (0, upd_vstats (\<lambda>x. x\<lparr>regions_created := regions_created x + 1\<rparr>) s)))))"

definition vmm_map_region ::
  "u64 \<Rightarrow> u64 \<Rightarrow> u64 \<Rightarrow> u32 \<Rightarrow> u32 \<Rightarrow> u32 \<Rightarrow> u64 \<Rightarrow> 'a vmm_scheme \<Rightarrow> (int \<times> 'a vmm_scheme) result" where
  "vmm_map_region space virt_addr sz flags type alloc_flags phys_addr s =
     vmm_map_region_internal space virt_addr sz flags type alloc_flags phys_addr s"

definition unmap_area :: "u64 \<Rightarrow> u64 \<Rightarrow> 'a vmm_scheme \<Rightarrow> 'a vmm_scheme result" where
  "unmap_area space area s =
     (let a = area_at s area
      in rbind (if va_type a = VMM_TYPE_ANON
                then rbind (returns (pages_between (va_start a) (va_end a))) (\<lambda>vs.
                       rfold (\<lambda>v s. Inr (if mmu_is_mapped s (ctx_of s space) v
                                         then let p = mmu_virt_to_phys s (ctx_of s space) v
                                              in if p \<noteq> 0 then pmm_free_page p s else s
                                         else s)) vs s)
                else Inr s) (\<lambda>s.
           rbind (mmu_unmap_range (ctx_of s space) (va_start a) (va_end a - va_start a) s) (\<lambda>(_, s).
             let s = upd_space space (\<lambda>p. p\<lparr>vs_total_size := vs_total_size p - (va_end a - va_start a),
                                            vs_area_count := vs_area_count p - 1\<rparr>) s
             in rbind (vmm_remove_area space area s) (\<lambda>s.
                  Inr (upd_vstats (\<lambda>x. x\<lparr>regions_destroyed := regions_destroyed x + 1\<rparr>) s)))))"

definition vmm_unmap_region_internal :: "u64 \<Rightarrow> u64 \<Rightarrow> u64 \<Rightarrow> 'a vmm_scheme \<Rightarrow> (int \<times> 'a vmm_scheme) result" where
  "vmm_unmap_region_internal space virt_addr sz s =
     (let space = or_kernel_space s space;
          virt_start = ALIGN_DOWN virt_addr PAGE_SIZE;
          virt_end = ALIGN_UP (virt_addr + sz) PAGE_SIZE
      in rbind (returns (find_node (anext s) (\<lambda>a. overlaps virt_start virt_end (area_at s a)) (vs_areas (space_at s space)))) (\<lambda>area.
           if area = 0 then Inr (-1, s)
           else if virt_start = va_start (area_at s area) \<and> virt_end = va_end (area_at s area)
           then rbind (unmap_area space area s) (\<lambda>s. Inr (0, s))
           else Inr (-1, s)))"

definition vmm_unmap_region :: "u64 \<Rightarrow> u64 \<Rightarrow> u64 \<Rightarrow> 'a vmm_scheme \<Rightarrow> (int \<times> 'a vmm_scheme) result" where
  "vmm_unmap_region space virt_addr sz s = vmm_unmap_region_internal space virt_addr sz s"

definition vmm_alloc_region :: "u64 \<Rightarrow> u64 \<Rightarrow> u32 \<Rightarrow> u32 \<Rightarrow> 'a vmm_scheme \<Rightarrow> (u64 \<times> 'a vmm_scheme) result" where
  "vmm_alloc_region space sz flags alloc_flags s =
     (let space = or_kernel_space s space
      in rbind (vmm_find_free_area space sz (flags AND VMM_USER \<noteq> 0) s) (\<lambda>virt_addr.
           if virt_addr = 0 then Inr (0, s)
           else rbind (vmm_map_region_internal space virt_addr sz flags VMM_TYPE_ANON alloc_flags 0 s) (\<lambda>(r, s).
             if r \<noteq> 0 then Inr (0, s) else Inr (virt_addr, s))))"

definition vmm_free_region :: "u64 \<Rightarrow> u64 \<Rightarrow> 'a vmm_scheme \<Rightarrow> (int \<times> 'a vmm_scheme) result" where
  "vmm_free_region space virt_addr s =
     (let space = or_kernel_space s space
      in rbind (vmm_find_area space virt_addr s) (\<lambda>area.
           if area = 0 \<or> va_start (area_at s area) \<noteq> virt_addr then Inr (-1, s)
           else vmm_unmap_region_internal space virt_addr (va_end (area_at s area) - va_start (area_at s area)) s))"

section \<open>Page faults\<close>

definition lazy_page :: "u64 \<Rightarrow> u64 \<Rightarrow> u64 \<Rightarrow> 'a vmm_scheme \<Rightarrow> (int \<times> 'a vmm_scheme) result" where
  "lazy_page space area page_addr s =
     (let (phys, s) = pmm_alloc_page s
      in if phys = 0 then Inr (-1, s)
         else
           let s = s\<lparr>mem := memset_page (mem s) (PHYS_TO_VIRT s phys)\<rparr>
           in rbind (mmu_map_page (ctx_of s space) page_addr phys (vmm_flags_to_mmu (va_flags (area_at s area))) s) (\<lambda>(r, s).
                if r \<noteq> 0 then Inr (-1, pmm_free_page phys s)
                else
                  let s = upd_space space (\<lambda>p. p\<lparr>vs_mapped_size := vs_mapped_size p + PAGE_SIZE\<rparr>) s
                  in Inr (0, upd_vstats (\<lambda>x. x\<lparr>lazy_allocations := lazy_allocations x + 1,
                                             page_faults_handled := page_faults_handled x + 1\<rparr>) s)))"

definition vmm_handle_page_fault :: "u64 \<Rightarrow> u64 \<Rightarrow> u64 \<Rightarrow> 'a vmm_scheme \<Rightarrow> (int \<times> 'a vmm_scheme) result" where
  "vmm_handle_page_fault space virt_addr error_code s =
     (let space = or_kernel_space s space
      in rbind (vmm_find_area space virt_addr s) (\<lambda>area.
           if area = 0 then Inr (-1, s)
           else
             let page_addr = ALIGN_DOWN virt_addr PAGE_SIZE;
                 is_present = error_code AND VMM_FAULT_PRESENT \<noteq> 0;
                 is_write = error_code AND VMM_FAULT_WRITE \<noteq> 0;
                 already_mapped = mmu_is_mapped s (ctx_of s space) page_addr;
                 writable = va_flags (area_at s area) AND VMM_WRITE \<noteq> 0;
                 protection_fault = upd_vstats (\<lambda>x. x\<lparr>protection_faults := protection_faults x + 1\<rparr>) s
             in if is_present \<and> is_write \<and> already_mapped \<and> mmu_is_cow_page s (ctx_of s space) page_addr
                then let (r, s) = mmu_break_cow (ctx_of s space) page_addr s
                     in if r \<noteq> 0 then Inr (-1, s)
                        else Inr (0, upd_vstats (\<lambda>x. x\<lparr>cow_faults_handled := cow_faults_handled x + 1,
                                                     page_faults_handled := page_faults_handled x + 1\<rparr>) s)
                else if is_present \<and> is_write \<and> already_mapped \<and> \<not> writable then Inr (-1, protection_fault)
                else if \<not> already_mapped \<and> va_type (area_at s area) = VMM_TYPE_ANON \<and>
                        va_alloc_flags (area_at s area) AND VMM_ALLOC_LAZY \<noteq> 0
                then lazy_page space area page_addr s
                else if is_present \<or> already_mapped then Inr (-1, protection_fault)
                else Inr (-1, s)))"

section \<open>Changing regions\<close>

definition vmm_protect_region :: "u64 \<Rightarrow> u64 \<Rightarrow> u64 \<Rightarrow> u32 \<Rightarrow> 'a vmm_scheme \<Rightarrow> (int \<times> 'a vmm_scheme) result" where
  "vmm_protect_region space virt_addr sz new_flags s =
     (let space = or_kernel_space s space;
          virt_start = ALIGN_DOWN virt_addr PAGE_SIZE;
          virt_end = ALIGN_UP (virt_addr + sz) PAGE_SIZE
      in rbind (vmm_find_area space virt_start s) (\<lambda>area.
           if area = 0 then Inr (-1, s)
           else if virt_start < va_start (area_at s area) \<or> virt_end > va_end (area_at s area) then Inr (-1, s)
           else
             let s = upd_area area (\<lambda>a. a\<lparr>va_flags := new_flags\<rparr>) s;
                 (r, s) = mmu_change_flags_range (ctx_of s space) virt_start (virt_end - virt_start) (vmm_flags_to_mmu new_flags) s
             in Inr (if r \<noteq> 0 then -1 else 0, s)))"

definition vmm_split_region :: "u64 \<Rightarrow> u64 \<Rightarrow> 'a vmm_scheme \<Rightarrow> (int \<times> 'a vmm_scheme) result" where
  "vmm_split_region space split_addr s =
     (let space = or_kernel_space s space;
          split_page = ALIGN_DOWN split_addr PAGE_SIZE
      in rbind (vmm_find_area space split_page s) (\<lambda>area.
           if area = 0 then Inr (-1, s)
           else if split_page = va_start (area_at s area) \<or> split_page \<ge> va_end (area_at s area) then Inr (-1, s)
           else
             let (new_area_phys, s) = pmm_alloc_page s
             in if new_area_phys = 0 then Inr (-1, s)
                else
                  let new_area = PHYS_TO_VIRT s new_area_phys;
                      a = area_at s area;
                      s = upd_area new_area (\<lambda>_. \<lparr>va_start = split_page, va_end = va_end a, va_flags = va_flags a,
                            va_type = va_type a, va_alloc_flags = va_alloc_flags a,
                            va_phys_base = (if va_type a = VMM_TYPE_PHYS then va_phys_base a + (split_page - va_start a) else 0),
                            va_next = 0\<rparr>) s;
                      s = upd_area area (\<lambda>a. a\<lparr>va_end := split_page\<rparr>) s;
                      s = upd_area new_area (\<lambda>n. n\<lparr>va_next := anext s area\<rparr>) s;
                      s = upd_area area (\<lambda>a. a\<lparr>va_next := new_area\<rparr>) s;
                      s = upd_space space (\<lambda>p. p\<lparr>vs_area_count := vs_area_count p + 1\<rparr>) s
                  in Inr (0, upd_vstats (\<lambda>x. x\<lparr>regions_split := regions_split x + 1\<rparr>) s)))"

definition merge_next :: "u64 \<Rightarrow> u64 \<Rightarrow> 'a vmm_scheme \<Rightarrow> 'a vmm_scheme" where
  "merge_next space area s =
     (let nxt = anext s area;
          s = upd_area area (\<lambda>a. a\<lparr>va_end := va_end (area_at s nxt)\<rparr>) s;
          s = upd_area area (\<lambda>a. a\<lparr>va_next := anext s nxt\<rparr>) s;
          s = pmm_free_page (VIRT_TO_PHYS s nxt) s;
          s = upd_space space (\<lambda>p. p\<lparr>vs_area_count := vs_area_count p - 1\<rparr>) s
      in upd_vstats (\<lambda>x. x\<lparr>regions_merged := regions_merged x + 1\<rparr>) s)"

partial_function (option) merge_areas :: "u64 \<Rightarrow> u64 \<Rightarrow> int \<Rightarrow> 'a vmm_scheme \<Rightarrow> (int \<times> 'a vmm_scheme) option" where
  "merge_areas space area merged_count s =
     (if area \<noteq> 0 \<and> anext s area \<noteq> 0
      then if vmm_can_merge_areas area (anext s area) s
           then merge_areas space area (merged_count + 1) (merge_next space area s)
           else merge_areas space (anext s area) merged_count s
      else Some (merged_count, s))"

definition vmm_merge_regions :: "u64 \<Rightarrow> 'a vmm_scheme \<Rightarrow> (int \<times> 'a vmm_scheme) result" where
  "vmm_merge_regions space s =
     (let space = or_kernel_space s space in returns (merge_areas space (vs_areas (space_at s space)) 0 s))"

definition vmm_mark_cow_region :: "u64 \<Rightarrow> u64 \<Rightarrow> u64 \<Rightarrow> 'a vmm_scheme \<Rightarrow> (int \<times> 'a vmm_scheme) result" where
  "vmm_mark_cow_region space virt_addr sz s =
     (let space = or_kernel_space s space;
          virt_start = ALIGN_DOWN virt_addr PAGE_SIZE;
          virt_end = ALIGN_UP (virt_addr + sz) PAGE_SIZE
      in rbind (vmm_find_area space virt_start s) (\<lambda>area.
           if area = 0 \<or> virt_end > va_end (area_at s area) then Inr (-1, s)
           else
             let (r, s) = mmu_mark_cow (ctx_of s space) virt_start (virt_end - virt_start) s
             in Inr (if r \<noteq> 0 then -1 else 0, s)))"

definition vmm_is_mapped :: "u64 \<Rightarrow> u64 \<Rightarrow> 'a vmm_scheme \<Rightarrow> bool" where
  "vmm_is_mapped space virt_addr s = mmu_is_mapped s (ctx_of s (or_kernel_space s space)) virt_addr"

section \<open>Copying an address space\<close>

text \<open>One region of the parent; the result says whether the page tables could be copied.\<close>

definition fork_area :: "u64 \<Rightarrow> u64 \<Rightarrow> u64 \<Rightarrow> u64 \<Rightarrow> 'a vmm_scheme \<Rightarrow> (bool \<times> 'a vmm_scheme) result" where
  "fork_area child parent parent_area area_phys s =
     (let child_area = PHYS_TO_VIRT s area_phys;
          s = upd_area child_area (\<lambda>_. area_at s parent_area) s;
          s = upd_area child_area (\<lambda>a. a\<lparr>va_next := 0\<rparr>) s
      in rbind (vmm_insert_area child child_area s) (\<lambda>s.
           let a = area_at s parent_area
           in rbind (if va_type a = VMM_TYPE_ANON
                     then rbind (mmu_copy_range (ctx_of s child) (ctx_of s parent) (va_start a) (va_end a - va_start a) True s)
                            (\<lambda>(r, s). Inr (r = 0, s))
                     else if va_type a = VMM_TYPE_PHYS
                     then rbind (returns (pages_between (va_start a) (va_end a))) (\<lambda>vs.
                            rbind (rfold (\<lambda>(v, i) s. rbind (mmu_map_page (ctx_of s child) v (va_phys_base a + of_nat i * PAGE_SIZE)
                                                       (vmm_flags_to_mmu (va_flags a)) s) (\<lambda>(_, s). Inr s))
                                     (zip vs [0..<length vs]) s) (\<lambda>s. Inr (True, s)))
                     else Inr (True, s)) (\<lambda>(ok, s).
                if \<not> ok then Inr (False, s)
                else Inr (True, upd_space child (\<lambda>p. p\<lparr>vs_total_size := vs_total_size p + (va_end a - va_start a),
                                                         vs_area_count := vs_area_count p + 1\<rparr>) s))))"

partial_function (option) fork_areas :: "u64 \<Rightarrow> u64 \<Rightarrow> u64 \<Rightarrow> 'a vmm_scheme \<Rightarrow> (bool \<times> 'a vmm_scheme) result option" where
  "fork_areas child parent parent_area s =
     (if parent_area = 0 then Some (Inr (True, s))
      else let (area_phys, s) = pmm_alloc_page s
           in if area_phys = 0 then Some (Inr (False, s))
              else case fork_area child parent parent_area area_phys s of
                     Inl h \<Rightarrow> Some (Inl h)
                   | Inr r \<Rightarrow> if fst r then fork_areas child parent (anext (snd r) parent_area) (snd r)
                              else Some (Inr (False, snd r)))"

definition vmm_fork_space :: "u64 \<Rightarrow> 'a vmm_scheme \<Rightarrow> (u64 \<times> 'a vmm_scheme) result" where
  "vmm_fork_space parent s =
     (if parent = 0 then Inr (0, s)
      else rbind (vmm_create_space s) (\<lambda>(child, s).
        if child = 0 then Inr (0, s)
        else rbind (rbind (returns (fork_areas child parent (vs_areas (space_at s parent)) s)) (\<lambda>r. r)) (\<lambda>(ok, s).
          if ok then Inr (child, s)
          else rbind (vmm_destroy_space child s) (\<lambda>s. Inr (0, s)))))"

end
