(* ===== verification/Heap.thy ===== *)
theory Heap
  imports Vmm
begin

text \<open>
  The kernel heap, \<^verbatim>\<open>src/src/kernel/mm/heap.c\<close>: slab caches for small objects and a list allocator for blocks.

  Block headers, slab descriptors, caches and the links of free objects are stores of records, keyed by address.  Headers and
  links lie in the memory that is handed out, so that clearing memory (\<open>mem_clear\<close>) clears the fields of headers and the links
  in it; a field counts as cleared when its first byte is.  Frames come cleared from the page allocator, and so does a new
  region.  The cache locks and \<^verbatim>\<open>heap_lock\<close> are held inside one operation and are not part of the state.
\<close>

section \<open>State\<close>

abbreviation (input) HEAP_INITIAL_SIZE :: u64 where "HEAP_INITIAL_SIZE \<equiv> 0x200000"
abbreviation (input) HEAP_EXPAND_SIZE :: u64 where "HEAP_EXPAND_SIZE \<equiv> 0x100000"
abbreviation (input) HEAP_MAX_SIZE :: u64 where "HEAP_MAX_SIZE \<equiv> 0x10000000"
abbreviation (input) HEAP_MIN_BLOCK_SIZE :: u64 where "HEAP_MIN_BLOCK_SIZE \<equiv> 32"
abbreviation (input) SLAB_MAX_SIZE :: u64 where "SLAB_MAX_SIZE \<equiv> 512"
abbreviation (input) SLAB_MIN_SIZE :: u64 where "SLAB_MIN_SIZE \<equiv> 16"
abbreviation (input) HEAP_MAGIC_FREE :: u32 where "HEAP_MAGIC_FREE \<equiv> 0xDEADBEEF"
abbreviation (input) HEAP_MAGIC_USED :: u32 where "HEAP_MAGIC_USED \<equiv> 0xCAFEBABE"
abbreviation (input) HEAP_ZERO :: u32 where "HEAP_ZERO \<equiv> 1"
abbreviation (input) SLAB_SIZE :: u64 where "SLAB_SIZE \<equiv> 0x4000"
abbreviation (input) HEADER_SIZE :: u64 where "HEADER_SIZE \<equiv> 40"

definition SIZE_CLASSES :: "u64 list" where
  "SIZE_CLASSES = [32, 64, 128, 256, 512, 1024, 2048, 4096, 8192, 16384]"

record heap_block =
  b_magic :: u32
  b_flags :: u32
  b_size :: u64
  b_next :: u64
  b_prev :: u64
  b_phys_prev :: u64

record slab =
  sl_next :: u64
  sl_mem :: u64
  sl_free_list :: u64
  sl_num_free :: u32
  sl_num_total :: u32

record heap_slab_cache =
  c_name :: string
  c_obj_size :: u64
  c_align :: u64
  c_slabs_partial :: u64
  c_slabs_full :: u64
  c_slabs_empty :: u64
  c_num_allocs :: u64
  c_num_frees :: u64
  c_num_slabs :: u64

record heap_stats =
  hs_total_size :: u64
  hs_used_size :: u64
  hs_peak_used :: u64
  hs_num_allocs :: u64
  hs_num_frees :: u64
  hs_slab_allocs :: u64
  hs_slab_frees :: u64
  hs_large_allocs :: u64
  hs_large_frees :: u64
  hs_coalesce_ops :: u64
  hs_split_ops :: u64
  hs_failed_allocs :: u64
  hs_double_frees :: u64
  hs_invalid_frees :: u64
  hs_guard_violations :: u64

record heap = vmm +
  free_lists :: "u64 list"
  large_free_list :: u64
  heap_start :: u64
  heap_end :: u64
  h_stats :: heap_stats
  guards_enabled :: int
  heap_initialized :: bool
  kmalloc_caches :: "u64 list"
  block_at :: "u64 \<Rightarrow> heap_block"
  slab_at :: "u64 \<Rightarrow> slab"
  cache_at :: "u64 \<Rightarrow> heap_slab_cache"
  obj_next :: "u64 \<Rightarrow> u64"

definition upd_block :: "u64 \<Rightarrow> (heap_block \<Rightarrow> heap_block) \<Rightarrow> 'a heap_scheme \<Rightarrow> 'a heap_scheme" where
  "upd_block b f s = s\<lparr>block_at := (block_at s)(b := f (block_at s b))\<rparr>"

definition upd_slab :: "u64 \<Rightarrow> (slab \<Rightarrow> slab) \<Rightarrow> 'a heap_scheme \<Rightarrow> 'a heap_scheme" where
  "upd_slab b f s = s\<lparr>slab_at := (slab_at s)(b := f (slab_at s b))\<rparr>"

definition upd_cache :: "u64 \<Rightarrow> (heap_slab_cache \<Rightarrow> heap_slab_cache) \<Rightarrow> 'a heap_scheme \<Rightarrow> 'a heap_scheme" where
  "upd_cache c f s = s\<lparr>cache_at := (cache_at s)(c := f (cache_at s c))\<rparr>"

definition upd_hstats :: "(heap_stats \<Rightarrow> heap_stats) \<Rightarrow> 'a heap_scheme \<Rightarrow> 'a heap_scheme" where
  "upd_hstats f s = s\<lparr>h_stats := f (h_stats s)\<rparr>"

definition clear_block :: "(u64 \<Rightarrow> bool) \<Rightarrow> u64 \<Rightarrow> heap_block \<Rightarrow> heap_block" where
  "clear_block inside a b =
     \<lparr>b_magic = (if inside a then 0 else b_magic b), b_flags = (if inside (a + 4) then 0 else b_flags b),
      b_size = (if inside (a + 8) then 0 else b_size b), b_next = (if inside (a + 16) then 0 else b_next b),
      b_prev = (if inside (a + 24) then 0 else b_prev b), b_phys_prev = (if inside (a + 32) then 0 else b_phys_prev b)\<rparr>"

definition mem_clear :: "u64 \<Rightarrow> u64 \<Rightarrow> 'a heap_scheme \<Rightarrow> 'a heap_scheme" where
  "mem_clear lo n s =
     (let inside = (\<lambda>a. a - lo < n)
      in s\<lparr>block_at := (\<lambda>a. clear_block inside a (block_at s a)), obj_next := (\<lambda>a. if inside a then 0 else obj_next s a)\<rparr>)"

definition kernel_region :: "u64 \<Rightarrow> u32 \<Rightarrow> 'a heap_scheme \<Rightarrow> (u64 \<times> 'a heap_scheme) result" where
  "kernel_region sz alloc_flags s =
     rbind (vmm_alloc_region (vmm_get_kernel_space s) sz (VMM_READ OR VMM_WRITE) alloc_flags s) (\<lambda>(r, s).
       Inr (r, if r = 0 then s else mem_clear r sz s))"

section \<open>Slab caches\<close>

definition push_object :: "u64 \<Rightarrow> u64 \<Rightarrow> 'a heap_scheme \<Rightarrow> 'a heap_scheme" where
  "push_object slab obj s =
     (let s = s\<lparr>obj_next := (obj_next s)(obj := sl_free_list (slab_at s slab))\<rparr>
      in upd_slab slab (\<lambda>x. x\<lparr>sl_free_list := obj\<rparr>) s)"

definition slab_create :: "u64 \<Rightarrow> 'a heap_scheme \<Rightarrow> (u64 \<times> 'a heap_scheme) result" where
  "slab_create cache s =
     (let (slab_ctrl_phys, s) = pmm_alloc_page s
      in if slab_ctrl_phys = 0 then Inr (0, s)
         else
           let slab = PHYS_TO_VIRT s slab_ctrl_phys;
               s = upd_slab slab (\<lambda>_. \<lparr>sl_next = 0, sl_mem = 0, sl_free_list = 0, sl_num_free = 0, sl_num_total = 0\<rparr>) s
           in rbind (kernel_region SLAB_SIZE 0 s) (\<lambda>(slab_mem, s).
                if slab_mem = 0 then Inr (0, pmm_free_page slab_ctrl_phys s)
                else
                  let s = upd_slab slab (\<lambda>x. x\<lparr>sl_mem := slab_mem, sl_next := 0\<rparr>) s;
                      aligned_size = ALIGN_UP (c_obj_size (cache_at s cache)) (c_align (cache_at s cache))
                  in if aligned_size = 0 then Inl Divide_Error
                     else
                       let num_total = ucast (SLAB_SIZE div aligned_size) :: u32;
                           s = upd_slab slab (\<lambda>x. x\<lparr>sl_num_total := num_total, sl_num_free := num_total, sl_free_list := 0\<rparr>) s
                       in Inr (slab, fold (\<lambda>i. push_object slab (slab_mem + of_nat i * aligned_size)) [0..<unat num_total] s)))"

definition heap_create_slab_cache :: "string \<Rightarrow> u64 \<Rightarrow> u64 \<Rightarrow> 'a heap_scheme \<Rightarrow> (u64 \<times> 'a heap_scheme) result" where
  "heap_create_slab_cache name obj_size align s =
     (if obj_size > SLAB_MAX_SIZE \<or> obj_size < SLAB_MIN_SIZE then Inr (0, s)
      else
        let (cache_phys, s) = pmm_alloc_page s
        in if cache_phys = 0 then Inr (0, s)
           else
             let cache = PHYS_TO_VIRT s cache_phys;
                 s = upd_cache cache (\<lambda>_. \<lparr>c_name = take 31 name, c_obj_size = obj_size, c_align = (if align = 0 then 8 else align),
                       c_slabs_partial = 0, c_slabs_full = 0, c_slabs_empty = 0, c_num_allocs = 0, c_num_frees = 0, c_num_slabs = 0\<rparr>) s
             in rbind (slab_create cache s) (\<lambda>(initial_slab, s).
                  if initial_slab = 0 then Inr (0, pmm_free_page cache_phys s)
                  else Inr (cache, upd_cache cache (\<lambda>x. x\<lparr>c_slabs_partial := initial_slab, c_num_slabs := 1\<rparr>) s)))"

text \<open>A new slab goes to the head of the partial list.\<close>

definition push_partial :: "u64 \<Rightarrow> u64 \<Rightarrow> 'a heap_scheme \<Rightarrow> 'a heap_scheme" where
  "push_partial cache slab s =
     (let s = upd_slab slab (\<lambda>x. x\<lparr>sl_next := c_slabs_partial (cache_at s cache)\<rparr>) s
      in upd_cache cache (\<lambda>x. x\<lparr>c_slabs_partial := slab\<rparr>) s)"

definition slab_to_use :: "u64 \<Rightarrow> 'a heap_scheme \<Rightarrow> (u64 \<times> 'a heap_scheme) result" where
  "slab_to_use cache s =
     (let slab = c_slabs_partial (cache_at s cache)
      in if slab \<noteq> 0 then Inr (slab, s)
         else
           let slab = c_slabs_empty (cache_at s cache)
           in if slab \<noteq> 0
              then Inr (slab, push_partial cache slab (upd_cache cache (\<lambda>x. x\<lparr>c_slabs_empty := sl_next (slab_at s slab)\<rparr>) s))
              else rbind (slab_create cache s) (\<lambda>(slab, s).
                     if slab = 0 then Inr (0, s)
                     else Inr (slab, upd_cache cache (\<lambda>x. x\<lparr>c_num_slabs := c_num_slabs x + 1\<rparr>) (push_partial cache slab s))))"

definition heap_slab_alloc :: "u64 \<Rightarrow> 'a heap_scheme \<Rightarrow> (u64 \<times> 'a heap_scheme) result" where
  "heap_slab_alloc cache s =
     (if cache = 0 then Inr (0, s)
      else rbind (slab_to_use cache s) (\<lambda>(slab, s).
        if slab = 0 then Inr (0, s)
        else
          let obj = sl_free_list (slab_at s slab)
          in if obj = 0 then Inr (0, s)
             else
               let s = upd_slab slab (\<lambda>x. x\<lparr>sl_free_list := obj_next s obj, sl_num_free := sl_num_free x - 1\<rparr>) s;
                   s = (if sl_num_free (slab_at s slab) = 0
                        then let s = upd_cache cache (\<lambda>x. x\<lparr>c_slabs_partial := sl_next (slab_at s slab)\<rparr>) s;
                                 s = upd_slab slab (\<lambda>x. x\<lparr>sl_next := c_slabs_full (cache_at s cache)\<rparr>) s
                             in upd_cache cache (\<lambda>x. x\<lparr>c_slabs_full := slab\<rparr>) s
                        else s)
               in Inr (obj, upd_cache cache (\<lambda>x. x\<lparr>c_num_allocs := c_num_allocs x + 1\<rparr>) s)))"

definition in_slab :: "'a heap_scheme \<Rightarrow> u64 \<Rightarrow> u64 \<Rightarrow> bool" where
  "in_slab s obj slab \<longleftrightarrow> obj \<ge> sl_mem (slab_at s slab) \<and> obj < sl_mem (slab_at s slab) + SLAB_SIZE"

text \<open>
  The search for the slab of an object, with the pointer through which it is reached: \<open>prev = 0\<close> is the head of the list.
\<close>

partial_function (option) search_slab :: "(u64 \<Rightarrow> u64) \<Rightarrow> (u64 \<Rightarrow> bool) \<Rightarrow> u64 \<Rightarrow> u64 \<Rightarrow> (u64 \<times> u64) option" where
  "search_slab nxt P prev slab = (if slab = 0 \<or> P slab then Some (prev, slab) else search_slab nxt P slab (nxt slab))"

abbreviation snext :: "'a heap_scheme \<Rightarrow> u64 \<Rightarrow> u64" where
  "snext s x \<equiv> sl_next (slab_at s x)"

text \<open>Writing through \<^verbatim>\<open>list_ptr\<close>.\<close>

definition write_link :: "u64 \<Rightarrow> bool \<Rightarrow> u64 \<Rightarrow> u64 \<Rightarrow> 'a heap_scheme \<Rightarrow> 'a heap_scheme" where
  "write_link cache full prev v s =
     (if prev \<noteq> 0 then upd_slab prev (\<lambda>x. x\<lparr>sl_next := v\<rparr>) s
      else if full then upd_cache cache (\<lambda>x. x\<lparr>c_slabs_full := v\<rparr>) s
      else upd_cache cache (\<lambda>x. x\<lparr>c_slabs_partial := v\<rparr>) s)"

definition return_object :: "u64 \<Rightarrow> u64 \<Rightarrow> bool \<Rightarrow> u64 \<Rightarrow> u64 \<Rightarrow> 'a heap_scheme \<Rightarrow> 'a heap_scheme" where
  "return_object cache obj full prev slab s =
     (let s = push_object slab obj s;
          s = upd_slab slab (\<lambda>x. x\<lparr>sl_num_free := sl_num_free x + 1\<rparr>) s;
          s = upd_cache cache (\<lambda>x. x\<lparr>c_num_frees := c_num_frees x + 1\<rparr>) s
      in if sl_num_free (slab_at s slab) = 1 \<and> full \<and> prev = 0
         then push_partial cache slab (write_link cache full prev (snext s slab) s)
         else if sl_num_free (slab_at s slab) = sl_num_total (slab_at s slab)
         then let s = write_link cache full prev (snext s slab) s;
                  s = upd_slab slab (\<lambda>x. x\<lparr>sl_next := c_slabs_empty (cache_at s cache)\<rparr>) s
              in upd_cache cache (\<lambda>x. x\<lparr>c_slabs_empty := slab\<rparr>) s
         else s)"

definition heap_slab_free :: "u64 \<Rightarrow> u64 \<Rightarrow> 'a heap_scheme \<Rightarrow> 'a heap_scheme result" where
  "heap_slab_free cache obj s =
     (if cache = 0 \<or> obj = 0 then Inr s
      else rbind (returns (search_slab (snext s) (in_slab s obj) 0 (c_slabs_full (cache_at s cache)))) (\<lambda>(prev, slab).
        if slab \<noteq> 0 then Inr (return_object cache obj True prev slab s)
        else rbind (returns (search_slab (snext s) (in_slab s obj) 0 (c_slabs_partial (cache_at s cache)))) (\<lambda>(prev, slab).
          if slab \<noteq> 0 then Inr (return_object cache obj False prev slab s) else Inr s)))"

section \<open>Blocks and free lists\<close>

definition get_size_class :: "u64 \<Rightarrow> nat option" where
  "get_size_class sz = find (\<lambda>i. sz \<le> SIZE_CLASSES ! i) [0..<10]"

text \<open>The free list of a size class; \<open>None\<close> is the list of large blocks.\<close>

definition list_head :: "'a heap_scheme \<Rightarrow> nat option \<Rightarrow> u64" where
  "list_head s c = (case c of Some i \<Rightarrow> free_lists s ! i | None \<Rightarrow> large_free_list s)"

definition set_head :: "nat option \<Rightarrow> u64 \<Rightarrow> 'a heap_scheme \<Rightarrow> 'a heap_scheme" where
  "set_head c b s = (case c of Some i \<Rightarrow> s\<lparr>free_lists := (free_lists s)[i := b]\<rparr> | None \<Rightarrow> s\<lparr>large_free_list := b\<rparr>)"

definition add_to_free_list :: "u64 \<Rightarrow> 'a heap_scheme \<Rightarrow> 'a heap_scheme" where
  "add_to_free_list block s =
     (let class_idx = get_size_class (b_size (block_at s block));
          head = list_head s class_idx;
          s = upd_block block (\<lambda>b. b\<lparr>b_next := head, b_prev := 0\<rparr>) s;
          s = (if head \<noteq> 0 then upd_block head (\<lambda>b. b\<lparr>b_prev := block\<rparr>) s else s)
      in set_head class_idx block s)"

definition remove_from_free_list :: "u64 \<Rightarrow> 'a heap_scheme \<Rightarrow> 'a heap_scheme" where
  "remove_from_free_list block s =
     (let class_idx = get_size_class (b_size (block_at s block));
          prev = b_prev (block_at s block);
          next = b_next (block_at s block);
          s = (if prev \<noteq> 0 then upd_block prev (\<lambda>b. b\<lparr>b_next := next\<rparr>) s else set_head class_idx next s);
          next = b_next (block_at s block);
          s = (if next \<noteq> 0 then upd_block next (\<lambda>b. b\<lparr>b_prev := b_prev (block_at s block)\<rparr>) s else s)
      in upd_block block (\<lambda>b. b\<lparr>b_next := 0, b_prev := 0\<rparr>) s)"

definition coalesce_blocks :: "u64 \<Rightarrow> 'a heap_scheme \<Rightarrow> 'a heap_scheme" where
  "coalesce_blocks block s =
     (let next_block = block + HEADER_SIZE + b_size (block_at s block);
          s = (if next_block < heap_end s \<and> b_magic (block_at s next_block) = HEAP_MAGIC_FREE
               then let s = remove_from_free_list next_block s;
                        s = upd_block block (\<lambda>b. b\<lparr>b_size := b_size b + (HEADER_SIZE + b_size (block_at s next_block))\<rparr>) s
                    in upd_hstats (\<lambda>x. x\<lparr>hs_coalesce_ops := hs_coalesce_ops x + 1\<rparr>) s
               else s);
          prev_block = b_phys_prev (block_at s block)
      in if prev_block \<noteq> 0 \<and> b_magic (block_at s prev_block) = HEAP_MAGIC_FREE
         then let s = remove_from_free_list prev_block s;
                  s = upd_block prev_block (\<lambda>b. b\<lparr>b_size := b_size b + (HEADER_SIZE + b_size (block_at s block))\<rparr>) s;
                  s = add_to_free_list prev_block s
              in upd_hstats (\<lambda>x. x\<lparr>hs_coalesce_ops := hs_coalesce_ops x + 1\<rparr>) s
         else s)"

definition free_header :: "u64 \<Rightarrow> u64 \<Rightarrow> heap_block" where
  "free_header sz phys_prev =
     \<lparr>b_magic = HEAP_MAGIC_FREE, b_flags = 0, b_size = sz, b_next = 0, b_prev = 0, b_phys_prev = phys_prev\<rparr>"

definition split_block :: "u64 \<Rightarrow> u64 \<Rightarrow> 'a heap_scheme \<Rightarrow> u64 \<times> 'a heap_scheme" where
  "split_block block sz s =
     (let remaining = b_size (block_at s block) - sz
      in if remaining < HEADER_SIZE + HEAP_MIN_BLOCK_SIZE then (0, s)
         else
           let new_block = block + HEADER_SIZE + sz;
               s = upd_block new_block (\<lambda>_. free_header (remaining - HEADER_SIZE) block) s;
               s = upd_block block (\<lambda>b. b\<lparr>b_size := sz\<rparr>) s;
               s = add_to_free_list new_block s
           in (new_block, upd_hstats (\<lambda>x. x\<lparr>hs_split_ops := hs_split_ops x + 1\<rparr>) s))"

definition heap_expand :: "u64 \<Rightarrow> 'a heap_scheme \<Rightarrow> (int \<times> 'a heap_scheme) result" where
  "heap_expand min_size s =
     (let expand_size = ALIGN_UP min_size HEAP_EXPAND_SIZE
      in if hs_total_size (h_stats s) + expand_size > HEAP_MAX_SIZE then Inr (-1, s)
         else rbind (kernel_region expand_size VMM_ALLOC_ZERO s) (\<lambda>(new_region, s).
           if new_region = 0 then Inr (-1, s)
           else
             let s = upd_block new_region (\<lambda>_. free_header (expand_size - HEADER_SIZE) 0) s;
                 s = add_to_free_list new_region s;
                 s = upd_hstats (\<lambda>x. x\<lparr>hs_total_size := hs_total_size x + expand_size\<rparr>) s;
                 s = (if new_region + expand_size > heap_end s then s\<lparr>heap_end := new_region + expand_size\<rparr> else s)
             in Inr (0, s)))"

definition zero_hstats :: heap_stats where
  "zero_hstats =
     \<lparr>hs_total_size = 0, hs_used_size = 0, hs_peak_used = 0, hs_num_allocs = 0, hs_num_frees = 0, hs_slab_allocs = 0, hs_slab_frees = 0,
      hs_large_allocs = 0, hs_large_frees = 0, hs_coalesce_ops = 0, hs_split_ops = 0, hs_failed_allocs = 0, hs_double_frees = 0,
      hs_invalid_frees = 0, hs_guard_violations = 0\<rparr>"

definition create_kmalloc_cache :: "string \<times> u64 \<Rightarrow> 'a heap_scheme \<Rightarrow> 'a heap_scheme result" where
  "create_kmalloc_cache x s =
     (case x of (name, obj_size) \<Rightarrow>
        rbind (heap_create_slab_cache name obj_size 8 s) (\<lambda>(c, s). Inr (s\<lparr>kmalloc_caches := kmalloc_caches s @ [c]\<rparr>)))"

definition heap_init :: "'a heap_scheme \<Rightarrow> 'a heap_scheme result" where
  "heap_init s =
     (if heap_initialized s then Inr s
      else
        let s = s\<lparr>free_lists := replicate 10 0, large_free_list := 0, heap_start := 0, heap_end := 0, h_stats := zero_hstats,
                  guards_enabled := 0, heap_initialized := False\<rparr>
        in rbind (kernel_region HEAP_INITIAL_SIZE 0 s) (\<lambda>(heap_region, s).
             if heap_region = 0 then Inl Panic
             else
               let s = s\<lparr>heap_start := heap_region, heap_end := heap_region + HEAP_INITIAL_SIZE\<rparr>;
                   s = upd_hstats (\<lambda>x. x\<lparr>hs_total_size := HEAP_INITIAL_SIZE\<rparr>) s;
                   s = upd_block heap_region (\<lambda>_. free_header (HEAP_INITIAL_SIZE - HEADER_SIZE) 0) s;
                   s = add_to_free_list heap_region s
               in rbind (rfold create_kmalloc_cache
                          [(''kmalloc-16'', 16), (''kmalloc-32'', 32), (''kmalloc-64'', 64), (''kmalloc-128'', 128), (''kmalloc-256'', 256),
                           (''kmalloc-512'', 512)] (s\<lparr>kmalloc_caches := []\<rparr>)) (\<lambda>s.
                    Inr (s\<lparr>heap_initialized := True, guards_enabled := 0\<rparr>))))"

section \<open>Allocation\<close>

definition count_used :: "u64 \<Rightarrow> heap_stats \<Rightarrow> heap_stats" where
  "count_used n x =
     (let x = x\<lparr>hs_used_size := hs_used_size x + n\<rparr>
      in if hs_used_size x > hs_peak_used x then x\<lparr>hs_peak_used := hs_used_size x\<rparr> else x)"

definition slab_for :: "'a heap_scheme \<Rightarrow> u64 \<Rightarrow> u64" where
  "slab_for s sz =
     (if sz \<le> 16 then kmalloc_caches s ! 0 else if sz \<le> 32 then kmalloc_caches s ! 1 else if sz \<le> 64 then kmalloc_caches s ! 2
      else if sz \<le> 128 then kmalloc_caches s ! 3 else if sz \<le> 256 then kmalloc_caches s ! 4 else if sz \<le> 512 then kmalloc_caches s ! 5
      else 0)"

text \<open>The part of \<^verbatim>\<open>kmalloc_flags\<close> before its last line; \<open>0\<close> goes on to the block allocator.\<close>

definition try_slab :: "u64 \<Rightarrow> u32 \<Rightarrow> 'a heap_scheme \<Rightarrow> (u64 \<times> 'a heap_scheme) result" where
  "try_slab sz flags s =
     (if sz \<le> SLAB_MAX_SIZE then
        let cache = slab_for s sz
        in if cache \<noteq> 0
           then rbind (heap_slab_alloc cache s) (\<lambda>(ptr, s).
                  if ptr \<noteq> 0
                  then let obj_size = c_obj_size (cache_at s cache);
                           s = upd_hstats (\<lambda>x. count_used obj_size
                                 (x\<lparr>hs_slab_allocs := hs_slab_allocs x + 1, hs_num_allocs := hs_num_allocs x + 1\<rparr>)) s;
                           s = (if flags AND HEAP_ZERO \<noteq> 0 then mem_clear ptr obj_size s else s)
                       in Inr (ptr, s)
                  else Inr (0, s))
           else Inr (0, s)
      else Inr (0, s))"

abbreviation bnext :: "'a heap_scheme \<Rightarrow> u64 \<Rightarrow> u64" where
  "bnext s b \<equiv> b_next (block_at s b)"

fun larger_class :: "'a heap_scheme \<Rightarrow> u64 \<Rightarrow> u64 list \<Rightarrow> u64 \<Rightarrow> u64" where
  "larger_class s aligned_size [] block = block"
| "larger_class s aligned_size (h # hs) block =
     (if h \<noteq> 0 \<and> b_size (block_at s h) \<ge> aligned_size then h else larger_class s aligned_size hs h)"

text \<open>The search for a block: \<open>Inl\<close> is the return because of a damaged header.\<close>

definition find_block :: "u64 \<Rightarrow> 'a heap_scheme \<Rightarrow> (unit + u64) result" where
  "find_block aligned_size s =
     rbind (case get_size_class aligned_size of
              None \<Rightarrow> Inr (Inr 0)
            | Some class_idx \<Rightarrow>
                rbind (returns (find_node (bnext s) (\<lambda>b. b_magic (block_at s b) \<noteq> HEAP_MAGIC_FREE \<or> b_size (block_at s b) \<ge> aligned_size)
                                 (free_lists s ! class_idx))) (\<lambda>block.
                  if block \<noteq> 0 \<and> b_magic (block_at s block) \<noteq> HEAP_MAGIC_FREE then Inr (Inl ())
                  else if block = 0 then Inr (Inr (larger_class s aligned_size (drop (class_idx + 1) (free_lists s)) 0))
                  else Inr (Inr block))) (\<lambda>r.
       case r of
         Inl u \<Rightarrow> Inr (Inl u)
       | Inr block \<Rightarrow>
           if block = 0
           then rbind (returns (find_node (bnext s) (\<lambda>b. b_size (block_at s b) \<ge> aligned_size) (large_free_list s))) (\<lambda>b. Inr (Inr b))
           else Inr (Inr block))"

definition take_block :: "u64 \<Rightarrow> u64 \<Rightarrow> 'a heap_scheme \<Rightarrow> u64 \<times> 'a heap_scheme" where
  "take_block block aligned_size s =
     (let s = remove_from_free_list block s;
          (_, s) = split_block block aligned_size s;
          s = upd_block block (\<lambda>b. b\<lparr>b_magic := HEAP_MAGIC_USED\<rparr>) s;
          n = b_size (block_at s block);
          s = upd_hstats (\<lambda>x. count_used n (x\<lparr>hs_num_allocs := hs_num_allocs x + 1, hs_large_allocs := hs_large_allocs x + 1\<rparr>)) s
      in (block + HEADER_SIZE, s))"

text \<open>
  \<^verbatim>\<open>kmalloc_flags\<close> and \<^verbatim>\<open>kmalloc_aligned\<close> call each other; they are one function on the call that is made.  A run that calls
  for ever is \<open>None\<close>.
\<close>

datatype kcall = Call_Flags u64 u32 | Call_Aligned u64 u64

partial_function (option) kalloc :: "kcall \<Rightarrow> 'a heap_scheme \<Rightarrow> (u64 \<times> 'a heap_scheme) result option" where
  "kalloc call s =
     (case call of
        Call_Flags sz flags \<Rightarrow>
          if \<not> heap_initialized s \<or> sz = 0 then Some (Inr (0, s))
          else (case try_slab sz flags s of
                  Inl h \<Rightarrow> Some (Inl h)
                | Inr (ptr, s) \<Rightarrow> if ptr \<noteq> 0 then Some (Inr (ptr, s)) else kalloc (Call_Aligned sz 8) s)
      | Call_Aligned sz align \<Rightarrow>
          if \<not> heap_initialized s \<or> sz = 0 then Some (Inr (0, s))
          else Option.bind (if sz \<le> SLAB_MAX_SIZE \<and> align \<le> 8 then kalloc (Call_Flags sz 0) s else Some (Inr (0, s))) (\<lambda>r.
            case r of
              Inl h \<Rightarrow> Some (Inl h)
            | Inr (ptr, s) \<Rightarrow>
                if ptr \<noteq> 0 then Some (Inr (ptr, s))
                else
                  let align = (if align = 0 \<or> align AND (align - 1) \<noteq> 0 then 8 else align);
                      aligned_size = ALIGN_UP sz align
                  in case find_block aligned_size s of
                       Inl h \<Rightarrow> Some (Inl h)
                     | Inr (Inl _) \<Rightarrow> Some (Inr (0, upd_hstats (\<lambda>x. x\<lparr>hs_invalid_frees := hs_invalid_frees x + 1\<rparr>) s))
                     | Inr (Inr block) \<Rightarrow>
                         if block \<noteq> 0 then Some (Inr (take_block block aligned_size s))
                         else (case heap_expand (aligned_size + HEADER_SIZE) s of
                                 Inl h \<Rightarrow> Some (Inl h)
                               | Inr (r, s) \<Rightarrow>
                                   if r \<noteq> 0 then Some (Inr (0, upd_hstats (\<lambda>x. x\<lparr>hs_failed_allocs := hs_failed_allocs x + 1\<rparr>) s))
                                   else kalloc (Call_Aligned sz align) s)))"

definition kmalloc_flags :: "u64 \<Rightarrow> u32 \<Rightarrow> 'a heap_scheme \<Rightarrow> (u64 \<times> 'a heap_scheme) result" where
  "kmalloc_flags sz flags s = rbind (returns (kalloc (Call_Flags sz flags) s)) (\<lambda>r. r)"

definition kmalloc :: "u64 \<Rightarrow> 'a heap_scheme \<Rightarrow> (u64 \<times> 'a heap_scheme) result" where
  "kmalloc sz s = kmalloc_flags sz 0 s"

definition kmalloc_aligned :: "u64 \<Rightarrow> u64 \<Rightarrow> 'a heap_scheme \<Rightarrow> (u64 \<times> 'a heap_scheme) result" where
  "kmalloc_aligned sz align s = rbind (returns (kalloc (Call_Aligned sz align) s)) (\<lambda>r. r)"

section \<open>Release\<close>

text \<open>The cache one of whose full or partial slabs holds the address, \<open>0\<close> if there is none.\<close>

fun cache_of :: "u64 \<Rightarrow> u64 list \<Rightarrow> 'a heap_scheme \<Rightarrow> u64 result" where
  "cache_of ptr [] s = Inr 0"
| "cache_of ptr (c # cs) s =
     (if c = 0 then cache_of ptr cs s
      else rbind (returns (find_node (snext s) (in_slab s ptr) (c_slabs_full (cache_at s c)))) (\<lambda>slab.
        if slab \<noteq> 0 then Inr c
        else rbind (returns (find_node (snext s) (in_slab s ptr) (c_slabs_partial (cache_at s c)))) (\<lambda>slab.
          if slab \<noteq> 0 then Inr c else cache_of ptr cs s)))"

definition free_block :: "u64 \<Rightarrow> 'a heap_scheme \<Rightarrow> 'a heap_scheme" where
  "free_block ptr s =
     (let block = ptr - HEADER_SIZE
      in if b_magic (block_at s block) \<noteq> HEAP_MAGIC_USED
         then if b_magic (block_at s block) = HEAP_MAGIC_FREE
              then upd_hstats (\<lambda>x. x\<lparr>hs_double_frees := hs_double_frees x + 1\<rparr>) s
              else upd_hstats (\<lambda>x. x\<lparr>hs_invalid_frees := hs_invalid_frees x + 1\<rparr>) s
         else
           let s = upd_block block (\<lambda>b. b\<lparr>b_magic := HEAP_MAGIC_FREE\<rparr>) s;
               s = upd_hstats (\<lambda>x. x\<lparr>hs_used_size := hs_used_size x - b_size (block_at s block),
                     hs_num_frees := hs_num_frees x + 1, hs_large_frees := hs_large_frees x + 1\<rparr>) s;
               s = mem_clear ptr (b_size (block_at s block)) s;
               s = coalesce_blocks block s
           in add_to_free_list block s)"

definition kfree :: "u64 \<Rightarrow> 'a heap_scheme \<Rightarrow> 'a heap_scheme result" where
  "kfree ptr s =
     (if \<not> heap_initialized s \<or> ptr = 0 then Inr s
      else rbind (cache_of ptr (kmalloc_caches s) s) (\<lambda>cache.
        if cache \<noteq> 0
        then rbind (heap_slab_free cache ptr s) (\<lambda>s.
               Inr (upd_hstats (\<lambda>x. x\<lparr>hs_slab_frees := hs_slab_frees x + 1, hs_num_frees := hs_num_frees x + 1\<rparr>) s))
        else Inr (free_block ptr s)))"

definition heap_enable_guards :: "int \<Rightarrow> 'a heap_scheme \<Rightarrow> 'a heap_scheme" where
  "heap_enable_guards enable s = s\<lparr>guards_enabled := enable\<rparr>"

definition heap_validate :: int where
  "heap_validate = 0"

definition heap_get_stats :: "'a heap_scheme \<Rightarrow> heap_stats" where
  "heap_get_stats s = h_stats s"

end
