(* ===== verification/Heap_Slab.thy ===== *)
theory Heap_Slab
  imports Heap Interfaces
begin

text \<open>
  The slab caches as object pools.  A cache has three lists of slabs; the objects of a slab that are not in its free list are
  the ones that have been handed out.  A full slab may have free objects again: the code moves a slab out of the full list only
  when it is the first of that list or has become empty.
\<close>

section \<open>Objects of a slab\<close>

definition slab_objs :: "u64 \<Rightarrow> u64 \<Rightarrow> u64 set" where
  "slab_objs z m = (\<lambda>i. m + of_nat i * z) ` {..<unat ((SLAB_SIZE :: u64) div z)}"

definition stride :: "'a heap_scheme \<Rightarrow> u64 \<Rightarrow> u64" where
  "stride s c = ALIGN_UP (c_obj_size (cache_at s c)) (c_align (cache_at s c))"

lemma obj_offset:
  assumes "x \<in> slab_objs z m" "0 < z" "unat m + 0x4000 < 2 ^ 64"
  obtains i where "unat x = unat m + i * unat z" "i * unat z + unat z \<le> 0x4000"
proof -
  obtain i where i: "x = m + of_nat i * z" "i < unat ((SLAB_SIZE :: u64) div z)" using assms(1) by (auto simp: slab_objs_def)
  have z: "0 < unat z" using assms(2) by (simp add: word_less_nat_alt)
  have "i < 0x4000 div unat z" using i(2) by (simp add: unat_div)
  then have "Suc i \<le> 0x4000 div unat z" by simp
  then have "Suc i * unat z \<le> 0x4000" using z by (simp add: less_eq_div_iff_mult_less_eq del: mult_Suc)
  then have le: "i * unat z + unat z \<le> 0x4000" by simp
  have "i \<le> i * unat z" using z by simp
  then have "i \<le> 0x4000" using le by linarith
  then have "i < 2 ^ 64" by (rule le_less_trans) simp
  then have "unat (of_nat i :: u64) = i" by (simp add: unat_of_nat)
  then have "unat x = unat m + i * unat z" using i(1) le assms(3) by (simp add: unat_word_ariths)
  then show thesis using le that by blast
qed

lemma in_slab_iff:
  "unat (sl_mem (slab_at s x)) + 0x4000 < 2 ^ 64 \<Longrightarrow>
   in_slab s a x \<longleftrightarrow> unat (sl_mem (slab_at s x)) \<le> unat a \<and> unat a < unat (sl_mem (slab_at s x)) + 0x4000"
  by (simp add: in_slab_def word_le_nat_alt word_less_nat_alt unat_word_ariths)

lemma objs_in_slab:
  "a \<in> slab_objs z (sl_mem (slab_at s x)) \<Longrightarrow> 0 < z \<Longrightarrow> unat (sl_mem (slab_at s x)) + 0x4000 < 2 ^ 64 \<Longrightarrow> in_slab s a x"
  by (erule obj_offset) (auto simp: in_slab_iff word_less_nat_alt)

lemma search_slab_eq:
  "chain nxt p xs \<Longrightarrow> search_slab nxt P q p =
     Some (last (q # takeWhile (\<lambda>x. \<not> P x) xs), case dropWhile (\<lambda>x. \<not> P x) xs of [] \<Rightarrow> 0 | x # _ \<Rightarrow> x)"
proof (induction xs arbitrary: p q)
  case Nil
  then show ?case by (subst search_slab.simps) simp
next
  case (Cons x xs)
  then have "p = x" "x \<noteq> 0" "chain nxt (nxt x) xs" by auto
  then show ?case using Cons.IH [of "nxt x" x] by (subst search_slab.simps) simp
qed

section \<open>The invariant of a cache\<close>

definition slab_ok :: "'a heap_scheme \<Rightarrow> u64 \<Rightarrow> u64 \<Rightarrow> u64 list \<Rightarrow> bool" where
  "slab_ok s z x fl \<longleftrightarrow> x \<noteq> 0 \<and> sl_mem (slab_at s x) \<noteq> 0 \<and> unat (sl_mem (slab_at s x)) + 0x4000 < 2 ^ 64 \<and>
     chain (obj_next s) (sl_free_list (slab_at s x)) fl \<and> set fl \<subseteq> slab_objs z (sl_mem (slab_at s x)) \<and>
     unat (sl_num_free (slab_at s x)) = length fl \<and> unat (sl_num_total (slab_at s x)) = unat ((SLAB_SIZE :: u64) div z)"

definition apart :: "'a heap_scheme \<Rightarrow> u64 \<Rightarrow> u64 \<Rightarrow> bool" where
  "apart s x y \<longleftrightarrow> unat (sl_mem (slab_at s x)) + 0x4000 \<le> unat (sl_mem (slab_at s y)) \<or>
     unat (sl_mem (slab_at s y)) + 0x4000 \<le> unat (sl_mem (slab_at s x))"

text \<open>\<open>F\<close>, \<open>P\<close> and \<open>E\<close> are the full, partial and empty lists, \<open>fl\<close> has the free list of each slab.\<close>

definition cache_inv :: "'a heap_scheme \<Rightarrow> u64 \<Rightarrow> u64 list \<Rightarrow> u64 list \<Rightarrow> u64 list \<Rightarrow> (u64 \<Rightarrow> u64 list) \<Rightarrow> bool" where
  "cache_inv s c F P E fl \<longleftrightarrow> c \<noteq> 0 \<and> 0 < stride s c \<and> stride s c \<le> SLAB_SIZE \<and>
     chain (snext s) (c_slabs_full (cache_at s c)) F \<and> chain (snext s) (c_slabs_partial (cache_at s c)) P \<and>
     chain (snext s) (c_slabs_empty (cache_at s c)) E \<and> distinct (F @ P @ E) \<and>
     (\<forall>x \<in> set (F @ P @ E). slab_ok s (stride s c) x (fl x)) \<and>
     (\<forall>x \<in> set (F @ P @ E). \<forall>y \<in> set (F @ P @ E). x \<noteq> y \<longrightarrow> apart s x y) \<and>
     (\<forall>x \<in> set P. fl x \<noteq> []) \<and> (\<forall>x \<in> set E. set (fl x) = slab_objs (stride s c) (sl_mem (slab_at s x)))"

definition handed_out :: "'a heap_scheme \<Rightarrow> u64 \<Rightarrow> u64 list \<Rightarrow> (u64 \<Rightarrow> u64 list) \<Rightarrow> u64 set" where
  "handed_out s c X fl = (\<Union>x \<in> set X. slab_objs (stride s c) (sl_mem (slab_at s x)) - set (fl x))"

definition live_objs :: "u64 \<Rightarrow> 'a heap_scheme \<Rightarrow> u64 set \<Rightarrow> bool" where
  "live_objs c s L \<longleftrightarrow> (\<exists>F P E fl. cache_inv s c F P E fl \<and> L = handed_out s c (F @ P @ E) fl)"

text \<open>What a step keeps of the slabs and the cache.\<close>

definition same_slabs :: "'a heap_scheme \<Rightarrow> 'a heap_scheme \<Rightarrow> u64 \<Rightarrow> bool" where
  "same_slabs s t c \<longleftrightarrow> stride t c = stride s c \<and>
     (\<forall>x. sl_mem (slab_at t x) = sl_mem (slab_at s x) \<and> sl_num_total (slab_at t x) = sl_num_total (slab_at s x))"

lemma handed_out_cong: "same_slabs s t c \<Longrightarrow> set Y = set X \<Longrightarrow> handed_out t c Y fl = handed_out s c X fl"
  by (simp add: handed_out_def same_slabs_def)

lemma objs_nonempty: "0 < z \<Longrightarrow> z \<le> SLAB_SIZE \<Longrightarrow> slab_objs z m \<noteq> {}"
proof -
  assume "0 < z" "z \<le> SLAB_SIZE"
  then have "0 < unat z" "unat z \<le> 0x4000" by (simp_all add: word_less_nat_alt word_le_nat_alt)
  then have "0 < unat ((SLAB_SIZE :: u64) div z)" by (simp add: unat_div div_greater_zero_iff)
  then show ?thesis by (auto simp: slab_objs_def)
qed

lemma cache_slab_ok: "cache_inv s c F P E fl \<Longrightarrow> x \<in> set (F @ P @ E) \<Longrightarrow> slab_ok s (stride s c) x (fl x)"
  unfolding cache_inv_def by blast

lemma obj_unique:
  assumes "cache_inv s c F P E fl" "x \<in> set (F @ P @ E)" "y \<in> set (F @ P @ E)" "in_slab s a x" "in_slab s a y"
  shows "x = y"
proof (rule ccontr)
  assume n: "x \<noteq> y"
  have "slab_ok s (stride s c) x (fl x)" "slab_ok s (stride s c) y (fl y)" "apart s x y" using assms n by (simp_all add: cache_inv_def)
  then show False using assms(4,5) by (auto simp: in_slab_iff slab_ok_def apart_def)
qed

lemma cache_inv_step:
  assumes inv: "cache_inv s c F P E fl" and same: "same_slabs s t c" and all: "set (F' @ P' @ E') = set (F @ P @ E)"
    and lists: "chain (snext t) (c_slabs_full (cache_at t c)) F'" "chain (snext t) (c_slabs_partial (cache_at t c)) P'"
      "chain (snext t) (c_slabs_empty (cache_at t c)) E'" "distinct (F' @ P' @ E')"
    and frees: "\<forall>x \<in> set (F @ P @ E). chain (obj_next t) (sl_free_list (slab_at t x)) (fl' x) \<and>
      set (fl' x) \<subseteq> slab_objs (stride s c) (sl_mem (slab_at s x)) \<and> unat (sl_num_free (slab_at t x)) = length (fl' x)"
    and P: "\<forall>x \<in> set P'. fl' x \<noteq> []"
    and E: "\<forall>x \<in> set E'. set (fl' x) = slab_objs (stride s c) (sl_mem (slab_at s x))"
  shows "cache_inv t c F' P' E' fl'"
proof -
  have st: "stride t c = stride s c" "sl_mem (slab_at t x) = sl_mem (slab_at s x)" "sl_num_total (slab_at t x) = sl_num_total (slab_at s x)" for x
    using same by (simp_all add: same_slabs_def)
  have "slab_ok t (stride s c) x (fl' x)" if "x \<in> set (F @ P @ E)" for x
  proof -
    have "slab_ok s (stride s c) x (fl x)" using inv that by (simp add: cache_inv_def)
    then show ?thesis using frees that by (simp add: slab_ok_def st)
  qed
  then have "\<forall>x \<in> set (F' @ P' @ E'). slab_ok t (stride t c) x (fl' x)" using all st(1) by simp
  moreover have "apart t x y = apart s x y" for x y by (simp add: apart_def st)
  then have "\<forall>x \<in> set (F' @ P' @ E'). \<forall>y \<in> set (F' @ P' @ E'). x \<noteq> y \<longrightarrow> apart t x y"
    using inv unfolding all by (simp only: cache_inv_def) blast
  ultimately show ?thesis using inv lists P E unfolding cache_inv_def st(1) st(2) by simp
qed

lemma handed_out_change:
  assumes inv: "cache_inv s c F P E fl" and x: "x \<in> set (F @ P @ E)" and a: "a \<in> slab_objs (stride s c) (sl_mem (slab_at s x))"
  shows "fl x = a # r \<Longrightarrow> handed_out s c (F @ P @ E) (fl(x := r)) = insert a (handed_out s c (F @ P @ E) fl)"
    and "fl x = a # r \<Longrightarrow> a \<notin> handed_out s c (F @ P @ E) fl"
    and "handed_out s c (F @ P @ E) (fl(x := a # fl x)) = handed_out s c (F @ P @ E) fl - {a}"
proof -
  let ?O = "\<lambda>y. slab_objs (stride s c) (sl_mem (slab_at s y))"
  have other: "a \<notin> ?O y" if "y \<in> set (F @ P @ E)" "y \<noteq> x" for y
  proof
    assume "a \<in> ?O y"
    then have "in_slab s a y" "in_slab s a x" using a x that(1) inv
      by (auto intro!: objs_in_slab simp: cache_inv_def slab_ok_def)
    then show False using obj_unique [OF inv] x that by blast
  qed
  have ok: "slab_ok s (stride s c) x (fl x)" using inv x by (simp add: cache_inv_def)
  have split: "handed_out s c (F @ P @ E) g = (?O x - set (g x)) \<union> (\<Union>y \<in> set (F @ P @ E) - {x}. ?O y - set (g y))" for g
    using x by (auto simp: handed_out_def)
  have rest: "(\<Union>y \<in> set (F @ P @ E) - {x}. ?O y - set ((fl(x := g)) y)) = (\<Union>y \<in> set (F @ P @ E) - {x}. ?O y - set (fl y))" for g
    by auto
  have none: "a \<notin> (\<Union>y \<in> set (F @ P @ E) - {x}. ?O y - set (fl y))" using other by auto
  show "handed_out s c (F @ P @ E) (fl(x := a # fl x)) = handed_out s c (F @ P @ E) fl - {a}"
    unfolding split rest using none by auto
  assume f: "fl x = a # r"
  have "distinct (fl x)" using ok by (auto simp: slab_ok_def dest: chain_distinct)
  then have "a \<notin> set r" using f by simp
  then show "handed_out s c (F @ P @ E) (fl(x := r)) = insert a (handed_out s c (F @ P @ E) fl)"
    unfolding split rest using f a by auto
  show "a \<notin> handed_out s c (F @ P @ E) fl" unfolding split using f none by simp
qed

lemmas slab_simps = upd_slab_def upd_cache_def push_object_def Let_def

text \<open>Allocation first has a partial slab at hand.\<close>

lemma slab_to_use_ok:
  assumes inv: "cache_inv s c F P E fl" and some: "P @ E \<noteq> []"
  shows "\<exists>x P' E' t. slab_to_use c s = Inr (x, t) \<and> cache_inv t c F (x # P') E' fl \<and>
    handed_out t c (F @ (x # P') @ E') fl = handed_out s c (F @ P @ E) fl"
proof (cases P)
  case (Cons x P')
  then have "c_slabs_partial (cache_at s c) = x" "x \<noteq> 0" using inv by (auto simp: cache_inv_def)
  then have "slab_to_use c s = Inr (x, s)" by (simp add: slab_to_use_def)
  then show ?thesis using inv Cons by blast
next
  case Nil
  then obtain x E' where E: "E = x # E'" using some by (cases E) auto
  let ?t = "push_partial c x (upd_cache c (\<lambda>y. y\<lparr>c_slabs_empty := sl_next (slab_at s x)\<rparr>) s)"
  have h: "c_slabs_partial (cache_at s c) = 0" "c_slabs_empty (cache_at s c) = x" "x \<noteq> 0"
    "chain (snext s) (c_slabs_full (cache_at s c)) F" "chain (snext s) (snext s x) E'" "distinct (F @ x # E')"
    using inv Nil E by (auto simp: cache_inv_def)
  have same: "same_slabs s ?t c" by (simp add: same_slabs_def push_partial_def slab_simps stride_def)
  have ch: "chain (snext ?t) p X = chain (snext s) p X" if "x \<notin> set X" for p X
    by (rule chain_cong) (use that in \<open>auto simp: push_partial_def slab_simps\<close>)
  have ne: "fl x \<noteq> []" using inv E objs_nonempty [of "stride s c" "sl_mem (slab_at s x)"] by (fastforce simp: cache_inv_def)
  have t: "c_slabs_full (cache_at ?t c) = c_slabs_full (cache_at s c)" "c_slabs_partial (cache_at ?t c) = x"
    "c_slabs_empty (cache_at ?t c) = snext s x" "snext ?t x = 0" "obj_next ?t = obj_next s"
    "sl_free_list (slab_at ?t y) = sl_free_list (slab_at s y)" "sl_num_free (slab_at ?t y) = sl_num_free (slab_at s y)" for y
    using h by (simp_all add: push_partial_def slab_simps)
  have "cache_inv ?t c F [x] E' fl"
  proof (rule cache_inv_step [OF inv same])
    show "\<forall>y \<in> set (F @ P @ E). chain (obj_next ?t) (sl_free_list (slab_at ?t y)) (fl y) \<and>
        set (fl y) \<subseteq> slab_objs (stride s c) (sl_mem (slab_at s y)) \<and> unat (sl_num_free (slab_at ?t y)) = length (fl y)"
      using inv unfolding t by (simp add: cache_inv_def slab_ok_def)
    show "\<forall>y \<in> set E'. set (fl y) = slab_objs (stride s c) (sl_mem (slab_at s y))" using inv E by (simp add: cache_inv_def)
  qed (use h ne Nil E ch t in auto)
  moreover have "slab_to_use c s = Inr (x, ?t)" using h by (simp add: slab_to_use_def)
  ultimately show ?thesis using handed_out_cong [OF same, of "F @ [x] @ E'" "F @ P @ E" fl] Nil E
    by (intro exI [of _ x] exI [of _ "[]"] exI [of _ E'] exI [of _ ?t]) simp
qed

lemma slab_free_count:
  assumes "slab_ok s z x fl" "0 < z"
  shows "card (slab_objs z (sl_mem (slab_at s x))) \<le> unat (sl_num_total (slab_at s x))" "finite (slab_objs z (sl_mem (slab_at s x)))"
    "length fl \<le> 0x4000"
proof -
  have n: "unat ((SLAB_SIZE :: u64) div z) \<le> 0x4000" by (simp add: unat_div)
  show c: "card (slab_objs z (sl_mem (slab_at s x))) \<le> unat (sl_num_total (slab_at s x))" "finite (slab_objs z (sl_mem (slab_at s x)))"
    using assms(1) card_image_le [of "{..<unat ((SLAB_SIZE :: u64) div z)}"] by (simp_all add: slab_objs_def slab_ok_def)
  have "length fl = card (set fl)" using assms(1) by (metis chain_distinct distinct_card slab_ok_def)
  also have "\<dots> \<le> card (slab_objs z (sl_mem (slab_at s x)))" using assms(1) c(2) by (simp add: card_mono slab_ok_def)
  finally show "length fl \<le> 0x4000" using c(1) n assms(1) by (simp add: slab_ok_def)
qed

lemma obj_nonnull: "slab_ok s z x fl \<Longrightarrow> 0 < z \<Longrightarrow> a \<in> slab_objs z (sl_mem (slab_at s x)) \<Longrightarrow> a \<noteq> 0"
  by (auto simp: slab_ok_def unat_eq_zero elim: obj_offset)

section \<open>Allocation\<close>

lemma heap_slab_alloc_ok:
  assumes inv0: "cache_inv s0 c F P0 E0 fl" and some: "P0 @ E0 \<noteq> []"
  defines "L \<equiv> handed_out s0 c (F @ P0 @ E0) fl"
  shows "\<exists>a t. heap_slab_alloc c s0 = Inr (a, t) \<and> a \<noteq> 0 \<and> a \<notin> L \<and> live_objs c t (insert a L)"
proof -
  obtain x P E s where u: "slab_to_use c s0 = Inr (x, s)" and inv: "cache_inv s c F (x # P) E fl"
    and L: "L = handed_out s c (F @ (x # P) @ E) fl" using slab_to_use_ok [OF inv0 some] unfolding L_def by metis
  have c0: "c \<noteq> 0" and z: "0 < stride s c" using inv by (auto simp: cache_inv_def)
  have ok: "slab_ok s (stride s c) x (fl x)" using inv by (simp add: cache_inv_def)
  obtain a r where f: "fl x = a # r" using inv by (cases "fl x") (auto simp: cache_inv_def)
  have fa: "sl_free_list (slab_at s x) = a" "a \<noteq> 0" "chain (obj_next s) (obj_next s a) r" "x \<noteq> 0"
    "a \<in> slab_objs (stride s c) (sl_mem (slab_at s x))" using ok f by (auto simp: slab_ok_def)
  have nf: "unat (sl_num_free (slab_at s x) - 1) = length r" using ok f by (simp add: slab_ok_def unat_sub word_le_nat_alt)
  define s1 where "s1 = upd_slab x (\<lambda>y. y\<lparr>sl_free_list := obj_next s a, sl_num_free := sl_num_free y - 1\<rparr>) s"
  define s2 where "s2 = (if r = [] then
      (let s = upd_cache c (\<lambda>y. y\<lparr>c_slabs_partial := sl_next (slab_at s1 x)\<rparr>) s1;
           s = upd_slab x (\<lambda>y. y\<lparr>sl_next := c_slabs_full (cache_at s c)\<rparr>) s
       in upd_cache c (\<lambda>y. y\<lparr>c_slabs_full := x\<rparr>) s) else s1)"
  define t where "t = upd_cache c (\<lambda>y. y\<lparr>c_num_allocs := c_num_allocs y + 1\<rparr>) s2"
  have "(sl_num_free (slab_at s1 x) = 0) = (r = [])"
    using nf by (simp add: s1_def slab_simps word_unat_eq_iff del: eq_iff_diff_eq_0)
  then have run: "heap_slab_alloc c s0 = Inr (a, t)"
    using c0 u fa by (simp add: heap_slab_alloc_def s1_def [symmetric] s2_def t_def Let_def)
  define F' where "F' = (if r = [] then x # F else F)"
  define P' where "P' = (if r = [] then P else x # P)"
  have same: "same_slabs s t c" by (simp add: same_slabs_def t_def s2_def s1_def slab_simps stride_def)
  have ch: "chain (snext t) p X = chain (snext s) p X" if "x \<notin> set X \<or> r \<noteq> []" for p X
    by (rule chain_cong) (use that in \<open>auto simp: t_def s2_def s1_def slab_simps\<close>)
  have d: "distinct (F @ x # P @ E)" "chain (snext s) (c_slabs_full (cache_at s c)) F" "chain (snext s) (c_slabs_empty (cache_at s c)) E"
    "chain (snext s) (c_slabs_partial (cache_at s c)) (x # P)" using inv by (auto simp: cache_inv_def)
  have "cache_inv t c F' P' E (fl(x := r))"
  proof (rule cache_inv_step [OF inv same])
    show "set (F' @ P' @ E) = set (F @ (x # P) @ E)" by (auto simp: F'_def P'_def)
    show "chain (snext t) (c_slabs_full (cache_at t c)) F'" "chain (snext t) (c_slabs_partial (cache_at t c)) P'"
      "chain (snext t) (c_slabs_empty (cache_at t c)) E"
      using d ch fa(4) by (auto simp: F'_def P'_def t_def s2_def s1_def slab_simps simp del: fun_upd_apply) (auto simp: fun_upd_def)
    show "distinct (F' @ P' @ E)" using d(1) by (auto simp: F'_def P'_def)
    show "\<forall>y \<in> set (F @ (x # P) @ E). chain (obj_next t) (sl_free_list (slab_at t y)) ((fl(x := r)) y) \<and>
      set ((fl(x := r)) y) \<subseteq> slab_objs (stride s c) (sl_mem (slab_at s y)) \<and> unat (sl_num_free (slab_at t y)) = length ((fl(x := r)) y)"
    proof
      fix y assume y: "y \<in> set (F @ (x # P) @ E)"
      have "slab_ok s (stride s c) y (fl y)" by (rule cache_slab_ok [OF inv y])
      then show "chain (obj_next t) (sl_free_list (slab_at t y)) ((fl(x := r)) y) \<and>
        set ((fl(x := r)) y) \<subseteq> slab_objs (stride s c) (sl_mem (slab_at s y)) \<and> unat (sl_num_free (slab_at t y)) = length ((fl(x := r)) y)"
        using fa(3) nf f by (auto simp: slab_ok_def t_def s2_def s1_def slab_simps)
    qed
    show "\<forall>y \<in> set P'. (fl(x := r)) y \<noteq> []" using inv d(1) by (auto simp: P'_def cache_inv_def)
    show "\<forall>y \<in> set E. set ((fl(x := r)) y) = slab_objs (stride s c) (sl_mem (slab_at s y))" using inv d(1) by (auto simp: cache_inv_def)
  qed
  moreover have "handed_out t c (F' @ P' @ E) (fl(x := r)) = insert a L"
    using handed_out_cong [OF same, of "F' @ P' @ E" "F @ (x # P) @ E"] handed_out_change(1) [OF inv _ fa(5) f] L
    by (auto simp: F'_def P'_def)
  ultimately have "live_objs c t (insert a L)" unfolding live_objs_def by blast
  then show ?thesis using run fa(2) handed_out_change(2) [OF inv _ fa(5) f] L by auto
qed

section \<open>Release\<close>

definition slab_head :: "'a heap_scheme \<Rightarrow> u64 \<Rightarrow> bool \<Rightarrow> u64" where
  "slab_head s c full = (if full then c_slabs_full (cache_at s c) else c_slabs_partial (cache_at s c))"

text \<open>Writing the link of a slab takes it out of its list and leaves lists without its predecessor alone.\<close>

lemma write_link_ok:
  assumes "chain (snext s) (slab_head s c full) (A @ x # B)"
  defines "t \<equiv> write_link c full (last (0 # A)) (snext s x) s"
  shows "chain (snext t) (slab_head t c full) (A @ B)"
    and "set X \<inter> set A = {} \<Longrightarrow> chain (snext t) p X = chain (snext s) p X"
    and "slab_head t c (\<not> full) = slab_head s c (\<not> full)" "c_slabs_empty (cache_at t c) = c_slabs_empty (cache_at s c)"
    and "same_slabs s t c" "obj_next t = obj_next s" "sl_free_list (slab_at t y) = sl_free_list (slab_at s y)"
    "sl_num_free (slab_at t y) = sl_num_free (slab_at s y)"
proof -
  note u = chain_unlink [OF assms(1)]
  have n: "snext t = (if last (0 # A) = 0 then snext s else (snext s)(last (0 # A) := snext s x))"
    by (auto simp: t_def write_link_def slab_simps fun_eq_iff)
  have h: "slab_head t c full = (if last (0 # A) = 0 then snext s x else slab_head s c full)"
    by (simp add: t_def write_link_def slab_simps slab_head_def)
  show "chain (snext t) (slab_head t c full) (A @ B)" unfolding n h by (rule u(1))
  show "chain (snext t) p X = chain (snext s) p X" if "set X \<inter> set A = {}"
  proof (cases "A = []")
    case False
    then have "last A \<notin> set X" using that by (metis disjoint_iff last_in_set)
    then show ?thesis unfolding n using False by simp
  qed (simp add: n)
qed (auto simp: t_def write_link_def slab_simps slab_head_def same_slabs_def stride_def)

lemma full_objs:
  assumes ok: "slab_ok s z x fl" and z: "0 < z" and a: "set (a # fl) \<subseteq> slab_objs z (sl_mem (slab_at s x))" "a \<notin> set fl"
    and n: "Suc (length fl) = unat (sl_num_total (slab_at s x))"
  shows "set (a # fl) = slab_objs z (sl_mem (slab_at s x))"
proof (rule card_seteq [OF slab_free_count(2) [OF ok z] a(1)])
  have "distinct fl" using ok by (auto simp: slab_ok_def dest: chain_distinct)
  then have "card (set (a # fl)) = Suc (length fl)" using a(2) by (simp add: distinct_card)
  then show "card (slab_objs z (sl_mem (slab_at s x))) \<le> card (set (a # fl))" using slab_free_count(1) [OF ok z] n by simp
qed

lemma return_object_ok:
  assumes inv: "cache_inv s c F P E fl" and X: "(if full then F else P) = A @ x # B"
    and a: "a \<in> slab_objs (stride s c) (sl_mem (slab_at s x))" "a \<notin> set (fl x)"
  defines "t \<equiv> return_object c a full (last (0 # A)) x s"
  shows "\<exists>F' P' E'. cache_inv t c F' P' E' (fl(x := a # fl x)) \<and> same_slabs s t c \<and> set (F' @ P' @ E') = set (F @ P @ E)"
proof -
  let ?fl = "fl(x := a # fl x)"
  have x: "x \<in> set (F @ P @ E)" "x \<notin> set (if full then P else F)" "x \<notin> set E" "x \<notin> set A" "x \<notin> set B"
    "set (if full then P else F) \<inter> set A = {}" "set E \<inter> set A = {}" "distinct (A @ B)"
    using X inv by (cases full; auto simp: cache_inv_def)+
  have ok: "slab_ok s (stride s c) x (fl x)" by (rule cache_slab_ok [OF inv x(1)])
  have z: "0 < stride s c" and x0: "x \<noteq> 0" using inv ok by (simp_all add: cache_inv_def slab_ok_def)
  define s1 where "s1 = upd_cache c (\<lambda>y. y\<lparr>c_num_frees := c_num_frees y + 1\<rparr>)
    (upd_slab x (\<lambda>y. y\<lparr>sl_num_free := sl_num_free y + 1\<rparr>) (push_object x a s))"
  have s1: "snext s1 = snext s" "slab_head s1 c b = slab_head s c b" "c_slabs_empty (cache_at s1 c) = c_slabs_empty (cache_at s c)"
    "same_slabs s s1 c" for b by (auto simp: s1_def slab_simps slab_head_def same_slabs_def stride_def)
  have nf: "unat (sl_num_free (slab_at s1 x)) = Suc (length (fl x))"
    using ok slab_free_count(3) [OF ok z] by (simp add: s1_def slab_simps slab_ok_def unat_word_ariths)
  have fr: "chain (obj_next s1) (sl_free_list (slab_at s1 y)) (?fl y) \<and> set (?fl y) \<subseteq> slab_objs (stride s c) (sl_mem (slab_at s y)) \<and>
      unat (sl_num_free (slab_at s1 y)) = length (?fl y)" if y: "y \<in> set (F @ P @ E)" for y
  proof (cases "y = x")
    case True
    then show ?thesis using ok a nf obj_nonnull [OF ok z a(1)] by (simp add: slab_ok_def) (simp add: s1_def slab_simps)
  next
    case False
    have oky: "slab_ok s (stride s c) y (fl y)" by (rule cache_slab_ok [OF inv y])
    have "a \<notin> set (fl y)"
    proof
      assume "a \<in> set (fl y)"
      then have "in_slab s a y" "in_slab s a x" using oky ok a(1) z by (auto intro!: objs_in_slab simp: slab_ok_def)
      then show False using obj_unique [OF inv y x(1)] False by simp
    qed
    then show ?thesis using oky False by (simp add: slab_ok_def) (simp add: s1_def slab_simps)
  qed
  have cl: "chain (snext s1) (slab_head s1 c full) (A @ x # B)" "chain (snext s1) (slab_head s1 c (\<not> full)) (if full then P else F)"
    "chain (snext s1) (c_slabs_empty (cache_at s1 c)) E"
    using inv X unfolding s1 by (cases full; simp add: cache_inv_def slab_head_def)+
  have chF: "chain (snext s1) (slab_head s1 c True) F" and chP: "chain (snext s1) (slab_head s1 c False) P"
    using inv unfolding s1 by (simp_all add: cache_inv_def slab_head_def)
  have fin: "cache_inv t c F' P' E' ?fl \<and> same_slabs s t c"
    if st: "same_slabs s1 t c" "obj_next t = obj_next s1" "\<And>y. sl_free_list (slab_at t y) = sl_free_list (slab_at s1 y)"
      "\<And>y. sl_num_free (slab_at t y) = sl_num_free (slab_at s1 y)" "set (F' @ P' @ E') = set (F @ P @ E)"
      "chain (snext t) (slab_head t c True) F'" "chain (snext t) (slab_head t c False) P'"
      "chain (snext t) (c_slabs_empty (cache_at t c)) E'" "distinct (F' @ P' @ E')" "set P' \<subseteq> insert x (set P)"
      "\<forall>y \<in> set E'. set (?fl y) = slab_objs (stride s c) (sl_mem (slab_at s y))" for t F' P' E'
  proof -
    have sm: "same_slabs s t c" using s1(4) st(1) by (simp add: same_slabs_def)
    have "\<forall>y \<in> set P'. ?fl y \<noteq> []" using inv st(10) by (auto simp: cache_inv_def)
    then show ?thesis using cache_inv_step [OF inv sm st(5), of ?fl] st fr sm by (simp add: slab_head_def)
  qed
  have E: "\<forall>y \<in> set E. set (?fl y) = slab_objs (stride s c) (sl_mem (slab_at s y))" using inv x(3) by (auto simp: cache_inv_def)
  define w where "w = write_link c full (last (0 # A)) (snext s1 x) s1"
  note w = write_link_ok [OF cl(1), folded w_def]
  have t: "t = (if sl_num_free (slab_at s1 x) = 1 \<and> full \<and> last (0 # A) = 0 then push_partial c x w
      else if sl_num_free (slab_at s1 x) = sl_num_total (slab_at s1 x)
      then upd_cache c (\<lambda>y. y\<lparr>c_slabs_empty := x\<rparr>) (upd_slab x (\<lambda>y. y\<lparr>sl_next := c_slabs_empty (cache_at w c)\<rparr>) w) else s1)"
    by (simp only: t_def return_object_def s1_def w_def Let_def)
  have wl: "chain (snext w) (slab_head w c (\<not> full)) (if full then P else F)" "chain (snext w) (c_slabs_empty (cache_at w c)) E"
    using cl(2,3) w(2) x(6,7) unfolding w(3,4) by simp_all
  have xw: "chain (\<lambda>y. if y = x then v else snext w y) p X = chain (snext w) p X" if "x \<notin> set X" for p X v
    by (rule chain_cong) (use that in auto)
  show ?thesis
  proof (cases "sl_num_free (slab_at s1 x) = 1 \<and> full \<and> last (0 # A) = 0")
    case first: True
    then have A: "A = []" "F = x # B" full using chain_unlink(2) [OF cl(1)] X by auto
    have tt: "t = push_partial c x w" using first t by simp
    have sel: "snext t = (\<lambda>y. if y = x then slab_head w c False else snext w y)" "slab_head t c True = slab_head w c True"
      "slab_head t c False = x" "c_slabs_empty (cache_at t c) = c_slabs_empty (cache_at w c)"
      by (auto simp: tt push_partial_def slab_simps slab_head_def fun_eq_iff)
    have "distinct (F @ P @ E)" using inv unfolding cache_inv_def by blast
    moreover have "x \<notin> set P" using x(2) A(3) by simp
    moreover have "same_slabs s1 t c" "obj_next t = obj_next s1" "\<And>y. sl_free_list (slab_at t y) = sl_free_list (slab_at s1 y)"
      "\<And>y. sl_num_free (slab_at t y) = sl_num_free (slab_at s1 y)"
      using w(5-8) by (auto simp: tt push_partial_def slab_simps same_slabs_def stride_def)
    moreover have "chain (snext t) (slab_head t c True) B" "chain (snext t) (slab_head t c False) (x # P)"
      "chain (snext t) (c_slabs_empty (cache_at t c)) E"
      using w(1) wl x(3,5) \<open>x \<notin> set P\<close> x0 A unfolding sel by (simp_all add: xw)
    ultimately have "cache_inv t c B (x # P) E ?fl \<and> same_slabs s t c"
      using A by (intro fin [OF _ _ _ _ _ _ _ _ _ _ E]) auto
    then show ?thesis using A by (intro exI [of _ B] exI [of _ "x # P"] exI [of _ E]) auto
  next
    case rest: False
    show ?thesis
    proof (cases "sl_num_free (slab_at s1 x) = sl_num_total (slab_at s1 x)")
      case True
      then have tt: "t = upd_cache c (\<lambda>y. y\<lparr>c_slabs_empty := x\<rparr>) (upd_slab x (\<lambda>y. y\<lparr>sl_next := c_slabs_empty (cache_at w c)\<rparr>) w)"
        using rest t by auto
      have sel: "snext t = (\<lambda>y. if y = x then c_slabs_empty (cache_at w c) else snext w y)" "slab_head t c b = slab_head w c b"
        "c_slabs_empty (cache_at t c) = x" for b
        by (auto simp: tt slab_simps slab_head_def fun_eq_iff)
      have mv: "same_slabs s1 t c" "obj_next t = obj_next s1" "\<And>y. sl_free_list (slab_at t y) = sl_free_list (slab_at s1 y)"
        "\<And>y. sl_num_free (slab_at t y) = sl_num_free (slab_at s1 y)"
        using w(5-8) by (auto simp: tt slab_simps same_slabs_def stride_def)
      have l: "chain (snext t) (slab_head t c full) (A @ B)" "chain (snext t) (slab_head t c (\<not> full)) (if full then P else F)"
        "chain (snext t) (c_slabs_empty (cache_at t c)) (x # E)"
        using w(1) wl x x0 unfolding sel by (simp_all add: xw)
      have "Suc (length (fl x)) = unat (sl_num_total (slab_at s x))" using nf True s1(4) by (simp add: same_slabs_def)
      moreover have "set (a # fl x) \<subseteq> slab_objs (stride s c) (sl_mem (slab_at s x))" using ok a(1) by (simp add: slab_ok_def)
      ultimately have E': "\<forall>y \<in> set (x # E). set (?fl y) = slab_objs (stride s c) (sl_mem (slab_at s y))"
        using E full_objs [OF ok z _ a(2)] by simp
      define F' where "F' = (if full then A @ B else F)"
      define P' where "P' = (if full then P else A @ B)"
      have "cache_inv t c F' P' (x # E) ?fl \<and> same_slabs s t c"
        using l x X inv by (intro fin [OF mv _ _ _ l(3) _ _ E']) (cases full; auto simp: F'_def P'_def cache_inv_def)+
      moreover have "set (F' @ P' @ (x # E)) = set (F @ P @ E)" using X by (cases full) (auto simp: F'_def P'_def)
      ultimately show ?thesis by blast
    next
      case False
      then have ts: "t = s1" using rest t by auto
      have "distinct (F @ P @ E)" using inv unfolding cache_inv_def by blast
      then have "cache_inv s1 c F P E ?fl \<and> same_slabs s s1 c"
        by (intro fin [OF _ _ _ _ _ chF chP cl(3) _ _ E]) (auto simp: same_slabs_def)
      then show ?thesis using ts by blast
    qed
  qed
qed

text \<open>The search finds the slab of an object in the list that has it, and nothing in a list that has it not.\<close>

lemma search_here:
  assumes inv: "cache_inv s c F P E fl" and X: "set X \<subseteq> set (F @ P @ E)" "X = A @ x # B" "x \<notin> set A"
    and a: "in_slab s a x" and ch: "chain (snext s) p X"
  shows "search_slab (snext s) (in_slab s a) 0 p = Some (last (0 # A), x)"
proof -
  have n: "\<not> in_slab s a y" if "y \<in> set A" for y using obj_unique [OF inv, of x y a] X a that by auto
  have "takeWhile (\<lambda>y. \<not> in_slab s a y) X = A" "dropWhile (\<lambda>y. \<not> in_slab s a y) X = x # B"
    using n a unfolding X(2) by (simp_all add: takeWhile_append2 dropWhile_append2)
  then show ?thesis using search_slab_eq [OF ch, of "in_slab s a" 0] by simp
qed

lemma search_elsewhere:
  assumes inv: "cache_inv s c F P E fl" and X: "set X \<subseteq> set (F @ P @ E)" and x: "x \<in> set (F @ P @ E)" "x \<notin> set X"
    and a: "in_slab s a x" and ch: "chain (snext s) p X"
  shows "\<exists>q. search_slab (snext s) (in_slab s a) 0 p = Some (q, 0)"
proof -
  have "\<not> in_slab s a y" if "y \<in> set X" for y using obj_unique [OF inv x(1), of y a] X x(2) a that by auto
  then have e: "dropWhile (\<lambda>y. \<not> in_slab s a y) X = []" by simp
  show ?thesis unfolding search_slab_eq [OF ch] e by simp
qed

lemma heap_slab_free_ok:
  assumes inv: "cache_inv s c F P E fl" and a: "a \<in> handed_out s c (F @ P @ E) fl"
  shows "\<exists>t. heap_slab_free c a s = Inr t \<and> live_objs c t (handed_out s c (F @ P @ E) fl - {a})"
proof -
  obtain x where x: "x \<in> set (F @ P @ E)" "a \<in> slab_objs (stride s c) (sl_mem (slab_at s x))" "a \<notin> set (fl x)"
    using a by (auto simp: handed_out_def)
  have ok: "slab_ok s (stride s c) x (fl x)" by (rule cache_slab_ok [OF inv x(1)])
  have z: "c \<noteq> 0" "0 < stride s c" "x \<notin> set E" "x \<noteq> 0" and d: "distinct (F @ P @ E)"
    and ch: "chain (snext s) (c_slabs_full (cache_at s c)) F" "chain (snext s) (c_slabs_partial (cache_at s c)) P"
    using inv ok x by (auto simp: cache_inv_def slab_ok_def)
  have i: "in_slab s a x" using objs_in_slab [OF x(2) z(2)] ok by (simp add: slab_ok_def)
  have a0: "a \<noteq> 0" by (rule obj_nonnull [OF ok z(2) x(2)])
  define full where "full \<longleftrightarrow> x \<in> set F"
  have "x \<in> set (if full then F else P)" using x(1) z(3) by (auto simp: full_def)
  from split_list [OF this] obtain A B where AB: "(if full then F else P) = A @ x # B" by blast
  have xA: "x \<notin> set A" using d AB by (cases full) auto
  let ?t = "return_object c a full (last (0 # A)) x s"
  have "heap_slab_free c a s = Inr ?t"
  proof (cases full)
    case True
    then have FB: "F = A @ x # B" using AB by simp
    have "search_slab (snext s) (in_slab s a) 0 (c_slabs_full (cache_at s c)) = Some (last (0 # A), x)"
      by (rule search_here [OF inv _ FB xA i ch(1)]) auto
    then show ?thesis using z a0 True by (simp del: last.simps add: heap_slab_free_def)
  next
    case False
    then have "x \<notin> set F" by (simp add: full_def)
    then obtain q where "search_slab (snext s) (in_slab s a) 0 (c_slabs_full (cache_at s c)) = Some (q, 0)"
      using search_elsewhere [OF inv _ x(1) _ i ch(1)] by auto
    moreover have PB: "P = A @ x # B" using AB False by simp
    have "search_slab (snext s) (in_slab s a) 0 (c_slabs_partial (cache_at s c)) = Some (last (0 # A), x)"
      by (rule search_here [OF inv _ PB xA i ch(2)]) auto
    ultimately show ?thesis using z a0 False by (simp del: last.simps add: heap_slab_free_def)
  qed
  moreover obtain F' P' E' where t: "cache_inv ?t c F' P' E' (fl(x := a # fl x))" "same_slabs s ?t c"
    "set (F' @ P' @ E') = set (F @ P @ E)" using return_object_ok [OF inv AB x(2,3)] by blast
  have "handed_out ?t c (F' @ P' @ E') (fl(x := a # fl x)) = handed_out s c (F @ P @ E) fl - {a}"
    using handed_out_cong [OF t(2,3)] handed_out_change(3) [OF inv x(1,2)] by simp
  ultimately show ?thesis using t(1) unfolding live_objs_def by metis
qed

end
