(* ===== verification/Object_Pool.thy ===== *)
theory Object_Pool
  imports Kernel_Prelude
begin

text \<open>
  The contract of an allocator of objects.  \<open>inv s L\<close> holds when the pool is in order and \<open>L\<close> is the set of objects that clients
  hold; an allocation, where there is one, returns an object nobody holds, and a held object can be given back.  What any
  history of allocations and releases leads to follows here.
\<close>

inductive pool_step :: "('s \<Rightarrow> ('o \<times> 's) option) \<Rightarrow> ('o \<Rightarrow> 's \<Rightarrow> 's option) \<Rightarrow> 's \<times> 'o list \<Rightarrow> 's \<times> 'o list \<Rightarrow> bool"
  for alloc :: "'s \<Rightarrow> ('o \<times> 's) option" and free :: "'o \<Rightarrow> 's \<Rightarrow> 's option" where
  pool_take: "alloc s = Some (x, t) \<Longrightarrow> pool_step alloc free (s, L) (t, x # L)"
| pool_give: "x \<in> set L \<Longrightarrow> free x s = Some t \<Longrightarrow> pool_step alloc free (s, L) (t, remove1 x L)"

locale object_pool =
  fixes inv :: "'s \<Rightarrow> 'o set \<Rightarrow> bool"
    and alloc :: "'s \<Rightarrow> ('o \<times> 's) option"
    and free :: "'o \<Rightarrow> 's \<Rightarrow> 's option"
  assumes alloc_fresh: "inv s L \<Longrightarrow> alloc s = Some (x, t) \<Longrightarrow> x \<notin> L \<and> inv t (insert x L)"
    and free_held: "inv s L \<Longrightarrow> x \<in> L \<Longrightarrow> free x s = Some t \<Longrightarrow> inv t (L - {x})"

text \<open>The clients hold distinct objects at all times.\<close>

sublocale object_pool \<subseteq> pool: invariant_system "\<lambda>z. inv (fst z) {} \<and> snd z = []" "pool_step alloc free"
  "\<lambda>z. inv (fst z) (set (snd z)) \<and> distinct (snd z)"
proof
  fix z z' :: "'s \<times> 'o list"
  assume i: "inv (fst z) (set (snd z)) \<and> distinct (snd z)" and st: "pool_step alloc free z z'"
  from st i show "inv (fst z') (set (snd z')) \<and> distinct (snd z')"
    by cases (auto dest: alloc_fresh free_held simp: set_remove1_eq)
qed simp

context object_pool
begin

lemma holders_distinct:
  assumes "inv s {}" "(pool_step alloc free)\<^sup>*\<^sup>* (s, []) (t, L)"
  shows "inv t (set L) \<and> distinct L"
  using pool.steps_inv [OF assms(2)] assms(1) by simp

end

end
