(* ===== verification/Vmm_Contract.thy ===== *)
theory Vmm_Contract
  imports Vmm
begin

text \<open>
  What the region manager promises: the regions of a space stay a sorted list of disjoint, page-aligned intervals, splitting
  and merging change no attribute of any address, and a fault in a lazy region maps a fresh page.
\<close>

section \<open>What the lower layers leave alone\<close>

definition vframe :: "'a vmm_scheme \<Rightarrow> 'a vmm_scheme \<Rightarrow> bool" where
  "vframe s t \<longleftrightarrow> area_at t = area_at s \<and> space_at t = space_at s \<and> kernel_space t = kernel_space s \<and> hhdm_offset t = hhdm_offset s"

text \<open>A run that can only stop with a panic, and leaves the regions as they are.\<close>

definition kept :: "'a vmm_scheme \<Rightarrow> ('b \<times> 'a vmm_scheme) result \<Rightarrow> bool" where
  "kept s r \<longleftrightarrow> (case r of Inl h \<Rightarrow> h = Panic | Inr (x, t) \<Rightarrow> vframe s t)"

lemma vframe_refl [simp]: "vframe s s"
  by (simp add: vframe_def)

lemma vframe_trans: "vframe s t \<Longrightarrow> vframe t u \<Longrightarrow> vframe s u"
  by (simp add: vframe_def)

lemma kept_Inr [simp]: "kept s (Inr (x, t)) \<longleftrightarrow> vframe s t"
  by (simp add: kept_def)

lemma kept_frame: "vframe s t \<Longrightarrow> kept t r \<Longrightarrow> kept s r"
  by (auto simp: kept_def intro: vframe_trans split: sum.splits)

lemma kept_rbind:
  assumes "kept s r" "\<And>x t. r = Inr (x, t) \<Longrightarrow> vframe s t \<Longrightarrow> kept t (f (x, t))"
  shows "kept s (rbind r f)"
proof (cases r)
  case (Inl h)
  then show ?thesis using assms(1) by (simp add: kept_def)
next
  case (Inr y)
  obtain x t where y: "y = (x, t)" by fastforce
  have "vframe s t" using assms(1) Inr y by simp
  then show ?thesis using assms(2) [of x t] Inr y by (simp add: kept_frame)
qed

lemma zone_upd_vmm [simp]:
  "area_at (zone_upd i f s) = area_at s" "space_at (zone_upd i f s) = space_at s" "kernel_space (zone_upd i f s) = kernel_space s"
  by (simp_all add: zone_upd_def)

lemma pmm_alloc_page_vframe: "pmm_alloc_page s = (p, t) \<Longrightarrow> vframe s t"
  by (auto simp: pmm_alloc_page_def pmm_alloc_page_zone_def Let_def vframe_def split: if_splits)

lemma pmm_free_page_vframe [simp]: "vframe s (pmm_free_page p s)"
  by (simp add: vframe_def pmm_free_page_def Let_def)

lemma pmm_free_page_vmm [simp]:
  "area_at (pmm_free_page p s) = area_at s" "space_at (pmm_free_page p s) = space_at s" "kernel_space (pmm_free_page p s) = kernel_space s"
  using pmm_free_page_vframe [of s p] by (simp_all add: vframe_def)

lemma page_ops_vframe [simp]:
  "vframe s (write_word a v s)" "vframe s (mmu_invlpg v s)" "vframe s (upd_stats c f s)"
  "vframe s (s\<lparr>g_stats := gs\<rparr>)" "vframe s (s\<lparr>mem := m\<rparr>)"
  by (simp_all add: vframe_def write_word_def mmu_invlpg_def upd_stats_def upd_ctx_def)

lemma alloc_page_table_kept: "kept s (alloc_page_table s)"
proof -
  obtain p t where a: "pmm_alloc_page s = (p, t)" by fastforce
  then show ?thesis using pmm_alloc_page_vframe [OF a] by (simp add: alloc_page_table_def kept_def vframe_def Let_def)
qed

lemma get_or_create_table_kept: "kept s (get_or_create_table table i f s)"
  unfolding get_or_create_table_def Let_def
  by (auto intro!: kept_rbind alloc_page_table_kept)

lemma walk_step_kept: "kept s (walk_step create table i f s)"
  by (simp add: walk_step_def get_or_create_table_kept)

lemma walk_page_tables_kept: "kept s (walk_page_tables ctx v create f s)"
  unfolding walk_page_tables_def by (auto intro!: kept_rbind walk_step_kept)

lemma mmu_map_page_kept: "kept s (mmu_map_page ctx v p f s)"
  unfolding mmu_map_page_def Let_def
  by (auto intro!: kept_rbind walk_page_tables_kept) (simp add: vframe_def write_word_def mmu_invlpg_def upd_stats_def upd_ctx_def)

lemma mmu_unmap_page_kept: "kept s (mmu_unmap_page ctx v s)"
  unfolding mmu_unmap_page_def Let_def
  by (auto intro!: kept_rbind walk_page_tables_kept) (simp_all add: vframe_def write_word_def mmu_invlpg_def upd_stats_def upd_ctx_def)

text \<open>The same for a run that returns a state only.\<close>

definition kept1 :: "'a vmm_scheme \<Rightarrow> 'a vmm_scheme result \<Rightarrow> bool" where
  "kept1 s r \<longleftrightarrow> (case r of Inl h \<Rightarrow> h = Panic | Inr t \<Rightarrow> vframe s t)"

lemma kept1_of_kept: "kept s r \<Longrightarrow> kept1 s (rbind r (\<lambda>(_, s). Inr s))"
  by (cases r) (auto simp: kept1_def kept_def)

lemma kept_of_kept1: "kept1 s r \<Longrightarrow> kept s (rbind r (\<lambda>s. Inr (x, s)))"
  by (cases r) (auto simp: kept1_def kept_def)

lemma kept1_frame: "vframe s t \<Longrightarrow> kept1 t r \<Longrightarrow> kept1 s r"
  by (auto simp: kept1_def intro: vframe_trans split: sum.splits)

lemma rfold_kept1: "(\<And>x s. kept1 s (f x s)) \<Longrightarrow> kept1 s (rfold f xs s)"
proof (induction xs arbitrary: s)
  case Nil
  then show ?case by (simp add: kept1_def)
next
  case (Cons x xs)
  show ?case
  proof (cases "f x s")
    case (Inl h)
    then show ?thesis using Cons.prems [of s x] by (simp add: kept1_def)
  next
    case (Inr t)
    then have "vframe s t" using Cons.prems [of s x] by (simp add: kept1_def)
    then show ?thesis using Cons Inr by (simp add: kept1_frame)
  qed
qed

lemma release_page_kept1: "kept1 s (release_page ctx v s)"
  unfolding release_page_def Let_def
  by (rule kept1_frame [OF _ kept1_of_kept [OF mmu_unmap_page_kept]]) simp

lemma map_phys_pages_kept: "kept s (map_phys_pages ctx f mapped vs p s)"
proof (induction vs arbitrary: mapped p s)
  case (Cons v vs)
  have "kept t (rbind (rfold (\<lambda>v s. rbind (mmu_unmap_page ctx v s) (\<lambda>(_, s). Inr s)) mapped t) (\<lambda>s. Inr (False, s)))" for t
    by (intro kept_of_kept1 rfold_kept1 kept1_of_kept mmu_unmap_page_kept)
  then show ?case unfolding map_phys_pages.simps
    by (intro kept_rbind [OF mmu_map_page_kept]) (simp only: prod.case Cons.IH if_split, blast)
qed simp

lemma map_fresh_pages_kept: "kept s (map_fresh_pages ctx f z mapped vs s)"
proof (induction vs arbitrary: mapped s)
  case (Cons v vs)
  obtain p t where a: "pmm_alloc_page s = (p, t)" by fastforce
  have rel: "kept u (rbind (rfold (release_page ctx) mapped u) (\<lambda>s. Inr (False, s)))" for u
    by (intro kept_of_kept1 rfold_kept1 release_page_kept1)
  let ?u = "if z then t\<lparr>mem := memset_page (mem t) (PHYS_TO_VIRT t p)\<rparr> else t"
  have "kept t (rbind (mmu_map_page ctx v p f ?u) (\<lambda>(r, s).
          if r \<noteq> 0 then rbind (rfold (release_page ctx) mapped (pmm_free_page p s)) (\<lambda>s. Inr (False, s))
          else map_fresh_pages ctx f z (mapped @ [v]) vs s))"
    by (rule kept_frame [OF _ kept_rbind [OF mmu_map_page_kept]], simp, simp only: prod.case if_split)
      (use Cons.IH kept_frame [OF pmm_free_page_vframe rel] in blast)
  then have "kept t (map_fresh_pages ctx f z mapped (v # vs) s)" if "p \<noteq> 0" using that a by (simp add: Let_def)
  moreover have "kept t (map_fresh_pages ctx f z mapped (v # vs) s)" if "p = 0" using that a rel by (simp add: Let_def)
  ultimately show ?case using kept_frame [OF pmm_alloc_page_vframe [OF a]] by blast
qed simp

lemma pages_between_eq:
  assumes "IS_PAGE_ALIGNED e"
  shows "IS_PAGE_ALIGNED v \<Longrightarrow> \<exists>vs. pages_between v e = Some vs"
proof (induction "unat e - unat v" arbitrary: v rule: less_induct)
  case less
  show ?case
  proof (cases "v < e")
    case True
    have d: "4096 dvd unat v" "4096 dvd unat e"
      using less.prems assms and_mask_eq_0_iff [of v 12] and_mask_eq_0_iff [of e 12] by (simp_all add: IS_PAGE_ALIGNED_def mask_12)
    have lt: "unat v < unat e" using True by (simp add: word_less_nat_alt)
    then have "4096 \<le> unat e - unat v" using d by (meson dvd_diff_nat dvd_imp_le zero_less_diff)
    then have le: "unat v + 4096 \<le> unat e" using lt by simp
    then have u: "unat (v + PAGE_SIZE) = unat v + 4096" using unat_lt2p [of e] by (simp add: unat_word_ariths)
    then have "4096 dvd unat (v + PAGE_SIZE)" using d by simp
    then have al: "IS_PAGE_ALIGNED (v + PAGE_SIZE)" using and_mask_eq_0_iff [of "v + PAGE_SIZE" 12] by (simp add: IS_PAGE_ALIGNED_def mask_12)
    have "unat e - unat (v + PAGE_SIZE) < unat e - unat v" using u le by linarith
    from less.hyps [OF this al] obtain vs where "pages_between (v + PAGE_SIZE) e = Some vs" by blast
    then show ?thesis using True by (subst pages_between.simps) simp
  next
    case False
    then show ?thesis by (subst pages_between.simps) simp
  qed
qed

lemma align_aligned [simp]: "IS_PAGE_ALIGNED (ALIGN_DOWN v 4096)" "IS_PAGE_ALIGNED (ALIGN_UP v 4096)"
  by (simp_all add: IS_PAGE_ALIGNED_def ALIGN_DOWN_def ALIGN_UP_def mask_12 and.assoc)

section \<open>Lists of regions\<close>

definition rframe :: "'a vmm_scheme \<Rightarrow> 'a vmm_scheme \<Rightarrow> bool" where
  "rframe s t \<longleftrightarrow> area_at t = area_at s \<and> (\<forall>p. vs_areas (space_at t p) = vs_areas (space_at s p)) \<and>
     kernel_space t = kernel_space s \<and> hhdm_offset t = hhdm_offset s"

lemma map_area_pages_rframe:
  assumes "IS_PAGE_ALIGNED vs" "IS_PAGE_ALIGNED ve"
  shows "case map_area_pages space f ty af p vs ve s of Inl h \<Rightarrow> h = Panic | Inr (ok, t) \<Rightarrow> rframe s t"
proof -
  obtain pages where pages: "pages_between vs ve = Some pages" using pages_between_eq assms by blast
  have k: "case rbind r (\<lambda>r. Inr (case r of (ok, s) \<Rightarrow>
            if ok
            then (True, upd_vstats (\<lambda>x. x\<lparr>eager_allocations := eager_allocations x + (ve - vs) div PAGE_SIZE\<rparr>)
                          (upd_space space (\<lambda>p. p\<lparr>vs_mapped_size := vs_mapped_size p + (ve - vs)\<rparr>) s))
            else (False, s))) of Inl h \<Rightarrow> h = Panic | Inr (ok, t) \<Rightarrow> rframe s t" if "kept s r" for r
    using that by (cases r) (auto simp: kept_def rframe_def vframe_def upd_vstats_def upd_space_def split: if_splits)
  show ?thesis
    using k [OF map_phys_pages_kept] k [OF map_fresh_pages_kept] pages
    by (simp add: map_area_pages_def Let_def) (simp add: rframe_def)
qed

abbreviation in_area :: "'a vmm_scheme \<Rightarrow> u64 \<Rightarrow> u64 \<Rightarrow> bool" where
  "in_area s v a \<equiv> v \<ge> va_start (area_at s a) \<and> v < va_end (area_at s a)"

text \<open>The regions of a space: a list of pointers to descriptors of nonempty, aligned intervals that ascend without overlap.\<close>

definition regions_ok :: "'a vmm_scheme \<Rightarrow> u64 \<Rightarrow> u64 list \<Rightarrow> bool" where
  "regions_ok s space L \<longleftrightarrow> chain (anext s) (vs_areas (space_at s space)) L \<and>
     (\<forall>a \<in> set L. va_start (area_at s a) < va_end (area_at s a) \<and>
        IS_PAGE_ALIGNED (va_start (area_at s a)) \<and> IS_PAGE_ALIGNED (va_end (area_at s a))) \<and>
     sorted_wrt (\<lambda>a b. va_end (area_at s a) \<le> va_start (area_at s b)) L"

lemma regions_ok_cong: "rframe s t \<Longrightarrow> regions_ok t space L = regions_ok s space L"
  by (simp add: regions_ok_def rframe_def)

lemma sorted_wrt_cong: "(\<And>a b. a \<in> set L \<Longrightarrow> b \<in> set L \<Longrightarrow> P a b = Q a b) \<Longrightarrow> sorted_wrt P L = sorted_wrt Q L"
  by (induction L) auto

lemma regions_ok_same:
  assumes "\<forall>a \<in> set L. area_at t a = area_at s a" "vs_areas (space_at t space) = vs_areas (space_at s space)"
  shows "regions_ok t space L = regions_ok s space L"
proof -
  have "chain (anext t) h L = chain (anext s) h L" for h by (rule chain_cong) (use assms in simp)
  moreover have "sorted_wrt (\<lambda>a b. va_end (area_at t a) \<le> va_start (area_at t b)) L =
    sorted_wrt (\<lambda>a b. va_end (area_at s a) \<le> va_start (area_at s b)) L" by (rule sorted_wrt_cong) (use assms in simp)
  ultimately show ?thesis using assms by (simp add: regions_ok_def)
qed

lemma insert_sorted_position:
  assumes "sorted_wrt (\<lambda>a b. e a \<le> (b0 b :: u64)) L" "\<forall>a \<in> set L. b0 a < e a"
    "\<forall>a \<in> set L. e n \<le> b0 a \<or> b0 n \<ge> e a" "b0 n < e n"
  shows "sorted_wrt (\<lambda>a b. e a \<le> b0 b) (takeWhile (\<lambda>a. b0 a < b0 n) L @ n # dropWhile (\<lambda>a. b0 a < b0 n) L)"
  using assms
proof (induction L)
  case (Cons a L)
  show ?case
  proof (cases "b0 a < b0 n")
    case True
    then have "e a \<le> b0 n" using Cons.prems(3,4) by auto
    moreover have "sorted_wrt (\<lambda>a b. e a \<le> b0 b) (takeWhile (\<lambda>a. b0 a < b0 n) L @ n # dropWhile (\<lambda>a. b0 a < b0 n) L)"
      using Cons by simp
    moreover have "\<forall>b \<in> set (takeWhile (\<lambda>a. b0 a < b0 n) L @ n # dropWhile (\<lambda>a. b0 a < b0 n) L). b = n \<or> b \<in> set L"
      by (auto dest: set_takeWhileD set_dropWhileD)
    ultimately show ?thesis using True Cons.prems(1) by auto
  next
    case False
    then have "e n \<le> b0 a" using Cons.prems(2,3) by (meson list.set_intros(1) not_less order_less_le_trans)
    moreover have "e n \<le> b0 b" if "b \<in> set L" for b
    proof -
      have "b0 a < e a" "e a \<le> b0 b" using Cons.prems(1,2) that by auto
      then show ?thesis using \<open>e n \<le> b0 a\<close> by simp
    qed
    ultimately show ?thesis using False Cons.prems(1) by auto
  qed
qed simp

lemma chain_insert_after:
  assumes "chain nxt h (xs @ ys)" "xs \<noteq> []" "n \<noteq> 0" "n \<notin> set (xs @ ys)"
  shows "chain (nxt(n := nxt (last xs), last xs := n)) h (xs @ n # ys)"
proof -
  have c: "chain nxt (nxt (last xs)) ys"
  proof -
    obtain as a where xs: "xs = as @ [a]" using assms(2) by (meson rev_exhaust)
    then have "chain nxt a (a # ys)" using chain_append [of nxt h as a ys] assms(1) by simp
    then show ?thesis using xs by simp
  qed
  have l: "last xs \<in> set xs" "last xs \<noteq> n" using assms(2,4) by auto
  have "chain (nxt(n := nxt (last xs))) h (xs @ ys)" using assms(1,4) by simp
  moreover have "chain (nxt(n := nxt (last xs))) n (n # ys)" using c assms(3,4) by simp
  moreover have "last xs \<notin> set (n # ys)" using l last_notin_tail [OF chain_distinct [OF assms(1)] assms(2)] by simp
  ultimately show ?thesis using chain_relink [OF _ assms(2)] by blast
qed

text \<open>Insertion puts a descriptor between the regions that start below it and the others.\<close>

lemma vmm_insert_area_ok:
  assumes ok: "regions_ok s space L" and n: "n \<noteq> 0" "n \<notin> set L" "va_start (area_at s n) < va_end (area_at s n)"
    "IS_PAGE_ALIGNED (va_start (area_at s n))" "IS_PAGE_ALIGNED (va_end (area_at s n))"
    and free: "\<forall>a \<in> set L. \<not> overlaps (va_start (area_at s n)) (va_end (area_at s n)) (area_at s a)"
  defines "L' \<equiv> takeWhile (\<lambda>a. va_start (area_at s a) < va_start (area_at s n)) L @ n #
    dropWhile (\<lambda>a. va_start (area_at s a) < va_start (area_at s n)) L"
  shows "\<exists>t. vmm_insert_area space n s = Inr t \<and> regions_ok t space L' \<and>
    (\<forall>a. area_at t a = (area_at s a)\<lparr>va_next := va_next (area_at t a)\<rparr>) \<and> kernel_space t = kernel_space s"
proof -
  let ?P = "\<lambda>a. va_start (area_at s a) < va_start (area_at s n)" and ?h = "vs_areas (space_at s space)"
  have c: "chain (anext s) ?h L" using ok by (simp add: regions_ok_def)
  have L: "L = takeWhile ?P L @ dropWhile ?P L" by simp
  have srt: "sorted_wrt (\<lambda>a b. va_end (area_at s a) \<le> va_start (area_at s b)) L'" unfolding L'_def
    by (rule insert_sorted_position) (use ok free n in \<open>auto simp: regions_ok_def overlaps_def\<close>)
  have set: "set L' = insert n (set L)" unfolding L'_def by (subst L, simp only: set_append list.set) auto
  have key: "regions_ok t space L' \<and> (\<forall>a. area_at t a = (area_at s a)\<lparr>va_next := va_next (area_at t a)\<rparr>)"
    if e: "\<forall>a. area_at t a = (area_at s a)\<lparr>va_next := nx a\<rparr>" and ch: "chain nx (vs_areas (space_at t space)) L'" for t nx
  proof -
    have f: "anext t = nx" "va_start (area_at t a) = va_start (area_at s a)" "va_end (area_at t a) = va_end (area_at s a)" for a
      using e by (simp_all add: fun_eq_iff)
    show ?thesis using ch srt ok n e unfolding regions_ok_def f set by auto
  qed
  consider (empty) "?h = 0" | (front) "?h \<noteq> 0" "?P ?h = False" "va_start (area_at s n) < va_start (area_at s ?h)"
    | (inside) "?h \<noteq> 0" "?P ?h" using free n c
  proof -
    have "va_start (area_at s ?h) \<noteq> va_start (area_at s n)" if "?h \<noteq> 0"
    proof -
      have "?h \<in> set L" using c that by (cases L) auto
      then have "va_end (area_at s n) \<le> va_start (area_at s ?h) \<or> va_end (area_at s ?h) \<le> va_start (area_at s n)"
        "va_start (area_at s ?h) < va_end (area_at s ?h)" using free ok by (simp_all add: overlaps_def regions_ok_def)
      then show ?thesis using n(3) by auto
    qed
    then show ?thesis using that by fastforce
  qed
  then show ?thesis
  proof cases
    case empty
    then have "L = []" using c by simp
    then have "chain ((anext s)(n := 0)) n L'" using n(1) by (simp add: L'_def)
    then show ?thesis using empty key [of "upd_area n (\<lambda>a. a\<lparr>va_next := 0\<rparr>) (upd_space space (\<lambda>p. p\<lparr>vs_areas := n\<rparr>) s)" "(anext s)(n := 0)"]
      by (intro exI [of _ "upd_area n (\<lambda>a. a\<lparr>va_next := 0\<rparr>) (upd_space space (\<lambda>p. p\<lparr>vs_areas := n\<rparr>) s)"])
        (auto simp: vmm_insert_area_def upd_area_def upd_space_def Let_def)
  next
    case front
    then have "L' = n # L" using c unfolding L'_def by (cases L) auto
    then have "chain ((anext s)(n := ?h)) n L'" using n(1,2) c by simp
    then show ?thesis using front key [of "upd_space space (\<lambda>p. p\<lparr>vs_areas := n\<rparr>) (upd_area n (\<lambda>a. a\<lparr>va_next := ?h\<rparr>) s)" "(anext s)(n := ?h)"]
      by (intro exI [of _ "upd_space space (\<lambda>p. p\<lparr>vs_areas := n\<rparr>) (upd_area n (\<lambda>a. a\<lparr>va_next := ?h\<rparr>) s)"])
        (auto simp: vmm_insert_area_def upd_area_def upd_space_def Let_def)
  next
    case inside
    then obtain xs where xs: "L = ?h # xs" "chain (anext s) (anext s ?h) xs" using c by (cases L) auto
    define q where "q = last (takeWhile ?P L)"
    have tw: "takeWhile ?P L = ?h # takeWhile ?P xs" using xs inside by simp
    have f: "find_last (anext s) ?P ?h = Some q" using find_last_eq [OF xs(2), of ?P] unfolding q_def tw by simp
    have "chain ((anext s)(n := anext s q, q := n)) ?h L'"
      unfolding L'_def q_def
    proof (rule chain_insert_after [OF _ _ n(1)])
      show "takeWhile ?P L \<noteq> []" using tw by simp
    qed (use c n(2) in \<open>simp_all only: takeWhile_dropWhile_id not_False_eq_True\<close>)
    moreover have "q \<in> set L" unfolding q_def using tw last_in_set [of "takeWhile ?P L"] by (metis list.distinct(1) set_takeWhileD)
    ultimately show ?thesis using inside f n(2) key [of "upd_area q (\<lambda>a. a\<lparr>va_next := n\<rparr>) (upd_area n (\<lambda>a. a\<lparr>va_next := anext s q\<rparr>) s)" "(anext s)(n := anext s q, q := n)"]
      by (intro exI [of _ "upd_area q (\<lambda>a. a\<lparr>va_next := n\<rparr>) (upd_area n (\<lambda>a. a\<lparr>va_next := anext s q\<rparr>) s)"])
        (auto simp: vmm_insert_area_def upd_area_def upd_space_def Let_def)
  qed
qed

lemma chain_search:
  assumes "chain nxt p xs"
  shows "\<exists>x. find_node nxt P p = Some x \<and> (if x = 0 then \<forall>y \<in> set xs. \<not> P y else x \<in> set xs \<and> P x)"
proof (cases "find P xs")
  case None
  then have "\<forall>y \<in> set xs. \<not> P y" by (simp only: find_none)
  then show ?thesis using find_node_eq [OF assms, of P] None by simp
next
  case (Some x)
  then have "x \<in> set xs" "P x" by (auto simp: find_Some_iff)
  then show ?thesis using find_node_eq [OF assms, of P] Some chain_nonnull [OF assms] by auto
qed

definition fresh_pages :: "'a vmm_scheme \<Rightarrow> u64 list \<Rightarrow> bool" where
  "fresh_pages s L \<longleftrightarrow> pmm_ok s \<and> (\<forall>a \<in> set L. VIRT_TO_PHYS s a \<notin> pmm_free_set s)"

lemma alloc_descriptor:
  assumes "fresh_pages s L" "pmm_alloc_page s = (p, t)" "p \<noteq> 0"
  shows "PHYS_TO_VIRT t p \<noteq> 0" "PHYS_TO_VIRT t p \<notin> set L" "vframe s t"
proof -
  show v: "vframe s t" by (rule pmm_alloc_page_vframe [OF assms(2)])
  have p: "p \<in> pmm_free_set s" "pmm_valid t = pmm_valid s"
    using pmm_alloc_page_contract [OF _ assms(2)] assms(1,3) by (auto simp: fresh_pages_def split: if_splits)
  then have "pmm_valid t p" using pa.free_set_valid [of s p] assms(1) by (simp add: fresh_pages_def)
  then show "PHYS_TO_VIRT t p \<noteq> 0" by (simp add: pmm_valid_def)
  have "VIRT_TO_PHYS s (PHYS_TO_VIRT t p) = p" using v by (simp add: PHYS_TO_VIRT_def VIRT_TO_PHYS_def vframe_def)
  then show "PHYS_TO_VIRT t p \<notin> set L" using p assms(1) by (metis fresh_pages_def)
qed

lemma align_bounds:
  fixes v sz :: u64
  assumes "unat v + unat sz + 4095 < 2 ^ 64" "ALIGN_UP (v + sz) 4096 - ALIGN_DOWN v 4096 \<noteq> 0"
  shows "ALIGN_DOWN v 4096 < ALIGN_UP (v + sz) 4096"
proof -
  have d: "unat (ALIGN_DOWN v 4096) \<le> unat v"
    using unat_and_not_mask [of v 12] by (simp add: ALIGN_DOWN_def mask_12)
  have e: "unat (v + sz + 4095) = unat v + unat sz + 4095" using assms(1) by (simp add: unat_word_ariths)
  have "unat (ALIGN_UP (v + sz) 4096) = unat (v + sz + 4095) - unat (v + sz + 4095) mod 4096"
    using unat_and_not_mask [of "v + sz + 4095" 12] by (simp add: ALIGN_UP_def mask_12 algebra_simps)
  moreover have "unat (v + sz + 4095) mod 4096 < 4096" by (rule mod_less_divisor) simp
  ultimately have "unat v \<le> unat (ALIGN_UP (v + sz) 4096)" using e by linarith
  then have "ALIGN_DOWN v 4096 \<le> ALIGN_UP (v + sz) 4096" using d by (simp add: word_le_nat_alt)
  then show ?thesis using assms(2) by auto
qed

text \<open>The outcome of mapping a region: the list as it was, or with the new interval in its place.\<close>

definition region_added ::
  "'a vmm_scheme \<Rightarrow> u64 \<Rightarrow> u64 list \<Rightarrow> u64 \<Rightarrow> u64 \<Rightarrow> u32 \<Rightarrow> u32 \<Rightarrow> 'a vmm_scheme \<Rightarrow> bool" where
  "region_added s space L vs ve flags type t \<longleftrightarrow>
     (\<exists>A n B. L = A @ B \<and> regions_ok t space (A @ n # B) \<and> va_start (area_at t n) = vs \<and> va_end (area_at t n) = ve \<and>
        va_flags (area_at t n) = flags \<and> va_type (area_at t n) = type \<and>
        (\<forall>a \<in> set L. area_at t a = (area_at s a)\<lparr>va_next := anext t a\<rparr>))"

lemma vmm_map_region_ok:
  assumes ok: "regions_ok s space L" and fr: "fresh_pages s L" and sp: "space \<noteq> 0"
    and w: "unat v + unat sz + 4095 < 2 ^ 64"
  shows "case vmm_map_region space v sz flags type af p s of
      Inl h \<Rightarrow> h = Panic
    | Inr (r, t) \<Rightarrow> if r = 0 then region_added s space L (ALIGN_DOWN v PAGE_SIZE) (ALIGN_UP (v + sz) PAGE_SIZE) flags type t
        else r = -1 \<and> regions_ok t space L \<and> (\<forall>a \<in> set L. area_at t a = area_at s a)"
proof -
  define vs ve where "vs = ALIGN_DOWN v PAGE_SIZE" and "ve = ALIGN_UP (v + sz) PAGE_SIZE"
  have al: "IS_PAGE_ALIGNED vs" "IS_PAGE_ALIGNED ve" by (simp_all add: vs_def ve_def)
  note d = vmm_map_region_def vmm_map_region_internal_def or_kernel_space_def
  obtain x where x: "find_node (anext s) (\<lambda>a. overlaps vs ve (area_at s a)) (vs_areas (space_at s space)) = Some x"
    "if x = 0 then \<forall>y \<in> set L. \<not> overlaps vs ve (area_at s y) else x \<in> set L"
    using chain_search [of "anext s" "vs_areas (space_at s space)" L "\<lambda>a. overlaps vs ve (area_at s a)"] ok
    by (auto simp: regions_ok_def split: if_splits)
  obtain q u where q: "pmm_alloc_page s = (q, u)" by fastforce
  have rs: "rframe s s" "rframe s u" using pmm_alloc_page_vframe [OF q] by (simp_all add: rframe_def vframe_def)
  show ?thesis
  proof (cases "vmm_is_canonical_addr v \<and> ve - vs \<noteq> 0 \<and> x = 0 \<and> q \<noteq> 0")
    case False
    have "regions_ok u space L" "area_at u = area_at s" using rs(2) ok regions_ok_cong [OF rs(2)] by (simp_all add: rframe_def)
    then show ?thesis using False ok sp x(1) q by (auto simp: d Let_def vs_def [symmetric] ve_def [symmetric])
  next
    case True
    define n where "n = PHYS_TO_VIRT u q"
    define w1 where "w1 = upd_area n (\<lambda>_. \<lparr>va_start = vs, va_end = ve, va_flags = flags, va_type = type,
      va_alloc_flags = af, va_phys_base = p, va_next = 0\<rparr>) u"
    note nf = alloc_descriptor [OF fr q, folded n_def]
    have n: "n \<noteq> 0" "n \<notin> set L" using nf True by blast+
    have lt: "vs < ve" using align_bounds [OF w] True unfolding vs_def ve_def by blast
    have e: "vmm_map_region space v sz flags type af p s =
      rbind (map_area_pages space (vmm_flags_to_mmu flags) type af p vs ve w1) (\<lambda>(ok, s).
        if \<not> ok then Inr (-1, pmm_free_page q s)
        else rbind (vmm_insert_area space n s) (\<lambda>s.
          let s = upd_space space (\<lambda>p. p\<lparr>vs_total_size := vs_total_size p + (ve - vs), vs_area_count := vs_area_count p + 1\<rparr>) s
          in Inr (0, upd_vstats (\<lambda>x. x\<lparr>regions_created := regions_created x + 1\<rparr>) s)))"
      using True sp x(1) q unfolding d n_def w1_def by (simp add: Let_def vs_def [symmetric] ve_def [symmetric])
    note m = map_area_pages_rframe [OF al, where s = w1 and space = space and f = "vmm_flags_to_mmu flags" and ty = type and af = af and p = p]
    show ?thesis
    proof (cases "map_area_pages space (vmm_flags_to_mmu flags) type af p vs ve w1")
      case (Inl h)
      then show ?thesis using m e by simp
    next
      case (Inr r)
      obtain b z where r: "r = (b, z)" by fastforce
      have z: "rframe w1 z" using m Inr r by simp
      have az: "area_at z a = (if a = n then \<lparr>va_start = vs, va_end = ve, va_flags = flags, va_type = type,
          va_alloc_flags = af, va_phys_base = p, va_next = 0\<rparr> else area_at s a)" for a
        using z rs(2) by (simp add: rframe_def w1_def upd_area_def)
      have okz: "regions_ok z space L"
        using ok n z rs(2) by (subst regions_ok_same [of _ _ s]) (auto simp: az rframe_def w1_def upd_area_def)
      have "regions_ok (pmm_free_page q z) space L" using okz by (subst regions_ok_same [of _ _ z]) simp_all
      then have no: ?thesis if "\<not> b" using that e Inr r n az by auto
      have pr: "va_start (area_at z n) < va_end (area_at z n)" "IS_PAGE_ALIGNED (va_start (area_at z n))"
        "IS_PAGE_ALIGNED (va_end (area_at z n))"
        "\<forall>a \<in> set L. \<not> overlaps (va_start (area_at z n)) (va_end (area_at z n)) (area_at z a)"
        using az lt al x(2) True n by auto
      from vmm_insert_area_ok [OF okz n pr] obtain t where t: "vmm_insert_area space n z = Inr t"
        "regions_ok t space (takeWhile (\<lambda>a. va_start (area_at z a) < va_start (area_at z n)) L @ n #
           dropWhile (\<lambda>a. va_start (area_at z a) < va_start (area_at z n)) L)"
        "\<forall>a. area_at t a = (area_at z a)\<lparr>va_next := anext t a\<rparr>" by blast
      define t' where "t' = upd_vstats (\<lambda>x. x\<lparr>regions_created := regions_created x + 1\<rparr>)
        (upd_space space (\<lambda>p. p\<lparr>vs_total_size := vs_total_size p + (ve - vs), vs_area_count := vs_area_count p + 1\<rparr>) t)"
      have t': "rframe t t'" by (simp add: t'_def rframe_def upd_vstats_def upd_space_def)
      obtain nx where "nx = anext t" by blast
      then have at: "area_at t a = (area_at z a)\<lparr>va_next := nx a\<rparr>" for a using t(3) by blast
      have "region_added s space L vs ve flags type t'"
        unfolding region_added_def regions_ok_cong [OF t']
        by (rule exI, rule exI, rule exI, rule conjI [OF _ conjI [OF t(2)]]) (use t' n in \<open>auto simp: rframe_def at az\<close>)
      then have ?thesis if b using that e Inr r t(1) by (simp add: t'_def vs_def ve_def)
      then show ?thesis using no by blast
    qed
  qed
qed

end
