(* ===== verification/Vmm_Regions.thy ===== *)
theory Vmm_Regions
  imports Vmm_Contract
begin

text \<open>
  Splitting and merging regions against a specification on plain lists of intervals.
\<close>

section \<open>Lists of intervals\<close>

definition mergeable :: "vm_area \<Rightarrow> vm_area \<Rightarrow> bool" where
  "mergeable a b \<longleftrightarrow> va_end a = va_start b \<and> va_flags a = va_flags b \<and> va_type a = va_type b \<and> va_alloc_flags a = va_alloc_flags b \<and>
     (va_type a = VMM_TYPE_PHYS \<longrightarrow> va_phys_base a + (va_end a - va_start a) = va_phys_base b)"

fun merge_regs :: "vm_area list \<Rightarrow> vm_area list" where
  "merge_regs (a # b # rs) = (if mergeable a b then merge_regs (a\<lparr>va_end := va_end b\<rparr> # rs) else a # merge_regs (b # rs))"
| "merge_regs rs = rs"

fun separate :: "vm_area list \<Rightarrow> bool" where
  "separate (a # b # rs) \<longleftrightarrow> \<not> mergeable a b \<and> separate (b # rs)"
| "separate rs \<longleftrightarrow> True"

definition regs_ok :: "vm_area list \<Rightarrow> bool" where
  "regs_ok rs \<longleftrightarrow> (\<forall>r \<in> set rs. va_start r < va_end r \<and> IS_PAGE_ALIGNED (va_start r) \<and> IS_PAGE_ALIGNED (va_end r)) \<and>
     sorted_wrt (\<lambda>a b. va_end a \<le> va_start b) rs"

definition attr :: "vm_area \<Rightarrow> u64 \<Rightarrow> u32 \<times> u32 \<times> u32 \<times> u64" where
  "attr r v = (va_flags r, va_type r, va_alloc_flags r, if va_type r = VMM_TYPE_PHYS then va_phys_base r + (v - va_start r) else 0)"

definition attrs :: "vm_area list \<Rightarrow> u64 \<Rightarrow> (u32 \<times> u32 \<times> u32 \<times> u64) option" where
  "attrs rs v = (case find (\<lambda>r. v \<ge> va_start r \<and> v < va_end r) rs of None \<Rightarrow> None | Some r \<Rightarrow> Some (attr r v))"

lemma attrs_simps [simp]:
  "attrs [] v = None" "attrs (r # rs) v = (if v \<ge> va_start r \<and> v < va_end r then Some (attr r v) else attrs rs v)"
  by (simp_all add: attrs_def)

lemma attrs_merge:
  assumes "mergeable a b" "va_start a < va_end a" "va_start b < va_end b"
  shows "attrs (a\<lparr>va_end := va_end b\<rparr> # rs) v = attrs (a # b # rs) v"
proof -
  have e: "va_end a = va_start b" using assms(1) by (simp add: mergeable_def)
  have "attr b v = attr a v" using assms(1) by (auto simp: mergeable_def attr_def) (drule sym [of "_ + _"], simp)
  moreover have "attr (a\<lparr>va_end := va_end b\<rparr>) v = attr a v" by (simp add: attr_def)
  ultimately show ?thesis using assms(2,3) e by (auto simp: not_less)
qed

lemma regs_ok_merge: "mergeable a b \<Longrightarrow> regs_ok (a # b # rs) \<Longrightarrow> regs_ok (a\<lparr>va_end := va_end b\<rparr> # rs)"
  unfolding regs_ok_def mergeable_def by (auto intro: order_less_trans)

lemma merge_regs_starts: "r \<in> set (merge_regs rs) \<Longrightarrow> \<exists>r' \<in> set rs. va_start r' = va_start r"
  by (induction rs rule: merge_regs.induct) (auto split: if_splits)

lemma merge_regs_ok: "regs_ok rs \<Longrightarrow> regs_ok (merge_regs rs) \<and> (\<forall>v. attrs (merge_regs rs) v = attrs rs v)"
proof (induction rs rule: merge_regs.induct)
  case (1 a b rs)
  show ?case
  proof (cases "mergeable a b")
    case True
    have "attrs (a\<lparr>va_end := va_end b\<rparr> # rs) v = attrs (a # b # rs) v" for v
      by (rule attrs_merge [OF True]) (use "1.prems" in \<open>auto simp: regs_ok_def\<close>)
    moreover have "merge_regs (a # b # rs) = merge_regs (a\<lparr>va_end := va_end b\<rparr> # rs)" using True by simp
    ultimately show ?thesis using "1.IH"(1) [OF True regs_ok_merge [OF True "1.prems"]] by metis
  next
    case False
    have "regs_ok (b # rs)" using "1.prems" by (simp add: regs_ok_def)
    then have i: "regs_ok (merge_regs (b # rs))" "\<forall>v. attrs (merge_regs (b # rs)) v = attrs (b # rs) v"
      using "1.IH"(2) [OF False] by blast+
    have "va_end a \<le> va_start r" if "r \<in> set (merge_regs (b # rs))" for r
      using merge_regs_starts [OF that] "1.prems" by (auto simp: regs_ok_def)
    then have "regs_ok (a # merge_regs (b # rs))" using i(1) "1.prems" by (simp add: regs_ok_def)
    moreover have "attrs (a # merge_regs (b # rs)) v = attrs (a # b # rs) v" for v
      using i(2) by (simp only: attrs_simps(2) [of a])
    ultimately show ?thesis using False by (simp del: attrs_simps)
  qed
qed auto

lemma separate_merge: "separate (merge_regs rs)"
proof (induction rs rule: merge_regs.induct)
  case (1 a b rs)
  show ?case
  proof (cases "mergeable a b")
    case False
    have hd: "\<exists>e rs'. merge_regs (b # rs) = b\<lparr>va_end := e\<rparr> # rs'"
    proof (induction rs arbitrary: b)
      case Nil
      then show ?case by (intro exI [of _ "va_end b"]) simp
    next
      case (Cons c rs)
      then show ?case
      proof (cases "mergeable b c")
        case True
        then show ?thesis using Cons [of "b\<lparr>va_end := va_end c\<rparr>"] by auto
      next
        case False
        then show ?thesis by (intro exI [of _ "va_end b"]) simp
      qed
    qed
    then show ?thesis using "1.IH"(2) [OF False] False by (auto simp: mergeable_def)
  qed (use 1 in simp)
qed auto

lemma merge_regs_separate: "separate rs \<Longrightarrow> merge_regs rs = rs"
  by (induction rs rule: merge_regs.induct) auto

text \<open>Merging undoes a split of a list that has nothing to merge.\<close>

lemma merge_split:
  assumes m: "mergeable r1 r2" "r1\<lparr>va_end := va_end r2\<rparr> = r"
  shows "separate (A @ r # B) \<Longrightarrow> merge_regs (A @ r1 # r2 # B) = A @ r # B"
proof (induction A rule: separate.induct, goal_cases)
  case (1 a b A)
  then show ?case by simp
next
  case 2
  then show ?case using m merge_regs_separate by simp
next
  case (3 a)
  have "mergeable a r1 = mergeable a r" using m(2) by (auto simp: mergeable_def)
  then have "\<not> mergeable a r1" using 3 by simp
  then show ?case using 3 m merge_regs_separate by simp
qed

section \<open>Merging in the store\<close>

definition regions :: "'a vmm_scheme \<Rightarrow> u64 list \<Rightarrow> vm_area list" where
  "regions s L = map (\<lambda>a. (area_at s a)\<lparr>va_next := 0\<rparr>) L"

lemma regions_simps [simp]:
  "regions s [] = []" "regions s (a # L) = (area_at s a)\<lparr>va_next := 0\<rparr> # regions s L" "length (regions s L) = length L"
  "regions s (A @ B) = regions s A @ regions s B"
  by (simp_all add: regions_def)

lemma regions_cong: "(\<And>a. a \<in> set L \<Longrightarrow> (area_at t a)\<lparr>va_next := 0\<rparr> = (area_at s a)\<lparr>va_next := 0\<rparr>) \<Longrightarrow> regions t L = regions s L"
  by (simp add: regions_def)

lemma regions_ok_iff: "regions_ok s space L \<longleftrightarrow> chain (anext s) (vs_areas (space_at s space)) L \<and> regs_ok (regions s L)"
  by (auto simp: regions_ok_def regs_ok_def regions_def sorted_wrt_map)

lemma can_merge_eq:
  "a \<noteq> 0 \<Longrightarrow> b \<noteq> 0 \<Longrightarrow> vmm_can_merge_areas a b s = mergeable ((area_at s a)\<lparr>va_next := x\<rparr>) ((area_at s b)\<lparr>va_next := y\<rparr>)"
  by (auto simp: vmm_can_merge_areas_def mergeable_def Let_def)

lemma next_end_commute [simp]: "a\<lparr>va_next := x, va_end := e\<rparr> = a\<lparr>va_end := e, va_next := x\<rparr>"
  by (cases a) simp

lemma merge_next_eq:
  "anext s a \<noteq> a \<Longrightarrow> area_at (merge_next space a s) =
     (area_at s)(a := (area_at s a)\<lparr>va_end := va_end (area_at s (anext s a)), va_next := anext s (anext s a)\<rparr>)"
  "vs_areas (space_at (merge_next space a s) p) = vs_areas (space_at s p)" "kernel_space (merge_next space a s) = kernel_space s"
  by (simp_all add: merge_next_def upd_area_def upd_space_def upd_vstats_def Let_def)

lemma merge_areas_spec:
  "chain (anext s) a (a # L) \<Longrightarrow>
   \<exists>t L'. merge_areas space a c s = Some (c + (int (length L) - int (length L')), t) \<and> chain (anext t) a (a # L') \<and>
     regions t (a # L') = merge_regs (regions s (a # L)) \<and> set L' \<subseteq> set L \<and>
     (\<forall>x. x \<notin> set (a # L) \<longrightarrow> area_at t x = area_at s x) \<and> (\<forall>p. vs_areas (space_at t p) = vs_areas (space_at s p)) \<and>
     kernel_space t = kernel_space s"
proof (induction L arbitrary: a s c)
  case Nil
  then show ?case by (subst merge_areas.simps) (auto intro!: exI [of _ s] exI [of _ "[]"])
next
  case (Cons b L)
  have n: "anext s a = b" "a \<noteq> 0" "b \<noteq> 0" "a \<noteq> b" "a \<notin> set L" "b \<notin> set L" "chain (anext s) (anext s b) L"
    using Cons.prems chain_distinct [OF Cons.prems] by auto
  show ?case
  proof (cases "vmm_can_merge_areas a b s")
    case True
    let ?s = "merge_next space a s"
    have as: "area_at ?s = (area_at s)(a := (area_at s a)\<lparr>va_end := va_end (area_at s b), va_next := anext s b\<rparr>)"
      using n by (simp add: merge_next_eq)
    have "anext ?s x = anext s x" if "x \<in> set L" for x using that n(5) by (auto simp: as)
    then have "chain (anext ?s) (anext s b) L" using n(7) chain_cong [of L "anext ?s" "anext s" "anext s b"] by blast
    then have ch: "chain (anext ?s) a (a # L)" using n by (simp add: as)
    have rg: "regions ?s L = regions s L" by (rule regions_cong) (use n in \<open>auto simp: as\<close>)
    have "mergeable ((area_at s a)\<lparr>va_next := 0\<rparr>) ((area_at s b)\<lparr>va_next := 0\<rparr>)" using True can_merge_eq [OF n(2,3), of s 0 0] by simp
    then have mr: "merge_regs (regions s (a # b # L)) = merge_regs (regions ?s (a # L))" using rg by (simp add: as)
    have st: "merge_areas space a c s = merge_areas space a (c + 1) ?s"
      using n True by (subst merge_areas.simps) simp
    obtain t L' where t: "merge_areas space a (c + 1) ?s = Some (c + 1 + (int (length L) - int (length L')), t)" "chain (anext t) a (a # L')"
      "regions t (a # L') = merge_regs (regions ?s (a # L))" "set L' \<subseteq> set L" "\<forall>x. x \<notin> set (a # L) \<longrightarrow> area_at t x = area_at ?s x"
      "\<forall>p. vs_areas (space_at t p) = vs_areas (space_at ?s p)" "kernel_space t = kernel_space ?s"
      using Cons.IH [OF ch, of "c + 1"] by blast
    have "merge_areas space a c s = Some (c + (int (length (b # L)) - int (length L')), t)" using st t(1) by simp
    moreover have "\<forall>x. x \<notin> set (a # b # L) \<longrightarrow> area_at t x = area_at s x" using t(5) as by auto
    moreover have "set L' \<subseteq> set (b # L)" using t(4) by auto
    ultimately show ?thesis using t(2,3,6,7) mr merge_next_eq(2,3) by metis
  next
    case False
    have "chain (anext s) b (b # L)" using n by simp
    from Cons.IH [OF this, of c] obtain t L' where
      t: "merge_areas space b c s = Some (c + (int (length L) - int (length L')), t)" "chain (anext t) b (b # L')"
      "regions t (b # L') = merge_regs (regions s (b # L))" "set L' \<subseteq> set L" "\<forall>x. x \<notin> set (b # L) \<longrightarrow> area_at t x = area_at s x"
      "\<forall>p. vs_areas (space_at t p) = vs_areas (space_at s p)" "kernel_space t = kernel_space s" by blast
    have "merge_areas space a c s = merge_areas space b c s" using n False by (subst merge_areas.simps) simp
    then have m: "merge_areas space a c s = Some (c + (int (length (b # L)) - int (length (b # L'))), t)" using t(1) by simp
    have a: "area_at t a = area_at s a" using t(5) n by simp
    have "chain (anext t) a (a # b # L')" using t(2) n a by simp
    moreover have "\<not> mergeable ((area_at s a)\<lparr>va_next := 0\<rparr>) ((area_at s b)\<lparr>va_next := 0\<rparr>)" using False can_merge_eq [OF n(2,3), of s 0 0] by simp
    then have "regions t (a # b # L') = merge_regs (regions s (a # b # L))" using t(3) a by simp
    moreover have "\<forall>x. x \<notin> set (a # b # L) \<longrightarrow> area_at t x = area_at s x" "set (b # L') \<subseteq> set (b # L)" using t(4,5) by auto
    ultimately show ?thesis using m t(6,7) by (intro exI [of _ t] exI [of _ "b # L'"]) simp
  qed
qed

lemma vmm_merge_regions_ok:
  assumes ok: "regions_ok s space L" and sp: "space \<noteq> 0"
  shows "\<exists>t L'. vmm_merge_regions space s = Inr (int (length L) - int (length L'), t) \<and> regions_ok t space L' \<and>
    regions t L' = merge_regs (regions s L) \<and> set L' \<subseteq> set L \<and> (L \<noteq> [] \<longrightarrow> L' \<noteq> [] \<and> hd L' = hd L)"
proof (cases L)
  case Nil
  then show ?thesis using ok sp
    by (auto simp: regions_ok_def vmm_merge_regions_def or_kernel_space_def merge_areas.simps intro!: exI [of _ s] exI [of _ "[]"])
next
  case (Cons a M)
  then have a: "vs_areas (space_at s space) = a" "chain (anext s) a (a # M)" using ok by (auto simp: regions_ok_def)
  obtain t M' where t: "merge_areas space a 0 s = Some (int (length M) - int (length M'), t)" "chain (anext t) a (a # M')"
    "regions t (a # M') = merge_regs (regions s (a # M))" "set M' \<subseteq> set M" "\<forall>p. vs_areas (space_at t p) = vs_areas (space_at s p)"
    using merge_areas_spec [OF a(2), of space 0] by auto
  have "regs_ok (regions s (a # M))" using ok Cons by (simp only: regions_ok_iff)
  then have "regs_ok (regions t (a # M'))" using merge_regs_ok t(3) by metis
  then have "regions_ok t space (a # M')" using t(2,5) a(1) by (simp only: regions_ok_iff)
  then show ?thesis using t Cons a(1) sp
    by (intro exI [of _ t] exI [of _ "a # M'"]) (auto simp: vmm_merge_regions_def or_kernel_space_def simp del: regions_simps)
qed

text \<open>What a lookup finds at an address.\<close>

definition region_attr :: "u64 \<Rightarrow> u64 \<Rightarrow> 'a vmm_scheme \<Rightarrow> (u32 \<times> u32 \<times> u32 \<times> u64) option" where
  "region_attr space v s =
     (case vmm_find_area space v s of Inl _ \<Rightarrow> None | Inr a \<Rightarrow> if a = 0 then None else Some (attr (area_at s a) v))"

lemma attr_next [simp]: "attr (a\<lparr>va_next := x\<rparr>) v = attr a v"
  by (simp add: attr_def)

lemma region_attr_eq:
  assumes "regions_ok s space L" "space \<noteq> 0"
  shows "region_attr space v s = attrs (regions s L) v"
proof -
  have c: "chain (anext s) (vs_areas (space_at s space)) L" using assms by (simp add: regions_ok_def)
  have "vmm_find_area space v s = Inr (case find (in_area s v) L of None \<Rightarrow> 0 | Some a \<Rightarrow> a)"
    using find_node_eq [OF c, of "in_area s v"] assms(2) by (simp add: vmm_find_area_def or_kernel_space_def)
  moreover have "attrs (regions s L) v = (case find (in_area s v) L of None \<Rightarrow> None | Some a \<Rightarrow> Some (attr (area_at s a) v))"
    by (induction L) auto
  moreover have "a \<noteq> 0" if "find (in_area s v) L = Some a" for a
    using find_mem [OF that] chain_nonnull [OF c] by metis
  ultimately show ?thesis by (cases "find (in_area s v) L") (simp_all add: region_attr_def)
qed

section \<open>Splitting in the store\<close>

lemma find_unique:
  assumes "regions_ok s space L" "a \<in> set L" "in_area s v a"
  shows "find (in_area s v) L = Some a"
proof -
  have "sorted_wrt (\<lambda>a b. va_end (area_at s a) \<le> va_start (area_at s b)) L" using assms(1) by (simp add: regions_ok_def)
  then show ?thesis using assms(2)
  proof (induction L)
    case (Cons b L)
    have "\<not> in_area s v b" if "a \<in> set L"
    proof -
      have "va_end (area_at s b) \<le> va_start (area_at s a)" using Cons.prems(1) that by simp
      then have "va_end (area_at s b) \<le> v" using assms(3) by (meson order_trans)
      then show ?thesis by (simp add: not_less)
    qed
    then show ?case using Cons assms(3) by auto
  qed simp
qed

lemma vmm_split_region_ok:
  assumes ok: "regions_ok s space L" and fr: "fresh_pages s L" and sp: "space \<noteq> 0" and L: "L = A @ a # B"
    and v: "va_start (area_at s a) < ALIGN_DOWN v PAGE_SIZE" "ALIGN_DOWN v PAGE_SIZE < va_end (area_at s a)" and p: "pmm_free_set s \<noteq> {}"
  shows "\<exists>t n r1 r2. vmm_split_region space v s = Inr (0, t) \<and> regions_ok t space (A @ a # n # B) \<and> n \<notin> set L \<and>
    regions t (A @ a # n # B) = regions s A @ r1 # r2 # regions s B \<and> mergeable r1 r2 \<and>
    r1\<lparr>va_end := va_end r2\<rparr> = (area_at s a)\<lparr>va_next := 0\<rparr> \<and> va_start r1 < va_end r1 \<and> va_start r2 < va_end r2"
proof -
  define q where "q = ALIGN_DOWN v PAGE_SIZE"
  have "in_area s q a" using v by (simp add: q_def)
  then have "find (in_area s q) L = Some a" using find_unique [OF ok] L by simp
  moreover have c: "chain (anext s) (vs_areas (space_at s space)) L" using ok by (simp add: regions_ok_def)
  ultimately have f: "vmm_find_area space q s = Inr a"
    using find_node_eq [OF c, of "in_area s q"] sp by (simp add: vmm_find_area_def or_kernel_space_def)
  have a0: "a \<noteq> 0" using chain_nonnull [OF c] L by auto
  obtain x u where x: "pmm_alloc_page s = (x, u)" by fastforce
  have "x \<in> pmm_free_set s" using pmm_alloc_page_contract [OF _ x] fr p by (simp add: fresh_pages_def)
  then have x0: "x \<noteq> 0" using pa.free_set_valid [of s x] fr by (simp add: fresh_pages_def)
  define n where "n = PHYS_TO_VIRT u x"
  note n = alloc_descriptor [OF fr x x0, folded n_def]
  define r2 where "r2 = \<lparr>va_start = q, va_end = va_end (area_at s a), va_flags = va_flags (area_at s a),
    va_type = va_type (area_at s a), va_alloc_flags = va_alloc_flags (area_at s a),
    va_phys_base = (if va_type (area_at s a) = VMM_TYPE_PHYS then va_phys_base (area_at s a) + (q - va_start (area_at s a)) else 0), va_next = 0\<rparr>"
  have qa: "q \<noteq> va_start (area_at s a)" "\<not> va_end (area_at s a) \<le> q" using v by (auto simp: q_def)
  define t where "t = (case vmm_split_region space v s of Inr (r, t) \<Rightarrow> t | Inl _ \<Rightarrow> s)"
  have na: "n \<noteq> a" using n(2) L by auto
  have t: "vmm_split_region space v s = Inr (0, t)"
    "area_at t = (area_at s)(n := r2\<lparr>va_next := anext s a\<rparr>, a := (area_at s a)\<lparr>va_end := q, va_next := n\<rparr>)"
    "vs_areas (space_at t space) = vs_areas (space_at s space)"
    using f a0 x x0 qa n(3) na
    by (simp_all add: t_def vmm_split_region_def Let_def or_kernel_space_def sp q_def [symmetric] n_def [symmetric] vframe_def
        upd_area_def upd_space_def upd_vstats_def r2_def fun_upd_twist)
  define r1 where "r1 = (area_at s a)\<lparr>va_end := q, va_next := 0\<rparr>"
  have d: "distinct L" "a \<notin> set A" "a \<notin> set B" "n \<notin> set A" "n \<notin> set B" using chain_distinct [OF c] n(2) L by auto
  have rg: "regions t A = regions s A" "regions t B = regions s B" by (rule regions_cong; use d in \<open>auto simp: t(2)\<close>)+
  have r: "regions t (A @ a # n # B) = regions s A @ r1 # r2 # regions s B" using rg na by (simp add: t(2) r1_def r2_def)
  have m: "mergeable r1 r2" by (simp add: r1_def r2_def mergeable_def)
  have j: "r1\<lparr>va_end := va_end r2\<rparr> = (area_at s a)\<lparr>va_next := 0\<rparr>" by (cases "area_at s a") (simp add: r1_def r2_def)
  have lt: "va_start r1 < va_end r1" "va_start r2 < va_end r2" using v by (simp_all add: r1_def r2_def q_def)
  have "chain ((anext s)(n := anext s (last (A @ [a])), last (A @ [a]) := n)) (vs_areas (space_at s space)) ((A @ [a]) @ n # B)"
    by (rule chain_insert_after) (use c L n in auto)
  moreover have "anext t = (anext s)(n := anext s a, a := n)" using na by (auto simp: t(2) r2_def fun_eq_iff)
  ultimately have "chain (anext t) (vs_areas (space_at t space)) (A @ a # n # B)" using t(3) by simp
  moreover have "regs_ok (regions s A @ r1 # r2 # regions s B)"
  proof -
    have o: "regs_ok (regions s A @ (area_at s a)\<lparr>va_next := 0\<rparr> # regions s B)" using ok L by (simp add: regions_ok_iff)
    have "va_start r1 = va_start (area_at s a)" "va_end r1 = q" "va_start r2 = q" "va_end r2 = va_end (area_at s a)"
      by (simp_all add: r1_def r2_def)
    then show ?thesis using o lt unfolding regs_ok_def
      by (auto simp: sorted_wrt_append q_def intro: order_trans less_imp_le)
  qed
  ultimately have "regions_ok t space (A @ a # n # B)" using r by (simp only: regions_ok_iff)
  then show ?thesis using t(1) n(2) r m j lt by blast
qed

end
