(* ===== verification/Vmm_Faults.thy ===== *)
theory Vmm_Faults
  imports Vmm_Regions
begin




section \<open>Success of a lazy mapping\<close>

lemma vmm_insert_area_halts: "vmm_insert_area space n s = Inl h \<Longrightarrow> h = Diverges"
  by (auto simp: vmm_insert_area_def Let_def returns_def rbind_eq_Inl split: if_splits option.splits)

lemma vmm_map_region_lazy:
  assumes ok: "regions_ok s space L" and fr: "fresh_pages s L" and sp: "space \<noteq> 0"
    and w: "unat v + unat sz + 4095 < 2 ^ 64" and lazy: "af AND VMM_ALLOC_LAZY \<noteq> 0"
    and v: "vmm_is_canonical_addr v" "ALIGN_UP (v + sz) PAGE_SIZE \<noteq> ALIGN_DOWN v PAGE_SIZE"
    and free: "\<forall>a \<in> set L. \<not> overlaps (ALIGN_DOWN v PAGE_SIZE) (ALIGN_UP (v + sz) PAGE_SIZE) (area_at s a)" "pmm_free_set s \<noteq> {}"
  shows "\<exists>t. vmm_map_region space v sz flags VMM_TYPE_ANON af p s = Inr (0, t)"
proof -
  define vs ve where "vs = ALIGN_DOWN v PAGE_SIZE" and "ve = ALIGN_UP (v + sz) PAGE_SIZE"
  have c: "chain (anext s) (vs_areas (space_at s space)) L" using ok by (simp add: regions_ok_def)
  have f: "find_node (anext s) (\<lambda>a. overlaps vs ve (area_at s a)) (vs_areas (space_at s space)) = Some 0"
    using chain_search [OF c, of "\<lambda>a. overlaps vs ve (area_at s a)"] free(1) by (auto simp: vs_def ve_def split: if_splits)
  obtain x u where x: "pmm_alloc_page s = (x, u)" by fastforce
  have "x \<in> pmm_free_set s" using pmm_alloc_page_contract [OF _ x] fr free(2) by (simp add: fresh_pages_def)
  then have x0: "x \<noteq> 0" using pa.free_set_valid [of s x] fr by (simp add: fresh_pages_def)
  define n where "n = PHYS_TO_VIRT u x"
  let ?w = "upd_area n (\<lambda>_. \<lparr>va_start = vs, va_end = ve, va_flags = flags, va_type = VMM_TYPE_ANON,
      va_alloc_flags = af, va_phys_base = p, va_next = 0\<rparr>) u"
  have "\<exists>g. vmm_map_region space v sz flags VMM_TYPE_ANON af p s = rbind (vmm_insert_area space n ?w) (\<lambda>s. Inr (0, g s))"
    using v f x x0 sp lazy unfolding vmm_map_region_def vmm_map_region_internal_def or_kernel_space_def n_def
    by (simp add: Let_def vs_def [symmetric] ve_def [symmetric] map_area_pages_def)
      (rule exI [of _ "\<lambda>s. upd_vstats (\<lambda>x. x\<lparr>regions_created := regions_created x + 1\<rparr>)
        (upd_space space (\<lambda>p. p\<lparr>vs_total_size := vs_total_size p + (ve - vs), vs_area_count := vs_area_count p + 1\<rparr>) s)"], simp)
  then show ?thesis
    using vmm_map_region_ok [OF ok fr sp w, of flags VMM_TYPE_ANON af p] vmm_insert_area_halts [of space n ?w]
    by (cases "vmm_insert_area space n ?w") auto
qed

section \<open>A small address space\<close>

text \<open>A space with one lazy, writable region of three pages, over the page tables and free pages of \<open>mmu0\<close>.\<close>

definition area0 :: vm_area where
  "area0 = \<lparr>va_start = 0x400000, va_end = 0x403000, va_flags = VMM_READ OR VMM_WRITE OR VMM_USER, va_type = VMM_TYPE_ANON,
     va_alloc_flags = VMM_ALLOC_LAZY, va_phys_base = 0, va_next = 0\<rparr>"

definition vmm0 :: vmm where
  "vmm0 = mmu_with (vmm.fields (\<lambda>_. area0)
     (\<lambda>_. \<lparr>vs_mmu_ctx = 0, vs_areas = hhdm0 + 0x9000, vs_total_size = 0x3000, vs_mapped_size = 0, vs_area_count = 1\<rparr>)
     0xffffffff80001000 True zero_vstats)"

abbreviation areas0 :: "u64 list" where
  "areas0 \<equiv> [hhdm0 + 0x9000]"

lemma vmm0_sel [simp]: "area_at vmm0 a = area0" "vs_areas (space_at vmm0 p) = hhdm0 + 0x9000" "ctx_of vmm0 p = 0" "hhdm_offset vmm0 = hhdm0"
  by (simp_all add: vmm0_def mmu_with_def vmm.defs)

lemma vmm0_regions: "regions_ok vmm0 0x100 areas0"
  by (simp add: regions_ok_def area0_def IS_PAGE_ALIGNED_def)

lemma vmm0_pmm: "pmm_inv vmm0 mmu0_free"
  unfolding vmm0_def by (rule mmu_with_pmm)

lemma vmm0_free_set: "pmm_free_set vmm0 = {0x1000, 0x2000, 0x3000, 0x4000}"
  unfolding pmm_free_set_split [OF vmm0_pmm, of 0, simplified] by (auto simp: mmu0_free_def)

lemma vmm0_fresh: "fresh_pages vmm0 areas0"
proof -
  have "pmm_ok vmm0" using vmm0_pmm mmu0_free_facts(1) by (auto simp: pmm_ok_def)
  then show ?thesis by (simp add: fresh_pages_def vmm0_free_set VIRT_TO_PHYS_def)
qed



section \<open>Properties\<close>

text \<open>C32. The regions of a space stay a sorted list of disjoint, nonempty, page-aligned intervals: \<^verbatim>\<open>vmm_map_region\<close> over a range
  that does not wrap around the address space either stops with the panic of the page tables, or fails and leaves every region as it was, or
  returns 0 with the region of the rounded range added in its place and all others unchanged.  A lazy anonymous region is
  always added when the address is canonical, the range is not empty, overlaps no region and a page is free.\<close>

theorem vmm_map_region_disjoint:
  assumes "regions_ok s space L" "fresh_pages s L" "space \<noteq> 0" "unat v + unat sz + 4095 < 2 ^ 64"
  shows "(case vmm_map_region space v sz flags type af p s of
      Inl h \<Rightarrow> h = Panic
    | Inr (r, t) \<Rightarrow> if r = 0 then region_added s space L (ALIGN_DOWN v PAGE_SIZE) (ALIGN_UP (v + sz) PAGE_SIZE) flags type t
        else r = -1 \<and> regions_ok t space L \<and> (\<forall>a \<in> set L. area_at t a = area_at s a)) \<and>
    (type = VMM_TYPE_ANON \<and> af AND VMM_ALLOC_LAZY \<noteq> 0 \<and> vmm_is_canonical_addr v \<and>
     ALIGN_UP (v + sz) PAGE_SIZE \<noteq> ALIGN_DOWN v PAGE_SIZE \<and> pmm_free_set s \<noteq> {} \<and>
     (\<forall>a \<in> set L. \<not> overlaps (ALIGN_DOWN v PAGE_SIZE) (ALIGN_UP (v + sz) PAGE_SIZE) (area_at s a)) \<longrightarrow>
     (\<exists>t. vmm_map_region space v sz flags type af p s = Inr (0, t)))"
  using vmm_map_region_ok [OF assms, of flags type af p] vmm_map_region_lazy [OF assms, of af flags p] by simp

theorem vmm_map_region_disjoint_witness:
  "\<exists>t. vmm_map_region 0x100 0x500123 0x1000 VMM_WRITE VMM_TYPE_ANON VMM_ALLOC_LAZY 0 vmm0 = Inr (0, t) \<and>
     region_added vmm0 0x100 areas0 0x500000 0x502000 VMM_WRITE VMM_TYPE_ANON t"
proof -
  have w: "unat (0x500123 :: u64) + unat (0x1000 :: u64) + 4095 < 2 ^ 64" "(0x100 :: u64) \<noteq> 0" by simp_all
  have al: "ALIGN_DOWN 0x500123 PAGE_SIZE = 0x500000" "ALIGN_UP (0x500123 + 0x1000) PAGE_SIZE = 0x502000"
    by (simp_all add: ALIGN_DOWN_def ALIGN_UP_def)
  note m = vmm_map_region_disjoint [OF vmm0_regions vmm0_fresh w(2,1), of VMM_WRITE VMM_TYPE_ANON VMM_ALLOC_LAZY 0, unfolded al]
  have "\<exists>t. vmm_map_region 0x100 0x500123 0x1000 VMM_WRITE VMM_TYPE_ANON VMM_ALLOC_LAZY 0 vmm0 = Inr (0, t)"
    using m by (simp add: vmm_is_canonical_addr_def vmm0_free_set overlaps_def area0_def)
  then show ?thesis using m by auto
qed

text \<open>C35. Merging regions implements merging of intervals: \<^verbatim>\<open>vmm_merge_regions\<close> always returns, and the regions are then those
  of the list function \<open>merge_regs\<close>, in which no two neighbours can be merged.  It returns the number of regions that
  disappeared, the list is well formed, and every address has the attributes it had, the physical address of a physical
  mapping included.\<close>

theorem vmm_merge_regions_refines:
  assumes "regions_ok s space L" "space \<noteq> 0"
  shows "\<exists>t L'. vmm_merge_regions space s = Inr (int (length L) - int (length L'), t) \<and> regions_ok t space L' \<and>
    regions t L' = merge_regs (regions s L) \<and> separate (regions t L') \<and> (\<forall>v. region_attr space v t = region_attr space v s)"
proof -
  obtain t L' where t: "vmm_merge_regions space s = Inr (int (length L) - int (length L'), t)" "regions_ok t space L'"
    "regions t L' = merge_regs (regions s L)" using vmm_merge_regions_ok [OF assms] by blast
  have "regs_ok (regions s L)" using assms(1) by (simp only: regions_ok_iff)
  then have "region_attr space v t = region_attr space v s" for v
    using merge_regs_ok t(3) region_attr_eq [OF assms, of v] region_attr_eq [OF t(2) assms(2), of v] by metis
  then show ?thesis using t separate_merge by metis
qed

theorem vmm_merge_regions_refines_witness:
  "\<exists>t L'. vmm_merge_regions 0x100 vmm0 = Inr (1 - int (length L'), t) \<and> regions t L' = [area0] \<and>
     region_attr 0x100 0x401000 t = Some (VMM_READ OR VMM_WRITE OR VMM_USER, VMM_TYPE_ANON, VMM_ALLOC_LAZY, 0)"
proof -
  have n: "(0x100 :: u64) \<noteq> 0" by simp
  have r: "regions vmm0 areas0 = [area0]" by (simp add: area0_def)
  have "region_attr 0x100 0x401000 vmm0 = Some (VMM_READ OR VMM_WRITE OR VMM_USER, VMM_TYPE_ANON, VMM_ALLOC_LAZY, 0)"
    unfolding region_attr_eq [OF vmm0_regions n] r by (simp add: area0_def attr_def)
  then show ?thesis using vmm_merge_regions_refines [OF vmm0_regions n] r by auto
qed

text \<open>C34. Splitting is invisible and merging undoes it: when no two neighbours can be merged and a page is free,
  \<^verbatim>\<open>vmm_split_region\<close> at a page boundary inside a region returns 0 and changes the attributes of no address;
  \<^verbatim>\<open>vmm_merge_regions\<close> then merges one pair and leaves exactly the regions from before.\<close>

theorem vmm_split_merge_roundtrip:
  assumes ok: "regions_ok s space L" and "fresh_pages s L" and sp: "space \<noteq> 0" and sep: "separate (regions s L)"
    and a: "a \<in> set L" and "va_start (area_at s a) < ALIGN_DOWN v PAGE_SIZE" and "ALIGN_DOWN v PAGE_SIZE < va_end (area_at s a)"
    and "pmm_free_set s \<noteq> {}"
  shows "\<exists>t u L'. vmm_split_region space v s = Inr (0, t) \<and> (\<forall>w. region_attr space w t = region_attr space w s) \<and>
    vmm_merge_regions space t = Inr (1, u) \<and> regions_ok u space L' \<and> regions u L' = regions s L \<and>
    (\<forall>w. region_attr space w u = region_attr space w s)"
proof -
  obtain A B where L: "L = A @ a # B" using a by (meson split_list)
  obtain t n r1 r2 where t: "vmm_split_region space v s = Inr (0, t)" "regions_ok t space (A @ a # n # B)"
    "regions t (A @ a # n # B) = regions s A @ r1 # r2 # regions s B" "mergeable r1 r2" "r1\<lparr>va_end := va_end r2\<rparr> = (area_at s a)\<lparr>va_next := 0\<rparr>"
    using vmm_split_region_ok [OF ok assms(2) sp L assms(6-8)] by blast
  obtain u L' where u: "vmm_merge_regions space t = Inr (int (length (A @ a # n # B)) - int (length L'), u)" "regions_ok u space L'"
    "regions u L' = merge_regs (regions t (A @ a # n # B))" using vmm_merge_regions_ok [OF t(2) sp] by blast
  have r: "regions u L' = regions s L"
    using merge_split [OF t(4,5), of "regions s A" "regions s B"] sep u(3) t(3) L by simp
  then have len: "length L' = length L" by (metis regions_simps(3))
  have "regs_ok (regions t (A @ a # n # B))" using t(2) by (simp only: regions_ok_iff)
  then have "attrs (regions t (A @ a # n # B)) w = attrs (regions s L) w" for w using merge_regs_ok u(3) r by metis
  then have "region_attr space w t = region_attr space w s" for w
    using region_attr_eq [OF t(2) sp] region_attr_eq [OF ok sp] by metis
  moreover have "region_attr space w u = region_attr space w s" for w
    using region_attr_eq [OF u(2) sp] region_attr_eq [OF ok sp] r by metis
  ultimately show ?thesis using t(1) u(1,2) r len L by auto
qed

theorem vmm_split_merge_roundtrip_witness:
  "\<exists>t u L'. vmm_split_region 0x100 0x401234 vmm0 = Inr (0, t) \<and> vmm_merge_regions 0x100 t = Inr (1, u) \<and> regions u L' = [area0]"
proof -
  have h: "(0x100 :: u64) \<noteq> 0" "separate (regions vmm0 areas0)" "hhdm0 + 0x9000 \<in> set areas0"
    "va_start (area_at vmm0 (hhdm0 + 0x9000)) < ALIGN_DOWN 0x401234 PAGE_SIZE" "ALIGN_DOWN 0x401234 PAGE_SIZE < va_end (area_at vmm0 (hhdm0 + 0x9000))"
    "pmm_free_set vmm0 \<noteq> {}" by (simp_all add: vmm0_free_set area0_def ALIGN_DOWN_def)
  have "regions vmm0 areas0 = [area0]" by (simp add: area0_def)
  then show ?thesis using vmm_split_merge_roundtrip [OF vmm0_regions vmm0_fresh h] by auto
qed



end
