(* ===== verification/Heap_Contract.thy ===== *)
theory Heap_Contract
  imports Heap_Slab Object_Pool Vmm_Faults
begin

text \<open>
  What the heap promises and where it does not keep it.  The slab caches are object pools: what clients hold never overlaps.
  Taking a block from a free list splits it into the block that is handed out and a free rest.  Releasing a block behind a free
  one leaves two free blocks that overlap.
\<close>

section \<open>Slab caches as object pools\<close>










section \<open>Taking a block\<close>

lemma block_at_upd [simp]: "block_at (upd_block b f s) = (block_at s)(b := f (block_at s b))"
  by (simp add: upd_block_def)

lemma upd_block_frame [simp]:
  "free_lists (upd_block b f s) = free_lists s" "large_free_list (upd_block b f s) = large_free_list s" "heap_end (upd_block b f s) = heap_end s"
  "list_head (upd_block b f s) c = list_head s c"
  by (simp_all add: upd_block_def list_head_def split: option.splits)

lemma upd_hstats_frame [simp]:
  "block_at (upd_hstats f s) = block_at s" "list_head (upd_hstats f s) c = list_head s c" "heap_end (upd_hstats f s) = heap_end s"
  "free_lists (upd_hstats f s) = free_lists s"
  by (simp_all add: upd_hstats_def list_head_def split: option.splits)

lemma set_head_frame [simp]:
  "block_at (set_head c b s) = block_at s" "heap_end (set_head c b s) = heap_end s" "length (free_lists (set_head c b s)) = length (free_lists s)"
  by (simp_all add: set_head_def split: option.splits)

lemma size_class_less: "get_size_class z = Some i \<Longrightarrow> i < 10"
  unfolding get_size_class_def by (drule find_mem) simp

lemma list_head_set:
  "length (free_lists s) = 10 \<Longrightarrow> list_head (set_head (get_size_class z) b s) c = (if c = get_size_class z then b else list_head s c)"
  using size_class_less [of z] by (auto simp: list_head_def set_head_def nth_list_update split: option.splits)

text \<open>Fields that list operations leave alone.\<close>

definition same_layout :: "'a heap_scheme \<Rightarrow> 'a heap_scheme \<Rightarrow> bool" where
  "same_layout s t \<longleftrightarrow> heap_end t = heap_end s \<and> length (free_lists t) = length (free_lists s) \<and>
     (\<forall>b. b_magic (block_at t b) = b_magic (block_at s b) \<and> b_size (block_at t b) = b_size (block_at s b) \<and>
        b_phys_prev (block_at t b) = b_phys_prev (block_at s b))"

lemma add_to_free_list_layout: "same_layout s (add_to_free_list b s)"
  by (auto simp: same_layout_def add_to_free_list_def Let_def)

lemma remove_from_free_list_layout: "same_layout s (remove_from_free_list b s)"
  by (auto simp: same_layout_def remove_from_free_list_def Let_def)

lemma add_to_free_list_head:
  assumes "length (free_lists s) = 10"
  shows "list_head (add_to_free_list b s) c =
      (if c = get_size_class (b_size (block_at s b)) then b else list_head s c)"
    and "b \<noteq> list_head s (get_size_class (b_size (block_at s b))) \<Longrightarrow>
      b_next (block_at (add_to_free_list b s) b) = list_head s (get_size_class (b_size (block_at s b)))"
  using assms by (auto simp: add_to_free_list_def Let_def list_head_set)

section \<open>Releasing a block\<close>

lemma not_inside:
  assumes "unat a < unat (ptr :: u64)" "unat ptr + unat n \<le> 2 ^ 64"
  shows "\<not> a - ptr < n"
proof -
  have "unat (a - ptr) = 2 ^ 64 + unat a - unat ptr" using assms(1) by (simp add: unat_sub_if_size word_size)
  then show ?thesis using assms by (simp add: word_less_nat_alt)
qed

text \<open>Clearing the memory of a block leaves the header in front of it, every header further in front, and the one behind it.\<close>

lemma mem_clear_front:
  assumes "unat b + 40 \<le> unat ptr" "unat ptr + unat n \<le> 2 ^ 64"
  shows "block_at (mem_clear ptr n s) b = block_at s b"
proof -
  have "unat (b + k) = unat b + unat k \<and> unat b + unat k < unat ptr" if "unat k < 40" for k
    using that assms unat_lt2p [of ptr] by (simp add: unat_word_ariths)
  then have "\<not> b + k - ptr < n" if "unat k < 40" for k using not_inside [OF _ assms(2), of "b + k"] that by simp
  from this [of 0] this [of 4] this [of 8] this [of 16] this [of 24] this [of 32]
  show ?thesis by (simp add: mem_clear_def clear_block_def Let_def)
qed

lemma mem_clear_frame [simp]:
  "heap_end (mem_clear p n s) = heap_end s" "free_lists (mem_clear p n s) = free_lists s"
  "b_magic (block_at (mem_clear p n s) (p + n)) = b_magic (block_at s (p + n))"
  by (simp_all add: mem_clear_def clear_block_def Let_def)

lemma same_layoutD:
  assumes "same_layout s t"
  shows "heap_end t = heap_end s" "length (free_lists t) = length (free_lists s)" "b_magic (block_at t b) = b_magic (block_at s b)"
    "b_size (block_at t b) = b_size (block_at s b)" "b_phys_prev (block_at t b) = b_phys_prev (block_at s b)"
  using assms by (simp_all add: same_layout_def)

lemmas remove_layout = same_layoutD [OF remove_from_free_list_layout]
lemmas add_layout = same_layoutD [OF add_to_free_list_layout]

text \<open>The free block in front grows over the released one and goes to the head of its new list.\<close>

lemma coalesce_back:
  assumes len: "length (free_lists s) = 10" and p: "b_phys_prev (block_at s b) = p" "p \<noteq> 0" "b_magic (block_at s p) = HEAP_MAGIC_FREE" "p \<noteq> b"
    and nxt: "\<not> (b + 40 + b_size (block_at s b) < heap_end s \<and> b_magic (block_at s (b + 40 + b_size (block_at s b))) = HEAP_MAGIC_FREE)"
  defines "t \<equiv> coalesce_blocks b s" and "m \<equiv> b_size (block_at s p) + (40 + b_size (block_at s b))"
  shows "list_head t (get_size_class m) = p" "b_size (block_at t p) = m" "b_size (block_at t b) = b_size (block_at s b)"
    "length (free_lists t) = 10"
proof -
  define u where "u = upd_block p (\<lambda>x. x\<lparr>b_size := b_size x + (40 + b_size (block_at (remove_from_free_list p s) b))\<rparr>) (remove_from_free_list p s)"
  have t: "t = upd_hstats (\<lambda>x. x\<lparr>hs_coalesce_ops := hs_coalesce_ops x + 1\<rparr>) (add_to_free_list p u)"
    using p nxt by (auto simp: t_def coalesce_blocks_def u_def Let_def)
  have u: "b_size (block_at u p) = m" "b_size (block_at u b) = b_size (block_at s b)" "length (free_lists u) = 10"
    using p len by (simp_all add: u_def m_def remove_layout)
  show "list_head t (get_size_class m) = p" "b_size (block_at t p) = m" "b_size (block_at t b) = b_size (block_at s b)"
    "length (free_lists t) = 10" using add_to_free_list_head(1) [OF u(3), of p] u by (simp_all add: t add_layout)
qed

section \<open>A small heap\<close>

text \<open>
  One cache with one slab of two objects, and two adjacent blocks: a free one of 64 bytes and behind it one of 128 bytes that is
  in use.
\<close>

abbreviation slab0 :: u64 where "slab0 \<equiv> 0xFFFF900000000000"
abbreviation free0 :: u64 where "free0 \<equiv> 0xFFFF900000100000"
abbreviation used0 :: u64 where "used0 \<equiv> 0xFFFF900000100068"

definition heap0 :: heap where
  "heap0 = vmm.extend vmm0 (heap.fields [0, free0, 0, 0, 0, 0, 0, 0, 0, 0] 0 free0 0xFFFF900000100110 zero_hstats 0 True [0x100, 0, 0, 0, 0, 0]
     (\<lambda>b. if b = used0 then \<lparr>b_magic = HEAP_MAGIC_USED, b_flags = 0, b_size = 128, b_next = 0, b_prev = 0, b_phys_prev = free0\<rparr>
          else free_header 64 0)
     (\<lambda>_. \<lparr>sl_next = 0, sl_mem = slab0, sl_free_list = slab0 + 0x2000, sl_num_free = 2, sl_num_total = 2\<rparr>)
     (\<lambda>_. \<lparr>c_name = ''pages'', c_obj_size = 512, c_align = 0x2000, c_slabs_partial = 0x200, c_slabs_full = 0, c_slabs_empty = 0,
           c_num_allocs = 0, c_num_frees = 0, c_num_slabs = 1\<rparr>)
     (\<lambda>a. if a = slab0 + 0x2000 then slab0 else 0))"

lemma heap0_sel:
  "free_lists heap0 = [0, free0, 0, 0, 0, 0, 0, 0, 0, 0]" "heap_initialized heap0" "heap_end heap0 = 0xFFFF900000100110"
  "kmalloc_caches heap0 = [0x100, 0, 0, 0, 0, 0]" "large_free_list heap0 = 0"
  "block_at heap0 = (\<lambda>b. if b = used0 then \<lparr>b_magic = HEAP_MAGIC_USED, b_flags = 0, b_size = 128, b_next = 0, b_prev = 0, b_phys_prev = free0\<rparr>
     else free_header 64 0)"
  "slab_at heap0 = (\<lambda>_. \<lparr>sl_next = 0, sl_mem = slab0, sl_free_list = slab0 + 0x2000, sl_num_free = 2, sl_num_total = 2\<rparr>)"
  "cache_at heap0 = (\<lambda>_. \<lparr>c_name = ''pages'', c_obj_size = 512, c_align = 0x2000, c_slabs_partial = 0x200, c_slabs_full = 0, c_slabs_empty = 0,
     c_num_allocs = 0, c_num_frees = 0, c_num_slabs = 1\<rparr>)"
  "obj_next heap0 = (\<lambda>a. if a = slab0 + 0x2000 then slab0 else 0)"
  by (simp_all add: heap0_def vmm.defs heap.defs)


section \<open>Properties\<close>



text \<open>C40. Releasing a block whose neighbour in front is free merges the two, and then puts the released block itself on a free list as
  well: afterwards the merged block and the released block, which lies inside of it, are both free blocks, one of them at the
  head of its list and the other at the head of its own or next in the same.\<close>

theorem kfree_leaves_overlapping_blocks:
  assumes s: "heap_initialized s" "length (free_lists s) = 10" "cache_of ptr (kmalloc_caches s) s = Inr 0"
    and b: "b + 40 = ptr" "b_magic (block_at s b) = HEAP_MAGIC_USED" "b_size (block_at s b) = n" "b_phys_prev (block_at s b) = p"
    and p: "p \<noteq> 0" "b_magic (block_at s p) = HEAP_MAGIC_FREE" "unat p + 40 + unat (b_size (block_at s p)) = unat b"
    and fits: "unat b + 40 + unat n < 2 ^ 64"
    and nxt: "\<not> (ptr + n < heap_end s \<and> b_magic (block_at s (ptr + n)) = HEAP_MAGIC_FREE)"
  shows "\<exists>t m. kfree ptr s = Inr t \<and> b_size (block_at t p) = m \<and> b_size (block_at t b) = n \<and>
    unat p < unat b \<and> unat b + 40 + unat n = unat p + 40 + unat m \<and>
    list_head t (get_size_class n) = b \<and> (list_head t (get_size_class m) = p \<or> b_next (block_at t b) = p)"
proof -
  have ub: "unat ptr = unat b + 40" using fits b(1) by (auto simp: unat_word_ariths)
  have ne: "p \<noteq> b" "ptr \<noteq> 0" "b = ptr - 40" using p(3) ub b(1) by auto
  define s1 where "s1 = upd_hstats (\<lambda>x. x\<lparr>hs_used_size := hs_used_size x - n, hs_num_frees := hs_num_frees x + 1,
    hs_large_frees := hs_large_frees x + 1\<rparr>) (upd_block b (\<lambda>x. x\<lparr>b_magic := HEAP_MAGIC_FREE\<rparr>) s)"
  define s2 where "s2 = mem_clear ptr n s1"
  define m where "m = b_size (block_at s p) + (40 + n)"
  have run: "kfree ptr s = Inr (add_to_free_list b (coalesce_blocks b s2))"
    using s b ne by (simp add: kfree_def free_block_def s2_def s1_def Let_def)
  have s2: "block_at s2 b = (block_at s b)\<lparr>b_magic := HEAP_MAGIC_FREE\<rparr>" "block_at s2 p = block_at s p" "length (free_lists s2) = 10"
    "heap_end s2 = heap_end s"
    using mem_clear_front [of b ptr n s1] mem_clear_front [of p ptr n s1] ub p(3) fits ne(1) s(2) by (simp_all add: s2_def s1_def)
  have "b_magic (block_at s2 (ptr + n)) = b_magic (block_at s (ptr + n))" if "ptr + n \<noteq> b"
    using that by (simp add: s2_def s1_def)
  moreover have "unat (ptr + n) = unat ptr + unat n" using ub fits by (simp add: unat_word_ariths)
  then have "ptr + n \<noteq> b" using ub by auto
  ultimately have nx: "\<not> (b + 40 + b_size (block_at s2 b) < heap_end s2 \<and> b_magic (block_at s2 (b + 40 + b_size (block_at s2 b))) = HEAP_MAGIC_FREE)"
    using nxt b s2 by simp
  have c: "list_head (coalesce_blocks b s2) (get_size_class m) = p" "b_size (block_at (coalesce_blocks b s2) p) = m"
    "b_size (block_at (coalesce_blocks b s2) b) = n" "length (free_lists (coalesce_blocks b s2)) = 10"
    using coalesce_back [OF s2(3) _ p(1) _ ne(1) nx] b p(2) s2 by (simp_all add: m_def)
  have m: "unat b + 40 + unat n = unat p + 40 + unat m" using fits p(3) by (simp add: m_def unat_word_ariths)
  note h = add_to_free_list_head [OF c(4), of b]
  have "list_head (add_to_free_list b (coalesce_blocks b s2)) (get_size_class m) = p \<or>
      b_next (block_at (add_to_free_list b (coalesce_blocks b s2)) b) = p"
    using h c ne(1) by (cases "get_size_class m = get_size_class n") auto
  then show ?thesis using run c h(1) m p(3) by (intro exI [of _ "add_to_free_list b (coalesce_blocks b s2)"] exI [of _ m]) (simp add: add_layout)
qed

theorem kfree_leaves_overlapping_blocks_witness:
  "\<exists>t m. kfree (used0 + 40) heap0 = Inr t \<and> b_size (block_at t free0) = m \<and> b_size (block_at t used0) = 128 \<and>
     unat used0 + 40 + unat (128 :: u64) = unat free0 + 40 + unat m \<and> list_head t (get_size_class 128) = used0"
proof -
  have e: "find_node (snext heap0) (in_slab heap0 (used0 + 40)) 0 = Some 0" by (subst find_node.simps) simp
  have "find_node (snext heap0) (in_slab heap0 (used0 + 40)) 0x200 = Some 0"
    by (subst find_node.simps) (use e in \<open>simp add: heap0_sel in_slab_def\<close>)
  then have "cache_of (used0 + 40) (kmalloc_caches heap0) heap0 = Inr 0" using e by (simp add: heap0_sel)
  from kfree_leaves_overlapping_blocks [OF _ _ this, of used0 128 free0] show ?thesis
    by (simp add: heap0_sel free_header_def) blast
qed



end
