(* ===== verification/Printk.thy ===== *)
theory Printk
  imports Kernel_Prelude "HOL-Library.Char_ord"
begin

text \<open>
  Formatted output, \<^verbatim>\<open>src/src/kernel/video/printk.c\<close>.

  A format string is the list of its characters without the terminator; the end of the list is where the code reads the
  terminator.  A variable argument is a 64-bit register or a string pointer (\<open>None\<close> for NULL).  A run that reads past the
  end of the format string, that takes an argument of the wrong kind or one that was not passed, or that overruns the
  temporary of \<^verbatim>\<open>uitoa\<close>, or in which an \<^verbatim>\<open>int\<close> overflows, has no result (\<open>None\<close>).  The width and the total only
  grow, so that it is enough to compare them with \<open>int_bound\<close>, the first number that is no \<^verbatim>\<open>int\<close>, once they are complete.
\<close>

section \<open>Numbers\<close>

definition int_bound :: nat where
  "int_bound = 2 ^ 31"

datatype fmt_arg = Arg_Int u64 | Arg_Str "string option"

partial_function (option) uitoa_loop :: "string \<Rightarrow> u64 \<Rightarrow> u64 \<Rightarrow> string \<Rightarrow> string option" where
  "uitoa_loop digits base num tmp =
     (if num \<noteq> 0
      then if length tmp < 32 then uitoa_loop digits base (num div base) (digits ! unat (num mod base) # tmp) else None
      else Some tmp)"

text \<open>The digits are written to \<open>tmp\<close> from the last to the first and copied backwards; here \<open>tmp\<close> grows at its head.\<close>

definition uitoa :: "u64 \<Rightarrow> u64 \<Rightarrow> bool \<Rightarrow> string option" where
  "uitoa num base uppercase =
     (let digits = (if uppercase then ''0123456789ABCDEF'' else ''0123456789abcdef'')
      in if num = 0 then Some ''0'' else uitoa_loop digits base num [])"

definition itoa :: "u64 \<Rightarrow> string option" where
  "itoa num =
     (if sint num < 0 then map_option (\<lambda>s. CHR ''-'' # s) (uitoa (- num) 10 False) else uitoa num 10 False)"

section \<open>Directives\<close>

record spec =
  zero_pad :: bool
  left_align :: bool
  f_width :: nat
  long_mode :: bool
  longlong_mode :: bool

fun parse_flags :: "spec \<Rightarrow> string \<Rightarrow> spec \<times> string" where
  "parse_flags sp (c # fmt) =
     (if c = CHR ''0'' then parse_flags (sp\<lparr>zero_pad := True\<rparr>) fmt
      else if c = CHR ''-'' then parse_flags (sp\<lparr>left_align := True\<rparr>) fmt
      else (sp, c # fmt))"
| "parse_flags sp [] = (sp, [])"

fun parse_width :: "spec \<Rightarrow> string \<Rightarrow> spec \<times> string" where
  "parse_width sp (c # fmt) =
     (if CHR ''0'' \<le> c \<and> c \<le> CHR ''9''
      then parse_width (sp\<lparr>f_width := f_width sp * 10 + (of_char c - of_char CHR ''0'')\<rparr>) fmt
      else (sp, c # fmt))"
| "parse_width sp [] = (sp, [])"

definition parse_length :: "spec \<Rightarrow> string \<Rightarrow> spec \<times> string" where
  "parse_length sp fmt =
     (if take 2 fmt = ''ll'' then (sp\<lparr>long_mode := True, longlong_mode := True\<rparr>, drop 2 fmt)
      else if take 1 fmt = ''l'' \<or> take 1 fmt = ''z'' then (sp\<lparr>long_mode := True\<rparr>, drop 1 fmt)
      else (sp, fmt))"

definition parse_spec :: "string \<Rightarrow> spec \<times> string" where
  "parse_spec fmt =
     (let (sp, fmt) = parse_flags \<lparr>zero_pad = False, left_align = False, f_width = 0, long_mode = False, longlong_mode = False\<rparr> fmt;
          (sp, fmt) = parse_width sp fmt
      in parse_length sp fmt)"

text \<open>What \<^verbatim>\<open>va_arg\<close> makes of a register for the length that was asked for.\<close>

definition signed_arg :: "spec \<Rightarrow> u64 \<Rightarrow> u64" where
  "signed_arg sp v = (if longlong_mode sp \<or> long_mode sp then v else scast (ucast v :: u32))"

definition unsigned_arg :: "spec \<Rightarrow> u64 \<Rightarrow> u64" where
  "unsigned_arg sp v = (if longlong_mode sp \<or> long_mode sp then v else ucast (ucast v :: u32))"

section \<open>Output to a buffer\<close>

record out =
  o_buf :: string
  o_pos :: nat
  o_total :: nat

definition emit :: "nat \<Rightarrow> char \<Rightarrow> out \<Rightarrow> out" where
  "emit max_pos c o1 =
     \<lparr>o_buf = (if o_pos o1 < max_pos then (o_buf o1)[o_pos o1 := c] else o_buf o1), o_pos = o_pos o1 + 1, o_total = o_total o1 + 1\<rparr>"

definition emit_literal :: "nat \<Rightarrow> char \<Rightarrow> out \<Rightarrow> out" where
  "emit_literal max_pos c o1 =
     (if o_pos o1 < max_pos
      then \<lparr>o_buf = (o_buf o1)[o_pos o1 := c], o_pos = o_pos o1 + 1, o_total = o_total o1 + 1\<rparr>
      else o1\<lparr>o_total := o_total o1 + 1\<rparr>)"

definition emits :: "nat \<Rightarrow> string \<Rightarrow> out \<Rightarrow> out" where
  "emits max_pos s o1 = fold (emit max_pos) s o1"

definition emit_padded :: "nat \<Rightarrow> spec \<Rightarrow> char \<Rightarrow> string \<Rightarrow> out \<Rightarrow> out" where
  "emit_padded max_pos sp pad_char s o1 =
     (let len = length s;
          o1 = (if \<not> left_align sp \<and> f_width sp > len then emits max_pos (replicate (f_width sp - len) pad_char) o1 else o1);
          o1 = emits max_pos s o1
      in if left_align sp \<and> f_width sp > len then emits max_pos (replicate (f_width sp - len) CHR '' '') o1 else o1)"

text \<open>The arguments that \<^verbatim>\<open>va_arg\<close> takes.\<close>

definition take_int :: "fmt_arg list \<Rightarrow> (u64 \<times> fmt_arg list) option" where
  "take_int args = (case args of Arg_Int v # args \<Rightarrow> Some (v, args) | _ \<Rightarrow> None)"

definition take_str :: "fmt_arg list \<Rightarrow> (string option \<times> fmt_arg list) option" where
  "take_str args = (case args of Arg_Str p # args \<Rightarrow> Some (p, args) | _ \<Rightarrow> None)"

definition number_pad :: "spec \<Rightarrow> char" where
  "number_pad sp = (if zero_pad sp then CHR ''0'' else CHR '' '')"

definition directive :: "nat \<Rightarrow> spec \<Rightarrow> char \<Rightarrow> fmt_arg list \<Rightarrow> out \<Rightarrow> (out \<times> fmt_arg list) option" where
  "directive max_pos sp c args o1 =
     (if c = CHR ''s'' then
        Option.bind (take_str args) (\<lambda>(p, args).
          let s = (case p of None \<Rightarrow> ''(null)'' | Some s \<Rightarrow> s)
          in Some (emit_padded max_pos sp CHR '' '' s o1, args))
      else if c = CHR ''d'' \<or> c = CHR ''i'' then
        Option.bind (take_int args) (\<lambda>(v, args).
          Option.bind (itoa (signed_arg sp v)) (\<lambda>tmp. Some (emit_padded max_pos sp (number_pad sp) tmp o1, args)))
      else if c = CHR ''u'' then
        Option.bind (take_int args) (\<lambda>(v, args).
          Option.bind (uitoa (unsigned_arg sp v) 10 False) (\<lambda>tmp. Some (emit_padded max_pos sp (number_pad sp) tmp o1, args)))
      else if c = CHR ''x'' \<or> c = CHR ''X'' then
        Option.bind (take_int args) (\<lambda>(v, args).
          Option.bind (uitoa (unsigned_arg sp v) 16 (c = CHR ''X'')) (\<lambda>tmp. Some (emit_padded max_pos sp (number_pad sp) tmp o1, args)))
      else if c = CHR ''p'' then
        Option.bind (take_int args) (\<lambda>(v, args).
          let o1 = emit max_pos CHR ''x'' (emit max_pos CHR ''0'' o1)
          in Option.bind (uitoa v 16 False) (\<lambda>tmp.
               Some (emits max_pos tmp (emits max_pos (replicate (16 - length tmp) CHR ''0'') o1), args)))
      else if c = CHR ''c'' then
        Option.bind (take_int args) (\<lambda>(v, args). Some (emit max_pos (char_of (unat (ucast v :: u8))) o1, args))
      else if c = CHR ''%'' then Some (emit max_pos CHR ''%'' o1, args)
      else Some (emit max_pos c (emit max_pos CHR ''%'' o1), args))"

lemma parse_flags_length: "length (snd (parse_flags sp fmt)) \<le> length fmt"
  by (induction sp fmt rule: parse_flags.induct) auto

lemma parse_width_length: "length (snd (parse_width sp fmt)) \<le> length fmt"
  by (induction sp fmt rule: parse_width.induct) (auto simp: le_SucI)

lemma parse_spec_length: "parse_spec fmt = (sp, rest) \<Longrightarrow> length rest \<le> length fmt"
proof -
  assume p: "parse_spec fmt = (sp, rest)"
  define s0 where "s0 = \<lparr>zero_pad = False, left_align = False, f_width = 0, long_mode = False, longlong_mode = False\<rparr>"
  obtain s1 f1 where 1: "parse_flags s0 fmt = (s1, f1)" by fastforce
  obtain s2 f2 where 2: "parse_width s1 f1 = (s2, f2)" by fastforce
  have "length f1 \<le> length fmt" "length f2 \<le> length f1"
    using parse_flags_length [of s0 fmt] parse_width_length [of s1 f1] 1 2 by simp_all
  moreover have "length rest \<le> length f2" using p 1 2 by (auto simp: parse_spec_def s0_def [symmetric] parse_length_def split: if_splits)
  ultimately show ?thesis by simp
qed

section \<open>The formatter\<close>

text \<open>At the end of the format string after a \<^verbatim>\<open>%\<close> the code copies the terminator and goes on behind it.\<close>

function format_loop :: "nat \<Rightarrow> string \<Rightarrow> fmt_arg list \<Rightarrow> out \<Rightarrow> out option" where
  "format_loop max_pos [] args o1 = Some o1"
| "format_loop max_pos (c # fmt) args o1 =
     (if c \<noteq> CHR ''%'' then format_loop max_pos fmt args (emit_literal max_pos c o1)
      else case parse_spec fmt of
             (sp, []) \<Rightarrow> None
           | (sp, c # fmt) \<Rightarrow>
               if f_width sp < int_bound
               then Option.bind (directive max_pos sp c args o1) (\<lambda>(o1, args). format_loop max_pos fmt args o1)
               else None)"
  by pat_completeness auto

termination format_loop
  by (relation "measure (\<lambda>(_, fmt, _, _). length fmt)") (auto dest: parse_spec_length parse_spec_length [OF sym])

text \<open>The result is the buffer and the number of characters of the whole text.\<close>

definition vsnprintk :: "string option \<Rightarrow> nat \<Rightarrow> string \<Rightarrow> fmt_arg list \<Rightarrow> (string option \<times> nat) option" where
  "vsnprintk buf sz fmt args =
     (case buf of
        None \<Rightarrow> Some (None, 0)
      | Some b \<Rightarrow>
          if sz = 0 then Some (Some b, 0)
          else
            let max_pos = sz - 1
            in Option.bind (format_loop max_pos fmt args \<lparr>o_buf = b, o_pos = 0, o_total = 0\<rparr>) (\<lambda>o1.
                 if o_total o1 < int_bound
                 then Some (Some (if o_pos o1 < sz then (o_buf o1)[o_pos o1 := char_of (0 :: nat)] else (o_buf o1)[max_pos := char_of (0 :: nat)]),
                            o_total o1)
                 else None))"

definition snprintk :: "string option \<Rightarrow> nat \<Rightarrow> string \<Rightarrow> fmt_arg list \<Rightarrow> (string option \<times> nat) option" where
  "snprintk buf sz fmt args = vsnprintk buf sz fmt args"

section \<open>Output to the terminal\<close>

text \<open>
  The terminal is the list of the calls of \<^verbatim>\<open>flanterm_write\<close> and \<^verbatim>\<open>flanterm_flush\<close>, in order; all of them are made under
  \<^verbatim>\<open>printk_lock\<close>, so that no other call comes between.  \<open>p_reads\<close> counts the readings of the clock,
  and \<open>clock\<close> is what they return.  \<open>garbage\<close> is the uninitialised buffer on the stack.
\<close>

datatype term_call = Term_Write string | Term_Flush

record printk_state =
  column_position :: nat
  written :: "term_call list"
  p_reads :: nat

record line_out =
  outbuf :: string
  p_total :: nat

definition flush_full :: "line_out \<times> printk_state \<Rightarrow> line_out \<times> printk_state" where
  "flush_full x =
     (case x of (l, s) \<Rightarrow>
        if length (outbuf l) = 256
        then (\<lparr>outbuf = [], p_total = p_total l + 256\<rparr>, s\<lparr>written := written s @ [Term_Write (outbuf l)]\<rparr>)
        else (l, s))"

definition print_space :: "line_out \<times> printk_state \<Rightarrow> line_out \<times> printk_state" where
  "print_space x =
     (case x of (l, s) \<Rightarrow>
        flush_full (l\<lparr>outbuf := outbuf l @ '' ''\<rparr>, s\<lparr>column_position := column_position s + 1\<rparr>))"

definition timestamp :: "(nat \<Rightarrow> u64) \<Rightarrow> string \<Rightarrow> line_out \<times> printk_state \<Rightarrow> (line_out \<times> printk_state) option" where
  "timestamp clock garbage x =
     (case x of (l, s) \<Rightarrow>
        let ns = clock (p_reads s);
            sec = ns div 1000000000;
            usec = (ns mod 1000000000) div 1000
        in Option.bind (snprintk (Some (take 32 garbage)) 32 ''[%5llu.%06llu] '' [Arg_Int sec, Arg_Int usec]) (\<lambda>(ts, tslen).
             Some (l\<lparr>p_total := p_total l + tslen\<rparr>,
                   s\<lparr>written := written s @ [Term_Write (take tslen (the ts))], column_position := column_position s + tslen, p_reads := p_reads s + 1\<rparr>)))"

definition print_char :: "(nat \<Rightarrow> u64) \<Rightarrow> string \<Rightarrow> bool \<Rightarrow> char \<Rightarrow> line_out \<times> printk_state \<Rightarrow> (line_out \<times> printk_state) option" where
  "print_char clock garbage with_timestamp c x =
     Option.bind (if with_timestamp \<and> column_position (snd x) = 0 then timestamp clock garbage x else Some x) (\<lambda>x.
       if c = CHR 0x09 then
         let next_stop = (column_position (snd x) div 8 + 1) * 8
         in Some ((print_space ^^ (next_stop - column_position (snd x))) x)
       else
         case x of (l, s) \<Rightarrow>
           let l = l\<lparr>outbuf := outbuf l @ [c]\<rparr>;
               s = s\<lparr>column_position := column_position s + 1\<rparr>;
               s = (if c = CHR 0x0A then s\<lparr>column_position := 0\<rparr> else s)
           in Some (flush_full (l, s)))"

fun print_chars :: "(nat \<Rightarrow> u64) \<Rightarrow> string \<Rightarrow> bool \<Rightarrow> string \<Rightarrow> line_out \<times> printk_state \<Rightarrow> (line_out \<times> printk_state) option" where
  "print_chars clock garbage with_timestamp [] x = Some x"
| "print_chars clock garbage with_timestamp (c # cs) x =
     Option.bind (print_char clock garbage with_timestamp c x) (print_chars clock garbage with_timestamp cs)"

definition vprintk_internal ::
  "(nat \<Rightarrow> u64) \<Rightarrow> string \<Rightarrow> bool \<Rightarrow> string \<Rightarrow> fmt_arg list \<Rightarrow> bool \<Rightarrow> printk_state \<Rightarrow> (nat \<times> printk_state) option" where
  "vprintk_internal clock garbage has_terminal fmt args with_timestamp s =
     (if \<not> has_terminal then Some (0, s)
      else Option.bind (vsnprintk (Some (take 1024 garbage)) 1024 fmt args) (\<lambda>(fmtbuf, len).
        let len = (if len > 1024 then 1024 else len)
        in Option.bind (print_chars clock garbage with_timestamp (take len (the fmtbuf)) (\<lparr>outbuf = [], p_total = 0\<rparr>, s)) (\<lambda>(l, s).
             let (total, s) = (if length (outbuf l) > 0
                               then (p_total l + length (outbuf l), s\<lparr>written := written s @ [Term_Write (outbuf l)]\<rparr>)
                               else (p_total l, s))
             in Some (total, s\<lparr>written := written s @ [Term_Flush]\<rparr>))))"

definition vprintk :: "(nat \<Rightarrow> u64) \<Rightarrow> string \<Rightarrow> bool \<Rightarrow> string \<Rightarrow> fmt_arg list \<Rightarrow> printk_state \<Rightarrow> (nat \<times> printk_state) option" where
  "vprintk clock garbage has_terminal fmt args s = vprintk_internal clock garbage has_terminal fmt args False s"

definition printk :: "(nat \<Rightarrow> u64) \<Rightarrow> string \<Rightarrow> bool \<Rightarrow> string \<Rightarrow> fmt_arg list \<Rightarrow> printk_state \<Rightarrow> (nat \<times> printk_state) option" where
  "printk clock garbage has_terminal fmt args s = vprintk clock garbage has_terminal fmt args s"

definition vprintk_ts :: "(nat \<Rightarrow> u64) \<Rightarrow> string \<Rightarrow> bool \<Rightarrow> string \<Rightarrow> fmt_arg list \<Rightarrow> printk_state \<Rightarrow> (nat \<times> printk_state) option" where
  "vprintk_ts clock garbage has_terminal fmt args s = vprintk_internal clock garbage has_terminal fmt args True s"

definition printk_ts :: "(nat \<Rightarrow> u64) \<Rightarrow> string \<Rightarrow> bool \<Rightarrow> string \<Rightarrow> fmt_arg list \<Rightarrow> printk_state \<Rightarrow> (nat \<times> printk_state) option" where
  "printk_ts clock garbage has_terminal fmt args s = vprintk_ts clock garbage has_terminal fmt args s"

end
