(* ===== verification/Printk_Contract.thy ===== *)
theory Printk_Contract
  imports Printk "HOL-Library.Sublist"
begin

text \<open>
  What formatted output promises.  A format string is read as a list of items; the items say which kinds of argument are
  taken, and give the text as one string.  The formatter has a result exactly for the arguments of the right kinds, and
  what it leaves in the buffer is that text, cut off at the size of the buffer and terminated.
\<close>

section \<open>Numerals\<close>

definition digit :: "bool \<Rightarrow> nat \<Rightarrow> char" where
  "digit up n = (if up then ''0123456789ABCDEF'' else ''0123456789abcdef'') ! n"

fun nat_text :: "nat \<Rightarrow> bool \<Rightarrow> nat \<Rightarrow> string" where
  "nat_text b up n = (if b < 2 \<or> n < b then [digit up n] else nat_text b up (n div b) @ [digit up (n mod b)])"

declare nat_text.simps [simp del]

definition int_text :: "int \<Rightarrow> string" where
  "int_text i = (if i < 0 then CHR ''-'' # nat_text 10 False (nat (- i)) else nat_text 10 False (nat i))"

lemma nat_text_length: "n < b ^ k \<Longrightarrow> 0 < k \<Longrightarrow> 2 \<le> b \<Longrightarrow> length (nat_text b up n) \<le> k"
proof (induction b up n arbitrary: k rule: nat_text.induct)
  case (1 b up n)
  show ?case
  proof (cases "n < b")
    case False
    then obtain j where k: "k = Suc j" "0 < j" using 1 by (cases k; cases "k - 1"; simp)
    have "n div b < b ^ j" using 1(2,4) k by (simp add: less_mult_imp_div_less mult.commute)
    then show ?thesis using 1(1) [of j] 1(4) False k by (simp add: nat_text.simps [of b up n])
  qed (use 1 in \<open>simp add: nat_text.simps\<close>)
qed

lemma u64_text_length: "10 \<le> b \<Longrightarrow> length (nat_text b up (unat (v :: u64))) \<le> 20"
proof (rule nat_text_length)
  assume b: "10 \<le> b"
  have "unat v < 2 ^ 64" using unsigned_less [of v] by simp
  also have "(2 :: nat) ^ 64 \<le> 10 ^ 20" by simp
  also have "\<dots> \<le> b ^ 20" by (rule power_mono) (use b in simp_all)
  finally show "unat v < b ^ 20" .
qed simp_all

lemma uitoa_loop_text:
  assumes b: "2 \<le> unat base" and d: "digits = (if up then ''0123456789ABCDEF'' else ''0123456789abcdef'')"
  shows "num \<noteq> 0 \<Longrightarrow> length (nat_text (unat base) up (unat num)) + length tmp \<le> 32
    \<Longrightarrow> uitoa_loop digits base num tmp = Some (nat_text (unat base) up (unat num) @ tmp)"
proof (induction "unat num" arbitrary: num tmp rule: less_induct)
  case less
  let ?q = "num div base"
  have q: "unat ?q = unat num div unat base" "unat (num mod base) = unat num mod unat base"
    by (simp_all add: unat_div unat_mod)
  have l: "length tmp < 32" using less.prems(2) by (simp add: nat_text.simps [of _ _ "unat num"] split: if_splits)
  have step: "uitoa_loop digits base num tmp = uitoa_loop digits base ?q (digit up (unat num mod unat base) # tmp)"
    using less.prems(1) l by (simp add: uitoa_loop.simps [of _ _ num] q digit_def d)
  show ?case
  proof (cases "unat num < unat base")
    case True
    then have "?q = 0" using q(1) by (simp add: unat_eq_zero)
    then show ?thesis using True by (simp add: step uitoa_loop.simps [of _ _ 0] nat_text.simps [of _ _ "unat num"])
  next
    case False
    have n: "0 < unat num" using less.prems(1) by (simp add: unat_gt_0)
    have lt: "unat ?q < unat num" using q(1) b n by simp
    have nz: "?q \<noteq> 0"
    proof
      assume "?q = 0"
      then have "unat num div unat base = 0" using q(1) by simp
      then show False using False b by (simp add: div_eq_0_iff)
    qed
    show ?thesis using less.hyps [OF lt nz] less.prems(2) False b
      by (simp add: step q nat_text.simps [of _ _ "unat num"])
  qed
qed

lemma uitoa_text: "10 \<le> unat base \<Longrightarrow> uitoa num base up = Some (nat_text (unat base) up (unat num))"
proof (cases "num = 0")
  case True
  assume "10 \<le> unat base"
  then show ?thesis using True by (simp add: uitoa_def nat_text.simps digit_def)
next
  case False
  assume b: "10 \<le> unat base"
  show ?thesis using uitoa_loop_text [OF _ refl False, of base up "[]"] u64_text_length [OF b, of up num] b False
    by (simp add: uitoa_def Let_def)
qed

text \<open>Negating the least number gives itself, which read as unsigned is its magnitude.\<close>

lemma unat_neg: "sint (v :: u64) < 0 \<Longrightarrow> unat (- v) = nat (- sint v)"
proof -
  assume "sint v < 0"
  moreover have "- (2 ^ 63) \<le> sint v" using sint_ge [of v] by simp
  moreover have "uint (- v) = (- sint v) mod 2 ^ 64"
  proof -
    have "uint (word_of_int (- sint v) :: u64) = (- sint v) mod 2 ^ 64" by (simp only: uint_word_of_int) simp
    then show ?thesis by simp
  qed
  ultimately have "uint (- v) = - sint v" by (simp add: mod_pos_pos_trivial)
  then show ?thesis by (metis nat_uint_eq)
qed

lemma unat_pos: "\<not> sint (v :: u64) < 0 \<Longrightarrow> unat v = nat (sint v)"
proof -
  assume "\<not> sint v < 0"
  moreover have "sint v < 2 ^ 63" using sint_less [of v] by simp
  moreover have "uint v = sint v mod 2 ^ 64"
  proof -
    have "uint (word_of_int (sint v) :: u64) = sint v mod 2 ^ 64" by (simp only: uint_word_of_int) simp
    then show ?thesis by simp
  qed
  ultimately have "uint v = sint v" by (simp add: mod_pos_pos_trivial)
  then show ?thesis by (metis nat_uint_eq)
qed

lemma itoa_text: "itoa v = Some (int_text (sint v))"
proof -
  have "uitoa u 10 False = Some (nat_text 10 False (unat u))" for u :: u64 using uitoa_text [of 10 u False] by simp
  then show ?thesis by (simp add: itoa_def int_text_def unat_neg unat_pos)
qed

section \<open>Format strings\<close>

datatype item = Literal char | Conversion spec char

datatype arg_kind = Ty_Int | Ty_Str

function items :: "string \<Rightarrow> item list option" where
  "items [] = Some []"
| "items (c # fmt) =
     (if c \<noteq> CHR ''%'' then map_option ((#) (Literal c)) (items fmt)
      else case parse_spec fmt of
             (sp, []) \<Rightarrow> None
           | (sp, c # fmt) \<Rightarrow> if f_width sp < int_bound then map_option ((#) (Conversion sp c)) (items fmt) else None)"
  by pat_completeness auto

termination items
  by (relation "measure length") (auto dest: parse_spec_length parse_spec_length [OF sym])


fun item_types :: "item \<Rightarrow> arg_kind list" where
  "item_types (Literal _) = []"
| "item_types (Conversion _ c) = (if c = CHR ''s'' then [Ty_Str] else if c \<in> set ''diuxXpc'' then [Ty_Int] else [])"


definition signed_value :: "spec \<Rightarrow> u64 \<Rightarrow> int" where
  "signed_value sp v = (if long_mode sp \<or> longlong_mode sp then sint v else sint (ucast v :: u32))"

definition unsigned_value :: "spec \<Rightarrow> u64 \<Rightarrow> nat" where
  "unsigned_value sp v = (if long_mode sp \<or> longlong_mode sp then unat v else unat v mod 2 ^ 32)"

definition padded :: "spec \<Rightarrow> char \<Rightarrow> string \<Rightarrow> string" where
  "padded sp c s =
     (if left_align sp then s @ replicate (f_width sp - length s) CHR '' '' else replicate (f_width sp - length s) c @ s)"

fun int_conversion :: "spec \<Rightarrow> char \<Rightarrow> u64 \<Rightarrow> string" where
  "int_conversion sp c v =
     (if c \<in> set ''di'' then padded sp (number_pad sp) (int_text (signed_value sp v))
      else if c = CHR ''u'' then padded sp (number_pad sp) (nat_text 10 False (unsigned_value sp v))
      else if c \<in> set ''xX'' then padded sp (number_pad sp) (nat_text 16 (c = CHR ''X'') (unsigned_value sp v))
      else if c = CHR ''p'' then ''0x'' @ replicate (16 - length (nat_text 16 False (unat v))) CHR ''0'' @ nat_text 16 False (unat v)
      else [char_of (unat v mod 2 ^ 8)])"

fun str_conversion :: "spec \<Rightarrow> string option \<Rightarrow> string" where
  "str_conversion sp p = padded sp CHR '' '' (case p of None \<Rightarrow> ''(null)'' | Some s \<Rightarrow> s)"

fun conversion :: "spec \<Rightarrow> char \<Rightarrow> fmt_arg list \<Rightarrow> (string \<times> fmt_arg list) option" where
  "conversion sp c args =
     (case item_types (Conversion sp c) of
        [] \<Rightarrow> Some (if c = CHR ''%'' then ''%'' else [CHR ''%'', c], args)
      | [Ty_Int] \<Rightarrow> (case args of Arg_Int v # args \<Rightarrow> Some (int_conversion sp c v, args) | _ \<Rightarrow> None)
      | _ \<Rightarrow> (case args of Arg_Str p # args \<Rightarrow> Some (str_conversion sp p, args) | _ \<Rightarrow> None))"

fun text_of :: "item list \<Rightarrow> fmt_arg list \<Rightarrow> string option" where
  "text_of [] args = Some []"
| "text_of (Literal c # its) args = map_option ((#) c) (text_of its args)"
| "text_of (Conversion sp c # its) args =
     (case conversion sp c args of None \<Rightarrow> None | Some (s, args) \<Rightarrow> map_option ((@) s) (text_of its args))"

definition format_text :: "string \<Rightarrow> fmt_arg list \<Rightarrow> string option" where
  "format_text fmt args = (case items fmt of None \<Rightarrow> None | Some its \<Rightarrow> text_of its args)"


section \<open>The buffer\<close>

text \<open>
  \<open>wrote m b s o1\<close>: after the text \<open>s\<close> the buffer that was \<open>b\<close> holds the part of \<open>s\<close> that fits into \<open>m\<close> characters.  The position
  is the length of \<open>s\<close> as long as that fits, and anything from \<open>m\<close> on after that, since literal characters do not advance
  it there and conversions do.
\<close>

definition wrote :: "nat \<Rightarrow> string \<Rightarrow> string \<Rightarrow> out \<Rightarrow> bool" where
  "wrote m b s o1 =
     (o_buf o1 = take m s @ drop (min m (length s)) b \<and> min (o_pos o1) m = min (length s) m \<and> o_total o1 = length s)"

lemma wrote_step:
  assumes "wrote m b s o1" "m < length b"
  shows "wrote m b (s @ [c]) (emit m c o1)" "wrote m b (s @ [c]) (emit_literal m c o1)"
proof -
  have "wrote m b (s @ [c]) (emit m c o1) \<and> wrote m b (s @ [c]) (emit_literal m c o1)"
  proof (cases "o_pos o1 < m")
    case True
    then have at: "o_pos o1 = length s" "length s < m" using assms(1) by (auto simp: wrote_def min_def split: if_splits)
    then have up: "(s @ drop (length s) b)[length s := c] = s @ c # drop (Suc (length s)) b"
      using assms(2) by (simp add: list_update_append Cons_nth_drop_Suc [symmetric])
    show ?thesis using assms(1) at up by (simp add: wrote_def emit_def emit_literal_def min_absorb1 min_absorb2)
  next
    case False
    then have "m \<le> length s" "m \<le> o_pos o1" using assms(1) by (auto simp: wrote_def min_def split: if_splits)
    then show ?thesis using assms(1) False by (simp add: wrote_def emit_def emit_literal_def min_absorb1 min_absorb2)
  qed
  then show "wrote m b (s @ [c]) (emit m c o1)" "wrote m b (s @ [c]) (emit_literal m c o1)" by simp_all
qed

lemma wrote_emits: "wrote m b s o1 \<Longrightarrow> m < length b \<Longrightarrow> wrote m b (s @ t) (emits m t o1)"
proof (induction t arbitrary: s o1)
  case (Cons c t)
  show ?case using Cons.IH [OF wrote_step(1) [OF Cons.prems]] Cons.prems(2) by (simp add: emits_def)
qed (simp add: emits_def)

lemma emit_padded_eq: "emit_padded m sp c t o1 = emits m (padded sp c t) o1"
  by (cases "f_width sp > length t"; cases "left_align sp") (simp_all add: emit_padded_def padded_def emits_def Let_def)

lemma unsigned_text: "10 \<le> unat base \<Longrightarrow> uitoa (unsigned_arg sp v) base up = Some (nat_text (unat base) up (unsigned_value sp v))"
proof -
  have "unat (ucast (ucast v :: u32) :: u64) = unat v mod 2 ^ 32" by (simp add: unsigned_ucast_eq take_bit_eq_mod unat_mod)
  then show "10 \<le> unat base \<Longrightarrow> ?thesis" by (simp add: uitoa_text unsigned_arg_def unsigned_value_def)
qed

lemma signed_text: "itoa (signed_arg sp v) = Some (int_text (signed_value sp v))"
proof -
  have "sint (scast (ucast v :: u32) :: u64) = sint (ucast v :: u32)" 
  proof -
    have "- (2 ^ 31) \<le> sint (ucast v :: u32)" "sint (ucast v :: u32) < 2 ^ 31"
      using sint_ge [of "ucast v :: u32"] sint_less [of "ucast v :: u32"] by simp_all
    then show ?thesis by (simp add: signed_scast_eq signed_take_bit_int_eq_self)
  qed
  then show ?thesis by (simp add: itoa_text signed_arg_def signed_value_def)
qed

text \<open>A conversion emits its text and takes its argument.\<close>

lemma directive_eq: "directive m sp c args o1 = map_option (\<lambda>(s, args). (emits m s o1, args)) (conversion sp c args)"
proof -
  have u: "uitoa v 16 False = Some (nat_text 16 False (unat v))" for v :: u64 using uitoa_text [of 16 v False] by simp
  have n: "uitoa (unsigned_arg sp v) 10 False = Some (nat_text 10 False (unsigned_value sp v))"
    "uitoa (unsigned_arg sp v) 16 up = Some (nat_text 16 up (unsigned_value sp v))" for v up
    using unsigned_text [of 10 sp v False] unsigned_text [of 16 sp v up] by simp_all
  have b: "char_of (unat (ucast v :: u8)) = char_of (unat v mod 2 ^ 8)" for v :: u64
    by (simp add: unsigned_ucast_eq take_bit_eq_mod unat_mod)
  have e: "emits m t (emits m s o1) = emits m (s @ t) o1" "emit m d o1 = emits m [d] o1" for s t d o1
    by (simp_all add: emits_def)
  show ?thesis
    by (cases args; cases "hd args")
      (auto simp: directive_def take_int_def take_str_def emit_padded_eq u n b signed_text e Let_def)
qed

section \<open>The formatter and the reference\<close>

lemma format_text_simps:
  "format_text [] args = Some []"
  "c \<noteq> CHR ''%'' \<Longrightarrow> format_text (c # fmt) args = map_option ((#) c) (format_text fmt args)"
  "parse_spec fmt = (sp, []) \<Longrightarrow> format_text (CHR ''%'' # fmt) args = None"
  "parse_spec fmt = (sp, d # rest) \<Longrightarrow> format_text (CHR ''%'' # fmt) args =
     (if f_width sp < int_bound
      then (case conversion sp d args of None \<Rightarrow> None | Some (s, args) \<Rightarrow> map_option ((@) s) (format_text rest args))
      else None)"
  by (auto simp: format_text_def simp del: conversion.simps split: option.splits)

lemma format_loop_text:
  "wrote m b s o1 \<Longrightarrow> m < length b \<Longrightarrow>
    (case format_text fmt args of
       None \<Rightarrow> format_loop m fmt args o1 = None
     | Some t \<Rightarrow> (\<exists>o2. format_loop m fmt args o1 = Some o2 \<and> wrote m b (s @ t) o2))"
proof (induction m fmt args o1 arbitrary: s rule: format_loop.induct)
  case (1 m args o1)
  then show ?case by (simp add: format_text_simps)
next
  case (2 m c fmt args o1)
  show ?case
  proof (cases "c = CHR ''%''")
    case False
    show ?thesis using 2(1) [OF False wrote_step(2) [OF 2(3,4)]] 2(4) False
      by (auto simp: format_text_simps split: option.splits)
  next
    case True
    obtain sp rest where p: "parse_spec fmt = (sp, rest)" by fastforce
    have ih: "case format_text r args' of
        None \<Rightarrow> format_loop m r args' (emits m x o1) = None
      | Some t \<Rightarrow> \<exists>o2. format_loop m r args' (emits m x o1) = Some o2 \<and> wrote m b ((s @ x) @ t) o2"
      if "rest = d # r" "f_width sp < int_bound" "conversion sp d args = Some (x, args')" for d r x args'
      by (rule 2(2) [of sp rest d r "(emits m x o1, args')"])
        (use True p that wrote_emits [OF 2(3,4)] 2(4) in \<open>simp_all add: directive_eq del: conversion.simps\<close>)
    show ?thesis
    proof (cases rest)
      case (Cons d r)
      show ?thesis using True p Cons ih [OF Cons]
        by (cases "conversion sp d args")
          (auto simp: format_text_simps directive_eq simp del: conversion.simps split: option.splits)
    qed (use True p in \<open>simp add: format_text_simps\<close>)
  qed
qed

lemma wrote_empty: "m < length b \<Longrightarrow> wrote m b [] \<lparr>o_buf = b, o_pos = 0, o_total = 0\<rparr>"
  by (simp add: wrote_def)


section \<open>Properties\<close>


text \<open>C37. For a buffer of the size that is passed, the formatter is the reference: the buffer ends up with the text of the
  format, cut off at one character less than the size, then the terminator, then what it held before; the result is the
  length of the whole text.  There is no result exactly when the text is undefined or longer than an int.\<close>

theorem vsnprintk_equivalent:
  assumes "0 < sz" "sz \<le> length buf"
  shows "vsnprintk (Some buf) sz fmt args =
    (case format_text fmt args of
       None \<Rightarrow> None
     | Some s \<Rightarrow>
         if length s < int_bound
         then Some (Some (take (sz - 1) s @ [char_of (0 :: nat)] @ drop (min (sz - 1) (length s) + 1) buf), length s)
         else None)"
proof -
  let ?m = "sz - 1" let ?o = "\<lparr>o_buf = buf, o_pos = 0, o_total = 0\<rparr>"
  have m: "?m < length buf" using assms by simp
  have fin: "(if o_pos o1 < sz then (o_buf o1)[o_pos o1 := z] else (o_buf o1)[?m := z])
      = take ?m s @ [z] @ drop (min ?m (length s) + 1) buf" if w: "wrote ?m buf s o1" for s o1 z
  proof -
    have p: "(if o_pos o1 < sz then o_pos o1 else ?m) = min ?m (length s)"
      using w assms(1) by (auto simp: wrote_def min_def split: if_splits)
    have "(take ?m s @ drop (min ?m (length s)) buf)[min ?m (length s) := z] = take ?m s @ [z] @ drop (min ?m (length s) + 1) buf"
      using m by (simp add: list_update_append Cons_nth_drop_Suc [symmetric] min.commute)
    then show ?thesis using w p by (metis wrote_def)
  qed
  note run = format_loop_text [OF wrote_empty [OF m] m, of fmt args]
  show ?thesis
  proof (cases "format_text fmt args")
    case None
    then show ?thesis using run assms(1) by (simp add: vsnprintk_def)
  next
    case (Some s)
    then obtain o2 where l: "format_loop ?m fmt args ?o = Some o2" and w: "wrote ?m buf s o2" using run by auto
    have v: "vsnprintk (Some buf) sz fmt args =
        (if o_total o2 < int_bound
         then Some (Some (if o_pos o2 < sz then (o_buf o2)[o_pos o2 := char_of (0 :: nat)] else (o_buf o2)[?m := char_of (0 :: nat)]), o_total o2)
         else None)" using l assms(1) by (simp add: vsnprintk_def Let_def)
    have "o_total o2 = length s" using w by (simp add: wrote_def)
    then show ?thesis unfolding v fin [OF w] Some by simp
  qed
qed

theorem vsnprintk_equivalent_witness:
  "vsnprintk (Some ''............'') 8 ''%05d|%-3s|%%'' [Arg_Int (- 42), Arg_Str (Some ''a'')]
     = Some (Some (''00-42|a'' @ [char_of (0 :: nat)] @ ''....''), 11)"
proof -
  have two: "replicate 2 c = [c, c]" for c :: char by (simp add: numeral_2_eq_2)
  have "format_text ''%05d|%-3s|%%'' [Arg_Int (- 42), Arg_Str (Some ''a'')] = Some ''00-42|a  |%''" 
    by (simp add: format_text_def parse_spec_def parse_length_def int_bound_def padded_def signed_value_def int_text_def nat_text.simps digit_def
      number_pad_def two)
  then show ?thesis
    using vsnprintk_equivalent [of 8 "''............''" "''%05d|%-3s|%%''" "[Arg_Int (- 42), Arg_Str (Some ''a'')]"]
    by (simp add: int_bound_def)
qed

end
