(* ===== verification/Spec2Isabelle.thy ===== *)
theory Spec2Isabelle
  imports Klibc_String Spinlock Timers Scheduler_Contract Mutex_Contract Bcache_Contract Heap_Contract Printk_Contract
begin

text \<open>
  A verification library for the spinix kernel, \<^verbatim>\<open>src/src/kernel\<close>.

  \<^bold>\<open>How the code is modelled.\<close>  Every C function is a HOL function of the same name on an explicit state.  Integers keep
  their width (\<open>u64\<close> is a 64-bit word), pointers are 64-bit words with \<open>0\<close> for NULL, and structures reached through pointers
  are records in a store that is a function of the address.  The states of components that are built on each other are
  records that extend each other: \<open>pmm\<close>, \<open>mmu\<close>, \<open>vmm\<close> and \<open>heap\<close>.  A run that does not return normally is a value: a
  \<open>result\<close> is either the reason of a halt (a NULL dereference, a panic, a division error, a loop that cannot end) or the value
  that is returned.  Loops are recursive functions with a termination proof where the code bounds them, and partial functions
  in the option monad, with \<open>None\<close> for a run without an end, where it does not.  Code that several processors run at the same
  time is a step relation whose steps are single accesses of shared memory.

  \<^bold>\<open>Shared theories.\<close>  \<open>Kernel_Prelude\<close> has the integer types, results, alignment facts, linked lists in a store with the
  searches that the code repeats, and state machines with invariants.  \<open>Interfaces\<close> has the contracts between components as
  locales: \<open>page_allocator\<close> for what the page tables rely on and \<open>page_map\<close> for what address spaces promise; both are
  interpreted on the kernel's own functions.  Loops over linked lists need no bound of their own: they are partial
  functions, and the invariants say that the lists end.

  \<^bold>\<open>Physical memory\<close> (\<^verbatim>\<open>mm/pmm.c\<close>): \<open>Pmm\<close> has the zones, their free stacks, boot and single pages, \<open>Pmm_Runs\<close> the contiguous
  runs, \<open>Pmm_Contract\<close> the properties.  Boot frees exactly the usable pages, allocated pages are distinct and cleared, release
  undoes allocation, and the search for runs does what it does on every branch, including the NULL dereference that every
  request for two or more pages ends in after boot.

  \<^bold>\<open>Page tables\<close> (\<^verbatim>\<open>mm/mmu.c\<close>): \<open>Mmu\<close> has the operations, \<open>Mmu_Tree\<close> the invariant of the tree of tables in memory, \<open>Mmu_Map\<close>
  single pages, \<open>Mmu_Ranges\<close> ranges, \<open>Mmu_Contract\<close> the properties.  The tables implement a map from pages to frames: mapping,
  unmapping, ranges, copy on write and the isolation of a new context are stated as translations of addresses.

  \<^bold>\<open>Memory regions\<close> (\<^verbatim>\<open>mm/vmm.c\<close>): \<open>Vmm\<close> has the operations, \<open>Vmm_Contract\<close> frames and the insertion of a region, \<open>Vmm_Regions\<close>
  the specification of merging and splitting on lists of regions, \<open>Vmm_Faults\<close> demand paging and the properties.  The regions of
  a space stay sorted and disjoint, merging refines its specification and undoes a split, and a fault in a lazy region maps a
  zeroed page.

  \<^bold>\<open>Heap\<close> (\<^verbatim>\<open>mm/heap.c\<close>): \<open>Heap\<close> has the slab caches and the block allocator, \<open>Heap_Slab\<close> the invariant of a cache and its
  operations, \<open>Object_Pool\<close> the contract of an object allocator, \<open>Heap_Contract\<close> its interpretation on the slab caches and the
  properties.  Objects that are held never overlap; taking a block splits it without loss; releasing a block behind a free one
  leaves two free blocks that overlap.  Histories of a cache are those that its existing slabs serve: that a new slab lies apart
  from the others is what the regions promise.

  \<^bold>\<open>Strings\<close> (\<^verbatim>\<open>klibc/string.c\<close>): \<open>Klibc_String\<close> has every routine over a byte store and what each computes.
  \<^bold>\<open>Formatted output\<close> (\<^verbatim>\<open>video/printk.c\<close>): \<open>Printk\<close> has the formatter and the output to the terminal, \<open>Printk_Contract\<close> a reference
  formatter on strings, its types, and the equivalence of the two.

  \<^bold>\<open>Locks\<close> (\<^verbatim>\<open>core/spinlock.c\<close>, \<^verbatim>\<open>core/mutex.c\<close>): \<open>Spinlock\<close>, \<open>Mutex\<close> and \<open>Mutex_Contract\<close> have the step relations of any number of
  processors or tasks: mutual exclusion, progress, restored interrupt flags, first come first served, no lost wake-up.

  \<^bold>\<open>Tasks\<close> (\<^verbatim>\<open>core/scheduler.c\<close>): \<open>Scheduler\<close> has the operations, \<open>Scheduler_Inv\<close> the invariant of the ready queues and the sleep
  list, \<open>Scheduler_Contract\<close> the properties: the highest queue is served, round robin within a queue, sleepers sorted and woken.

  \<^bold>\<open>Time\<close> (\<^verbatim>\<open>arch/x86_64/tsc.c\<close>, \<^verbatim>\<open>pit.c\<close>, \<^verbatim>\<open>rtc.c\<close>): \<open>Timers\<close> has conversions, delays and the decoding of the clock; readings of
  the hardware are parameters.

  \<^bold>\<open>Blocks\<close> (\<^verbatim>\<open>blk/blk.c\<close>, \<^verbatim>\<open>blk/bcache.c\<close>): \<open>Blk\<close> has the device list and requests, with the functions of a driver in the device
  record, \<open>Bcache\<close> the cache, \<open>Bcache_Inv\<close> its ring and hash chains, \<open>Bcache_Contract\<close> the properties: reads are coherent with the
  disk, synchronising makes writes durable, and which buffer is evicted.

  \<^bold>\<open>Not modelled.\<close>  Drivers (\<^verbatim>\<open>drivers\<close>) and the code that programs interrupt controllers, descriptor tables and processors
  (\<^verbatim>\<open>arch/x86_64\<close>) are register protocols of devices; where a modelled part calls them, what they return is a parameter.  The
  terminal emulator (\<^verbatim>\<open>video/flanterm.c\<close> and its backend) is third-party code; the calls that are made to it are modelled.
  Processes, system calls, the file systems and the program loader (\<^verbatim>\<open>core/proc.c\<close>, \<^verbatim>\<open>arch/x86_64/syscall.c\<close>, \<^verbatim>\<open>fs\<close>) are built on
  the parts above and are not translated, nor are the keyboard decoder, the Ethernet layer and \<^verbatim>\<open>mm/paging.c\<close>, which only
  forwards to \<^verbatim>\<open>mm/mmu.c\<close>.  Functions that only print are left out.
\<close>

end
